(* ===== verification/Prelude.thy ===== *)
theory Prelude
  imports Main "HOL-Library.Word"
begin

text \<open>
  Shared vocabulary of the development: the machine integers of the Rust sources, the
  outcome type that makes \<open>Result\<close> errors and panics values, slices and indexing that
  panic out of range, and the arithmetic of big-endian byte lists that every
  encoder and decoder of the program rests on.
\<close>

unbundle bit_operations_syntax

named_theorems be_simps "big-endian byte lists"
named_theorems outcome_simps "sequencing of outcomes"
named_theorems eval_simps "evaluation of the model on concrete inputs"

section \<open>Integers and bytes\<close>

type_synonym u8 = "8 word"
type_synonym i16 = "16 word"
type_synonym u32 = "32 word"
type_synonym u64 = "64 word"
type_synonym bytes = "u8 list"

section \<open>Outcomes: results, errors and panics\<close>

text \<open>
  \<open>Ok\<close> and \<open>Err\<close> are the constructors of \<open>Result\<close>. \<open>Panic\<close> stands for an evaluation
  that produces no value at all: a panic, or a loop that does not end.
\<close>

datatype ('e, 'a) outcome = Ok 'a | Err 'e | Panic

fun and_then :: "('e, 'a) outcome \<Rightarrow> ('a \<Rightarrow> ('e, 'b) outcome) \<Rightarrow> ('e, 'b) outcome" where
  "and_then (Ok x) f = f x"
| "and_then (Err e) f = Err e"
| "and_then Panic f = Panic"

fun map_err :: "('e \<Rightarrow> 'f) \<Rightarrow> ('e, 'a) outcome \<Rightarrow> ('f, 'a) outcome" where
  "map_err f (Ok x) = Ok x"
| "map_err f (Err e) = Err (f e)"
| "map_err f Panic = Panic"

fun of_panic :: "'a option \<Rightarrow> ('e, 'a) outcome" where
  "of_panic (Some x) = Ok x"
| "of_panic None = Panic"

lemma and_then_assoc: "and_then (and_then m f) g = and_then m (\<lambda>x. and_then (f x) g)"
  by (cases m) simp_all

lemma and_then_Ok_iff [outcome_simps]:
  "and_then m f = Ok y \<longleftrightarrow> (\<exists>x. m = Ok x \<and> f x = Ok y)"
  by (cases m) auto

lemma and_then_Panic_iff [outcome_simps]:
  "and_then m f = Panic \<longleftrightarrow> m = Panic \<or> (\<exists>x. m = Ok x \<and> f x = Panic)"
  by (cases m) auto

lemma map_err_Ok_iff [simp]: "map_err f m = Ok x \<longleftrightarrow> m = Ok x"
  by (cases m) auto

lemma map_err_Panic_iff [simp]: "map_err f m = Panic \<longleftrightarrow> m = Panic"
  by (cases m) auto

lemma of_panic_Ok_iff [simp]: "of_panic m = Ok x \<longleftrightarrow> m = Some x"
  by (cases m) auto

lemma of_panic_Panic_iff [simp]: "of_panic m = Panic \<longleftrightarrow> m = None"
  by (cases m) auto

section \<open>Slices\<close>

text \<open>Indexing and slicing panic out of range, as in Rust.\<close>

definition index :: "'a list \<Rightarrow> nat \<Rightarrow> ('e, 'a) outcome" where
  "index xs i = (if i < length xs then Ok (xs ! i) else Panic)"

definition slice_from :: "'a list \<Rightarrow> nat \<Rightarrow> ('e, 'a list) outcome" where
  "slice_from xs i = (if i \<le> length xs then Ok (drop i xs) else Panic)"

definition slice :: "'a list \<Rightarrow> nat \<Rightarrow> nat \<Rightarrow> ('e, 'a list) outcome" where
  "slice xs i j = (if i \<le> j \<and> j \<le> length xs then Ok (take (j - i) (drop i xs)) else Panic)"

definition slice_to :: "'a list \<Rightarrow> nat \<Rightarrow> ('e, 'a list) outcome" where
  "slice_to xs j = (if j \<le> length xs then Ok (take j xs) else Panic)"

text \<open>
  Bytes written over a byte sequence from a position: what is before and after stays.
\<close>

definition overwrite :: "'a list \<Rightarrow> nat \<Rightarrow> 'a list \<Rightarrow> 'a list" where
  "overwrite xs p bs = take p xs @ bs @ drop (p + length bs) xs"

lemma overwrite_Nil [simp]: "overwrite xs p [] = xs"
  by (simp add: overwrite_def)

lemma overwrite_at_end: "overwrite xs (length xs) bs = xs @ bs"
  by (simp add: overwrite_def)

lemma length_overwrite [simp]:
  "p \<le> length xs \<Longrightarrow> length (overwrite xs p bs) = max (length xs) (p + length bs)"
  by (auto simp: overwrite_def)

lemma overwrite_append:
  "p \<le> length xs \<Longrightarrow>
   overwrite (overwrite xs p as) (p + length as) bs = overwrite xs p (as @ bs)"
  by (simp add: overwrite_def add.commute add.left_commute)

lemma overwrite_inner:
  assumes "p \<le> length xs" "length bs' = length bs"
  shows "overwrite (overwrite xs p (as @ bs @ cs)) (p + length as) bs' =
         overwrite xs p (as @ bs' @ cs)"
proof -
  have "overwrite xs p (as @ bs @ cs) = (take p xs @ as) @ bs @ cs @ drop (p + length (as @ bs @ cs)) xs"
    by (simp add: overwrite_def)
  moreover have "p + length as = length (take p xs @ as)"
    using assms(1) by simp
  ultimately have "overwrite (overwrite xs p (as @ bs @ cs)) (p + length as) bs' =
     (take p xs @ as) @ bs' @ cs @ drop (p + length (as @ bs @ cs)) xs"
    using assms(2) by (simp add: overwrite_def)
  then show ?thesis
    using assms(2) by (simp add: overwrite_def)
qed

lemma take_overwrite [simp]:
  "p \<le> length xs \<Longrightarrow> take (p + length bs) (overwrite xs p bs) = take p xs @ bs"
  by (simp add: overwrite_def)

section \<open>Big-endian byte lists\<close>

text \<open>
  The number a byte list denotes in big-endian order, and the \<open>n\<close> low bytes of a number
  in that order. Both are over \<^typ>\<open>nat\<close>, so no width limits them.
\<close>

definition be_val :: "bytes \<Rightarrow> nat" where
  "be_val bs = foldl (\<lambda>a b. 256 * a + unat b) 0 bs"

fun be_list :: "nat \<Rightarrow> nat \<Rightarrow> bytes" where
  "be_list 0 v = []"
| "be_list (Suc n) v = be_list n (v div 256) @ [of_nat v]"

lemma be_list_2: "be_list 2 v = [of_nat (v div 256), of_nat v]"
  by (simp add: numeral_2_eq_2)

lemma unat_u8_less [simp]: "unat (b :: u8) < 256"
  using unsigned_less [of b, where ?'a = nat] by simp

lemma be_val_Nil [simp, be_simps]: "be_val [] = 0"
  by (simp add: be_val_def)

lemma be_val_snoc [be_simps]: "be_val (bs @ [b]) = 256 * be_val bs + unat b"
  by (simp add: be_val_def)

lemma be_val_append [be_simps]: "be_val (as @ bs) = 256 ^ length bs * be_val as + be_val bs"
proof (induction bs rule: rev_induct)
  case Nil
  then show ?case by simp
next
  case (snoc b bs)
  then show ?case
    by (simp add: be_val_snoc append_assoc [symmetric] algebra_simps del: append_assoc)
qed

lemma be_val_Cons [be_simps]: "be_val (b # bs) = 256 ^ length bs * unat b + be_val bs"
  using be_val_append [of "[b]" bs] by (simp add: be_val_def)

lemma be_val_less [be_simps]: "be_val bs < 256 ^ length bs"
proof (induction bs rule: rev_induct)
  case Nil
  then show ?case by simp
next
  case (snoc b bs)
  have "256 * be_val bs + unat b < 256 * (be_val bs + 1)"
    by simp
  also have "\<dots> \<le> 256 * 256 ^ length bs"
    using snoc by simp
  finally show ?case by (simp add: be_val_snoc)
qed

lemma length_be_list [simp]: "length (be_list n v) = n"
  by (induction n v rule: be_list.induct) auto

lemma unat_of_nat_u8: "unat (of_nat v :: u8) = v mod 256"
  by (simp add: unat_of_nat)

lemma be_val_be_list [simp]: "be_val (be_list n v) = v mod 256 ^ n"
proof (induction n v rule: be_list.induct)
  case (1 v)
  then show ?case by simp
next
  case (2 n v)
  have "v mod (256 * 256 ^ n) = 256 * (v div 256 mod 256 ^ n) + v mod 256"
    by (rule mod_mult2_eq)
  with 2 show ?case
    by (simp add: be_val_snoc unat_of_nat_u8)
qed

lemma be_list_be_val [simp]: "be_list (length bs) (be_val bs) = bs"
proof (induction bs rule: rev_induct)
  case Nil
  then show ?case by simp
next
  case (snoc b bs)
  have "(of_nat (256 * be_val bs + unat b) :: u8) = b"
    by (rule word_unat_eq_iff [THEN iffD2]) (simp only: unat_of_nat_u8, simp)
  with snoc show ?case
    by (simp add: be_val_snoc)
qed

lemma be_val_inject: "length as = length bs \<Longrightarrow> be_val as = be_val bs \<Longrightarrow> as = bs"
  by (metis be_list_be_val)

lemma be_list_numeral [eval_simps]:
  "be_list (numeral k) v = be_list (pred_numeral k) (v div 256) @ [of_nat v]"
  by (simp only: numeral_eq_Suc [of k] be_list.simps(2))

end
