(* ===== verification/Rust_Std.thy ===== *)
theory Rust_Std
  imports Prelude
begin

text \<open>
  What the program uses of its surroundings. The Rust language and standard library are
  modelled directly: checked and wrapping arithmetic, \<open>std::io\<close> errors, the \<open>?\<close>
  operator on writes, the traits \<open>Write\<close> and \<open>Seek\<close> as a record of operations, and the two
  instances the program uses, \<open>Cursor<Vec<u8>>\<close> and \<open>Cursor<&mut [u8]>\<close>.
  The number codecs come from the crates \<open>byteorder\<close> and \<open>bytes\<close>; they are
  fields of the record \<open>rt\<close>, an argument of every definition that uses them,
  and the locale \<open>big_endian\<close> states their documented behaviour.
\<close>

section \<open>Build profile and number codecs\<close>

text \<open>
  \<open>overflow_checks\<close> is the build profile: with it, an arithmetic overflow panics (debug),
  without it, it wraps (release). A codec field that returns an option is \<open>None\<close> where the
  crate panics.
\<close>

record rt =
  overflow_checks :: bool
  read_uint :: "bytes \<Rightarrow> nat \<Rightarrow> u64 option"
  read_i16 :: "bytes \<Rightarrow> i16 option"
  put_uint :: "u64 \<Rightarrow> nat \<Rightarrow> bytes option"
  put_u64 :: "u64 \<Rightarrow> bytes"
  put_u32 :: "u32 \<Rightarrow> bytes"
  put_i16 :: "i16 \<Rightarrow> bytes"
  put_u8 :: "u8 \<Rightarrow> bytes"

locale big_endian =
  fixes E :: rt
  assumes read_uint: "1 \<le> n \<Longrightarrow> n \<le> 8 \<Longrightarrow> n \<le> length bs \<Longrightarrow>
      read_uint E bs n = Some (of_nat (be_val (take n bs)))"
    and read_i16: "2 \<le> length bs \<Longrightarrow> read_i16 E bs = Some (of_nat (be_val (take 2 bs)))"
    and put_uint: "n \<le> 8 \<Longrightarrow> put_uint E v n = Some (be_list n (unat v))"
    and put_u64: "put_u64 E v = be_list 8 (unat v)"
    and put_u32: "put_u32 E w = be_list 4 (unat w)"
    and put_i16: "put_i16 E i = be_list 2 (unat i)"
    and put_u8: "put_u8 E b = [b]"

text \<open>A reference instance, to evaluate the model on concrete inputs.\<close>

definition reference_rt :: "bool \<Rightarrow> rt" where
  "reference_rt oc =
    \<lparr>overflow_checks = oc,
     read_uint = (\<lambda>bs n. if n = 0 \<or> 8 < n \<or> length bs < n then None
                         else Some (of_nat (be_val (take n bs)))),
     read_i16 = (\<lambda>bs. if length bs < 2 then None else Some (of_nat (be_val (take 2 bs)))),
     put_uint = (\<lambda>v n. if 8 < n then None else Some (be_list n (unat v))),
     put_u64 = (\<lambda>v. be_list 8 (unat v)),
     put_u32 = (\<lambda>v. be_list 4 (unat v)),
     put_i16 = (\<lambda>v. be_list 2 (unat v)),
     put_u8 = (\<lambda>b. [b])\<rparr>"

lemma overflow_checks_reference [simp]: "overflow_checks (reference_rt oc) = oc"
  by (simp add: reference_rt_def)

interpretation reference: big_endian "reference_rt oc" for oc
  by unfold_locales (simp_all add: reference_rt_def)

text \<open>Unsigned 64-bit addition and subtraction under the build profile.\<close>

definition add_u64 :: "rt \<Rightarrow> u64 \<Rightarrow> u64 \<Rightarrow> ('e, u64) outcome" where
  "add_u64 E a b =
    (if overflow_checks E \<and> 2 ^ 64 \<le> unat a + unat b then Panic else Ok (a + b))"

definition sub_u64 :: "rt \<Rightarrow> u64 \<Rightarrow> u64 \<Rightarrow> ('e, u64) outcome" where
  "sub_u64 E a b = (if overflow_checks E \<and> a < b then Panic else Ok (a - b))"

lemma unat_add_u64: "unat a + unat b < 2 ^ 64 \<Longrightarrow> unat (a + b :: u64) = unat a + unat b"
  by (simp add: unat_word_ariths)

lemma unat_sub_u64: "b \<le> a \<Longrightarrow> unat (a - b :: u64) = unat a - unat b"
  by (rule unat_sub)

lemma add_u64_exact: "unat a + unat b < 2 ^ 64 \<Longrightarrow> add_u64 E a b = Ok (a + b)"
  by (simp add: add_u64_def)

lemma sub_u64_exact: "b \<le> a \<Longrightarrow> sub_u64 E a b = Ok (a - b)"
  by (simp add: sub_u64_def leD)

lemma add_u64_release: "\<not> overflow_checks E \<Longrightarrow> add_u64 E a b = Ok (a + b)"
  by (simp add: add_u64_def)

lemma sub_u64_release: "\<not> overflow_checks E \<Longrightarrow> sub_u64 E a b = Ok (a - b)"
  by (simp add: sub_u64_def leD)

section \<open>std::io\<close>

datatype error_kind = InvalidInput | WriteZero | OtherKind nat

text \<open>An \<open>io::Error\<close>: its kind and the error it wraps, if any.\<close>

datatype 'w io_error = MkIoError (kind: error_kind) (payload: "'w option")

datatype seek_from = SeekStart nat | SeekCurrent int | SeekEnd int

text \<open>
  An I/O action: a function of the writer's state that returns the new state with the
  \<open>IoResult\<close>. On an error the state is the one the failed write left behind.
\<close>

type_synonym ('t, 'w, 'a) io = "'t \<Rightarrow> 't \<times> ('w io_error, 'a) outcome"

definition io_return :: "'a \<Rightarrow> ('t, 'w, 'a) io" where
  "io_return x = (\<lambda>t. (t, Ok x))"

definition io_fail :: "'w io_error \<Rightarrow> ('t, 'w, 'a) io" where
  "io_fail e = (\<lambda>t. (t, Err e))"

definition io_panic :: "('t, 'w, 'a) io" where
  "io_panic = (\<lambda>t. (t, Panic))"

text \<open>The \<open>?\<close> operator: go on with the value, or return the error at once.\<close>

definition io_bind :: "('t, 'w, 'a) io \<Rightarrow> ('a \<Rightarrow> ('t, 'w, 'b) io) \<Rightarrow> ('t, 'w, 'b) io" where
  "io_bind m f =
    (\<lambda>t. case m t of
       (t', Ok x) \<Rightarrow> f x t'
     | (t', Err e) \<Rightarrow> (t', Err e)
     | (t', Panic) \<Rightarrow> (t', Panic))"

fun io_lift :: "('w io_error, 'a) outcome \<Rightarrow> ('t, 'w, 'a) io" where
  "io_lift r t = (t, r)"

lemma io_bind_Ok: "m t = (t', Ok x) \<Longrightarrow> io_bind m f t = f x t'"
  by (simp add: io_bind_def)

lemma io_bind_Err: "m t = (t', Err e) \<Longrightarrow> io_bind m f t = (t', Err e)"
  by (simp add: io_bind_def)

lemma io_bind_lift: "io_bind (io_lift (Ok x)) f = f x"
  by (simp add: io_bind_def fun_eq_iff)

text \<open>The methods of \<open>Write\<close> and \<open>Seek\<close> that the program calls.\<close>

record ('t, 'w) writer =
  write_all :: "bytes \<Rightarrow> ('t, 'w, unit) io"
  seek :: "seek_from \<Rightarrow> ('t, 'w, nat) io"

text \<open>
  Writing into a fixed array (\<open>buffer.as_mut().put_uint(..)\<close> and its kin): the bytes
  overwrite the array from a position, and a panic if they do not fit.
\<close>

definition buf_put :: "bytes \<Rightarrow> nat \<Rightarrow> bytes \<Rightarrow> ('e, bytes) outcome" where
  "buf_put buf p bs =
    (if p + length bs \<le> length buf then Ok (overwrite buf p bs) else Panic)"

section \<open>Cursors\<close>

record cursor =
  get_ref :: bytes
  position :: nat

definition cursor_new :: "bytes \<Rightarrow> cursor" where
  "cursor_new bs = \<lparr>get_ref = bs, position = 0\<rparr>"

fun seek_target :: "cursor \<Rightarrow> seek_from \<Rightarrow> int" where
  "seek_target c (SeekStart n) = int n"
| "seek_target c (SeekCurrent d) = int (position c) + d"
| "seek_target c (SeekEnd d) = int (length (get_ref c)) + d"

definition cursor_seek :: "seek_from \<Rightarrow> (cursor, 'w, nat) io" where
  "cursor_seek s c =
    (let n = seek_target c s
     in if 0 \<le> n \<and> n < 2 ^ 64 then (c\<lparr>position := nat n\<rparr>, Ok (nat n))
        else (c, Err (MkIoError InvalidInput None)))"

text \<open>\<open>Cursor<Vec<u8>>\<close> grows: a write past the end extends the vector, after zero padding.\<close>

definition vec_write_all :: "bytes \<Rightarrow> (cursor, 'w, unit) io" where
  "vec_write_all bs c =
    (c\<lparr>get_ref := overwrite (get_ref c @ replicate (position c - length (get_ref c)) 0)
                    (position c) bs,
       position := position c + length bs\<rparr>, Ok ())"

definition vec_writer :: "(cursor, 'w) writer" where
  "vec_writer = \<lparr>write_all = vec_write_all, seek = cursor_seek\<rparr>"

text \<open>
  \<open>Cursor<&mut [u8]>\<close> does not grow: it takes what fits and fails with \<open>WriteZero\<close> when
  something is left.
\<close>

definition slice_write_all :: "bytes \<Rightarrow> (cursor, 'w, unit) io" where
  "slice_write_all bs c =
    (let p = min (position c) (length (get_ref c));
         n = min (length bs) (length (get_ref c) - p)
     in (c\<lparr>get_ref := overwrite (get_ref c) p (take n bs), position := position c + n\<rparr>,
         if n = length bs then Ok () else Err (MkIoError WriteZero None)))"

definition slice_writer :: "(cursor, 'w) writer" where
  "slice_writer = \<lparr>write_all = slice_write_all, seek = cursor_seek\<rparr>"

section \<open>The contract of a seekable writer\<close>

text \<open>
  What the encoders rely on: writing with room left overwrites the contents at the
  position and moves it on, and seeking inside the contents only moves the position.
  \<open>room t n\<close> says that \<open>n\<close> bytes of contents can be held.
\<close>

locale byte_sink =
  fixes W :: "('t, 'w) writer"
    and contents :: "'t \<Rightarrow> bytes"
    and pos :: "'t \<Rightarrow> nat"
    and room :: "'t \<Rightarrow> nat \<Rightarrow> bool"
  assumes write_ok: "pos t \<le> length (contents t) \<Longrightarrow> room t (pos t + length bs) \<Longrightarrow>
      \<exists>t'. write_all W bs t = (t', Ok ()) \<and> contents t' = overwrite (contents t) (pos t) bs \<and>
           pos t' = pos t + length bs \<and> room t' = room t"
    and tell_ok: "pos t < 2 ^ 64 \<Longrightarrow> seek W (SeekCurrent 0) t = (t, Ok (pos t))"
    and seek_ok: "n \<le> length (contents t) \<Longrightarrow> n < 2 ^ 64 \<Longrightarrow>
      \<exists>t'. seek W (SeekStart n) t = (t', Ok n) \<and> contents t' = contents t \<and>
           pos t' = n \<and> room t' = room t"
    and room_mono: "room t n \<Longrightarrow> m \<le> n \<Longrightarrow> room t m"
begin

text \<open>
  \<open>emits m bs\<close>: wherever there is room, the action succeeds and its whole effect is to
  write \<open>bs\<close> at the position.
\<close>

definition emits :: "('t, 'w, unit) io \<Rightarrow> bytes \<Rightarrow> bool" where
  "emits m bs \<longleftrightarrow>
    (\<forall>t. pos t \<le> length (contents t) \<and> room t (pos t + length bs) \<and>
         pos t + length bs < 2 ^ 64 \<longrightarrow>
       (\<exists>t'. m t = (t', Ok ()) \<and> contents t' = overwrite (contents t) (pos t) bs \<and>
             pos t' = pos t + length bs \<and> room t' = room t))"

lemma emitsE:
  assumes "emits m bs" "pos t \<le> length (contents t)" "room t (pos t + length bs)"
    "pos t + length bs < 2 ^ 64"
  obtains t' where "m t = (t', Ok ())" "contents t' = overwrite (contents t) (pos t) bs"
    "pos t' = pos t + length bs" "room t' = room t"
  using assms by (auto simp: emits_def)

lemma emits_write_all: "emits (write_all W bs) bs"
  by (auto simp: emits_def intro: write_ok)

lemma emits_return: "emits (io_return ()) []"
  by (auto simp: emits_def io_return_def)

lemma emits_bind:
  assumes m: "emits m as" and n: "emits n bs"
  shows "emits (io_bind m (\<lambda>_. n)) (as @ bs)"
  unfolding emits_def
proof (intro allI impI, elim conjE)
  fix t
  assume t: "pos t \<le> length (contents t)" "room t (pos t + length (as @ bs))"
    "pos t + length (as @ bs) < 2 ^ 64"
  have "room t (pos t + length as)"
    using t(2) by (rule room_mono) simp
  then obtain t1 where t1: "m t = (t1, Ok ())" "contents t1 = overwrite (contents t) (pos t) as"
    "pos t1 = pos t + length as" "room t1 = room t"
    using m t by (auto elim: emitsE)
  obtain t2 where t2: "n t1 = (t2, Ok ())" "contents t2 = overwrite (contents t1) (pos t1) bs"
    "pos t2 = pos t1 + length bs" "room t2 = room t1"
    using n t t1 by (auto elim!: emitsE [of n bs t1] simp: add.assoc)
  have "contents t2 = overwrite (contents t) (pos t) (as @ bs)"
    using t(1) t1 t2 by (simp add: overwrite_append)
  with t1 t2 show "\<exists>t'. io_bind m (\<lambda>_. n) t = (t', Ok ()) \<and>
      contents t' = overwrite (contents t) (pos t) (as @ bs) \<and>
      pos t' = pos t + length (as @ bs) \<and> room t' = room t"
    by (auto simp: io_bind_Ok)
qed

end

interpretation vec_cursor: byte_sink vec_writer get_ref position "\<lambda>_ _. True"
  by unfold_locales
    (auto simp: vec_writer_def vec_write_all_def cursor_seek_def)

interpretation slice_cursor: byte_sink slice_writer get_ref position "\<lambda>c n. n \<le> length (get_ref c)"
  by unfold_locales
    (auto simp: slice_writer_def slice_write_all_def cursor_seek_def Let_def fun_eq_iff min_def)

end
