(* ===== verification/Ebml.thy ===== *)
theory Ebml
  imports Rust_Std
begin

text \<open>
  The EBML layer of \<open>src/ebml.rs\<close>: variable-length integers, element headers, the writers
  of elements, and the trait \<open>FromEbml\<close> through which typed events are decoded.
  Definitions only; the facts about them are in \<open>Ebml_Decode\<close> and \<open>Ebml_Encode\<close>.
\<close>

section \<open>Constants, errors and data\<close>

definition EBML_HEAD_ID :: u64 where "EBML_HEAD_ID = 0x0A45DFA3"
definition DOC_TYPE_ID :: u64 where "DOC_TYPE_ID = 0x0282"
definition VOID_ID :: u64 where "VOID_ID = 0x6C"

datatype ebml_error = CorruptVarint | UnknownElementId | UnknownElementLength | CorruptPayload

datatype write_error = OutOfRange

datatype varint = Value u64 | Unknown

text \<open>The error every refused encoding returns.\<close>

definition out_of_range :: "write_error io_error" where
  "out_of_range = MkIoError InvalidInput (Some OutOfRange)"

section \<open>Decoding\<close>

text \<open>
  The first loop of \<open>decode_varint\<close>: shift the mask right until it meets the marker bit of
  the first byte. The result is the loop's state when it ends, the mask (\<open>msk\<close>) zero if no bit
  was found.
\<close>

function marker_loop :: "u8 \<Rightarrow> u64 \<Rightarrow> nat \<Rightarrow> u8 \<Rightarrow> u64 \<Rightarrow> u64 \<times> nat \<times> u8 \<times> u64" where
  "marker_loop byte value value_length msk unknown_marker =
    (if msk > 0 then
       if msk AND byte \<noteq> 0
       then (ucast (byte AND NOT msk), value_length, msk, ucast (msk - 1))
       else marker_loop byte value (value_length + 1) (drop_bit 1 msk) unknown_marker
     else (value, value_length, msk, unknown_marker))"
  by pat_completeness auto

lemma drop_bit_1_less: "0 < m \<Longrightarrow> unat (drop_bit 1 m :: u8) < unat m"
  by (simp add: drop_bit_eq_div unat_div word_less_nat_alt)

termination marker_loop
  by (relation "measure (\<lambda>(b, v, l, msk, u). unat msk)")
    (use drop_bit_1_less in auto)

declare marker_loop.simps [simp del]

text \<open>The second loop, over the indices of the remaining bytes.\<close>

fun tail_loop :: "bytes \<Rightarrow> nat list \<Rightarrow> u64 \<Rightarrow> u64 \<Rightarrow> (ebml_error, u64 \<times> u64) outcome" where
  "tail_loop bytes [] value unknown_marker = Ok (value, unknown_marker)"
| "tail_loop bytes (i # is) value unknown_marker =
    and_then (index bytes i) (\<lambda>b.
      tail_loop bytes is (push_bit 8 value + ucast b) (push_bit 8 unknown_marker + 0xFF))"

definition decode_varint :: "bytes \<Rightarrow> (ebml_error, (varint \<times> nat) option) outcome" where
  "decode_varint bytes =
    (if length bytes = 0 then Ok None
     else and_then (index bytes 0) (\<lambda>b0.
       case marker_loop b0 0 1 0x80 (NOT 0) of (value, value_length, msk, unknown_marker) \<Rightarrow>
         if msk = 0 then Err CorruptVarint
         else if value_length > length bytes then Ok None
         else and_then (tail_loop bytes [1..<value_length] value unknown_marker)
           (\<lambda>(value, unknown_marker).
              if value = unknown_marker then Ok (Some (Unknown, value_length))
              else Ok (Some (Value value, value_length)))))"

definition decode_tag :: "bytes \<Rightarrow> (ebml_error, (u64 \<times> varint \<times> nat) option) outcome" where
  "decode_tag bytes =
    (case decode_varint bytes of
       Ok None \<Rightarrow> Ok None
     | Err err \<Rightarrow> Err err
     | Panic \<Rightarrow> Panic
     | Ok (Some (Unknown, _)) \<Rightarrow> Err UnknownElementId
     | Ok (Some (Value element_id, id_size)) \<Rightarrow>
         and_then (slice_from bytes id_size) (\<lambda>rest.
           case decode_varint rest of
             Ok None \<Rightarrow> Ok None
           | Err err \<Rightarrow> Err err
           | Panic \<Rightarrow> Panic
           | Ok (Some (element_length, length_size)) \<Rightarrow>
               Ok (Some (element_id, element_length, id_size + length_size))))"

definition decode_uint :: "rt \<Rightarrow> bytes \<Rightarrow> (ebml_error, u64) outcome" where
  "decode_uint E bytes =
    (if length bytes < 1 \<or> length bytes > 8 then Err CorruptPayload
     else of_panic (read_uint E bytes (length bytes)))"

section \<open>Encoding\<close>

definition SMALL_FLAG :: u64 where "SMALL_FLAG = 0x80"
definition EIGHT_FLAG :: u64 where "EIGHT_FLAG = push_bit (8 * 7) 0x01"
definition EIGHT_MAX :: u64 where "EIGHT_MAX = EIGHT_FLAG - 2"
definition FOUR_FLAG :: u64 where "FOUR_FLAG = push_bit (8 * 3) 0x10"
definition FOUR_MAX :: u64 where "FOUR_MAX = FOUR_FLAG - 2"

text \<open>
  The loop of \<open>encode_varint\<close> that finds the size and flag of a value. It would never end
  for a value of all ones (the flag is shifted out to zero), so \<open>None\<close> is a loop that does
  not return; \<open>encode_varint\<close> enters it with smaller values only.
\<close>

partial_function (option) size_loop :: "u64 \<Rightarrow> u64 \<Rightarrow> nat \<Rightarrow> (u64 \<times> nat) option" where
  "size_loop value flag sz =
    (if value \<ge> flag - 1 then size_loop value (push_bit (8 - 1) flag) (sz + 1)
     else Some (flag, sz))"

text \<open>The match at the head of \<open>encode_varint\<close>: the size and the number to be written.\<close>

fun varint_number :: "varint \<Rightarrow> (write_error io_error, nat \<times> u64) outcome" where
  "varint_number Unknown = Ok (1, 0xFF)"
| "varint_number (Value value) =
    (if value > EIGHT_MAX then Err out_of_range
     else and_then (of_panic (size_loop value SMALL_FLAG 1)) (\<lambda>(flag, size).
       Ok (size, flag OR value)))"

definition encode_varint ::
    "rt \<Rightarrow> ('t, write_error) writer \<Rightarrow> varint \<Rightarrow> ('t, write_error, unit) io" where
  "encode_varint E W varint =
    io_bind (io_lift (varint_number varint)) (\<lambda>(size, number).
    io_bind (io_lift (of_panic (put_uint E number size))) (\<lambda>put.
    io_bind (io_lift (buf_put (replicate 8 0) 0 put)) (\<lambda>buffer.
    io_bind (io_lift (slice_to buffer size)) (\<lambda>out.
      write_all W out))))"

fun varint_4_number :: "varint \<Rightarrow> (write_error io_error, u64) outcome" where
  "varint_4_number Unknown = Ok (FOUR_FLAG OR (FOUR_FLAG - 1))"
| "varint_4_number (Value value) =
    (if value > FOUR_MAX then Err out_of_range else Ok (FOUR_FLAG OR value))"

definition encode_varint_4 ::
    "rt \<Rightarrow> ('t, write_error) writer \<Rightarrow> varint \<Rightarrow> ('t, write_error, unit) io" where
  "encode_varint_4 E W varint =
    io_bind (io_lift (varint_4_number varint)) (\<lambda>number.
    io_bind (io_lift (buf_put (replicate 4 0) 0 (put_u32 E (ucast number)))) (\<lambda>buffer.
      write_all W buffer))"

text \<open>
  Positions are \<open>u64\<close> values; \<open>pos_diff\<close> is their subtraction, which panics or wraps below
  zero.
\<close>

definition pos_diff :: "rt \<Rightarrow> nat \<Rightarrow> nat \<Rightarrow> ('e, nat) outcome" where
  "pos_diff E a b =
    (if b \<le> a then Ok (a - b) else if overflow_checks E then Panic else Ok (a + 2 ^ 64 - b))"

definition encode_element ::
    "rt \<Rightarrow> ('t, write_error) writer \<Rightarrow> u64 \<Rightarrow> ('t, write_error, 'x) io \<Rightarrow> ('t, write_error, unit) io" where
  "encode_element E W tag content =
    io_bind (encode_varint E W (Value tag)) (\<lambda>_.
    io_bind (encode_varint_4 E W Unknown) (\<lambda>_.
    io_bind (seek W (SeekCurrent 0)) (\<lambda>start.
    io_bind content (\<lambda>_.
    io_bind (seek W (SeekCurrent 0)) (\<lambda>end_pos.
    io_bind (io_lift (pos_diff E start 4)) (\<lambda>len_pos.
    io_bind (seek W (SeekStart len_pos)) (\<lambda>_.
    io_bind (io_lift (pos_diff E end_pos start)) (\<lambda>len.
    io_bind (encode_varint_4 E W (Value (of_nat len))) (\<lambda>_.
    io_bind (seek W (SeekStart end_pos)) (\<lambda>_.
      io_return ()))))))))))"

definition encode_tag_header ::
    "rt \<Rightarrow> ('t, write_error) writer \<Rightarrow> u64 \<Rightarrow> varint \<Rightarrow> ('t, write_error, unit) io" where
  "encode_tag_header E W tag len =
    io_bind (encode_varint E W (Value tag)) (\<lambda>_. encode_varint E W len)"

definition encode_bytes ::
    "rt \<Rightarrow> ('t, write_error) writer \<Rightarrow> u64 \<Rightarrow> bytes \<Rightarrow> ('t, write_error, unit) io" where
  "encode_bytes E W tag bytes =
    io_bind (encode_tag_header E W tag (Value (of_nat (length bytes)))) (\<lambda>_.
      write_all W bytes)"

definition encode_integer ::
    "rt \<Rightarrow> ('t, write_error) writer \<Rightarrow> u64 \<Rightarrow> u64 \<Rightarrow> ('t, write_error, unit) io" where
  "encode_integer E W tag value =
    io_bind (encode_tag_header E W tag (Value 8)) (\<lambda>_.
    io_bind (io_lift (buf_put (replicate 8 0) 0 (put_u64 E value))) (\<lambda>buffer.
      write_all W buffer))"

section \<open>The trait FromEbml\<close>

record ebml_layout =
  element_id :: u64
  body_offset :: nat
  element_len :: nat

text \<open>
  The two methods an implementor gives; \<open>check_space\<close> and \<open>decode_element\<close> are the
  trait's own. \<open>size as usize\<close> is the identity on the 64-bit targets modelled.
\<close>

record 'a from_ebml =
  should_unwrap :: "u64 \<Rightarrow> bool"
  decode :: "u64 \<Rightarrow> bytes \<Rightarrow> (ebml_error, 'a) outcome"

fun payload_size :: "bool \<Rightarrow> varint \<Rightarrow> (ebml_error, nat) outcome" where
  "payload_size True _ = Ok 0"
| "payload_size False Unknown = Err UnknownElementLength"
| "payload_size False (Value len) = Ok (unat len)"

definition check_space :: "'a from_ebml \<Rightarrow> bytes \<Rightarrow> (ebml_error, ebml_layout option) outcome" where
  "check_space F bytes =
    (case decode_tag bytes of
       Ok None \<Rightarrow> Ok None
     | Err err \<Rightarrow> Err err
     | Panic \<Rightarrow> Panic
     | Ok (Some (eid, payload_size_tag, offset)) \<Rightarrow>
         and_then (payload_size (should_unwrap F eid) payload_size_tag) (\<lambda>size.
           let len = offset + size
           in if len > length bytes then Ok None
              else Ok (Some \<lparr>element_id = eid, body_offset = offset, element_len = len\<rparr>)))"

definition decode_element :: "'a from_ebml \<Rightarrow> bytes \<Rightarrow> (ebml_error, ('a \<times> nat) option) outcome" where
  "decode_element F bytes =
    and_then (check_space F bytes) (\<lambda>layout.
      case layout of
        None \<Rightarrow> Ok None
      | Some info \<Rightarrow>
          and_then (slice bytes (body_offset info) (element_len info)) (\<lambda>body.
            case decode F (element_id info) body of
              Ok element \<Rightarrow> Ok (Some (element, element_len info))
            | Err error \<Rightarrow> Err error
            | Panic \<Rightarrow> Panic))"

end
