(* ===== verification/Ebml_Decode.thy ===== *)
theory Ebml_Decode
  imports Ebml
begin

text \<open>
  Facts about the decoding half of \<open>src/ebml.rs\<close>. The varint decoder is shown equal to an
  arithmetic specification (the low seven bits per byte of a big-endian number); from it
  follow that decoding never panics, that it only looks at the bytes it reports, and that
  more input never changes a decision already made.
\<close>

section \<open>The specification of a varint\<close>

text \<open>
  The length announced by the first byte: one more than the zero bits before its first
  one bit. A byte of zeros announces nothing.
\<close>

definition varint_length :: "u8 \<Rightarrow> nat option" where
  "varint_length b =
    (if 128 \<le> b then Some 1 else if 64 \<le> b then Some 2 else if 32 \<le> b then Some 3
     else if 16 \<le> b then Some 4 else if 8 \<le> b then Some 5 else if 4 \<le> b then Some 6
     else if 2 \<le> b then Some 7 else if 1 \<le> b then Some 8 else None)"

definition varint_spec :: "bytes \<Rightarrow> (ebml_error, (varint \<times> nat) option) outcome" where
  "varint_spec bs =
    (case bs of
       [] \<Rightarrow> Ok None
     | b # _ \<Rightarrow>
         (case varint_length b of
            None \<Rightarrow> Err CorruptVarint
          | Some n \<Rightarrow>
              if length bs < n then Ok None
              else let v = be_val (take n bs) mod 2 ^ (7 * n)
                   in Ok (Some (if v = 2 ^ (7 * n) - 1 then Unknown else Value (of_nat v), n))))"

lemma varint_length_Some:
  assumes "varint_length b = Some n"
  shows "1 \<le> n" "n \<le> 8" "2 ^ (8 - n) \<le> unat b" "unat b < 2 ^ (9 - n)"
  using assms unat_u8_less [of b]
  by (auto simp: varint_length_def word_le_nat_alt split: if_splits)

lemma varint_length_None: "varint_length b = None \<longleftrightarrow> b = 0"
  by (auto simp: varint_length_def word_le_nat_alt unat_eq_0 [symmetric])

section \<open>The marker loop\<close>

lemma unat_exp: "n < LENGTH('a) \<Longrightarrow> unat (2 ^ n :: 'a::len word) = 2 ^ n"
proof -
  assume "n < LENGTH('a)"
  then have "(2::nat) ^ n < 2 ^ LENGTH('a)" by simp
  moreover have "unat (of_nat (2 ^ n) :: 'a word) = 2 ^ n mod 2 ^ LENGTH('a)"
    by (rule unat_of_nat)
  ultimately show ?thesis by simp
qed

lemma bit_word_nat: "bit (w :: 'a::len word) n \<longleftrightarrow> odd (unat w div 2 ^ n)"
  using bit_unsigned_iff [of w n, where ?'a = nat] by (simp add: bit_iff_odd)

lemma bit_of_range:
  fixes b :: u8
  assumes "2 ^ i \<le> unat b" "unat b < 2 ^ Suc i"
  shows "bit b i" "j > i \<Longrightarrow> \<not> bit b j"
proof -
  have "unat b div 2 ^ i = 1"
    using assms by (intro div_nat_eqI) auto
  then show "bit b i"
    by (simp add: bit_word_nat)
next
  assume "j > i"
  then have "(2::nat) ^ Suc i \<le> 2 ^ j"
    by (intro power_increasing) auto
  with assms(2) have "unat b div 2 ^ j = 0" by simp
  then show "\<not> bit b j"
    by (simp add: bit_word_nat)
qed

lemma marker_loop_bit:
  assumes "k < 8"
  shows "marker_loop b v l (2 ^ k) u =
    (if bit b k then (ucast (b AND NOT (2 ^ k)), l, 2 ^ k, ucast (2 ^ k - 1 :: u8))
     else marker_loop b v (l + 1) (drop_bit 1 (2 ^ k)) u)"
proof -
  have "(2 ^ k :: u8) > 0"
    using assms by (simp add: word_less_nat_alt unat_exp)
  then show ?thesis
    by (subst marker_loop.simps) (simp add: and_exp_eq_0_iff_not_bit and.commute [of "2 ^ k"])
qed

lemma drop_bit_exp_u8: "Suc k < 8 \<Longrightarrow> drop_bit 1 (2 ^ Suc k :: u8) = 2 ^ k"
  by (rule word_unat_eq_iff [THEN iffD2])
    (simp add: drop_bit_eq_div unat_div unat_exp del: power_Suc, simp)

lemma marker_loop_hit:
  "bit b k \<Longrightarrow> k < 8 \<Longrightarrow> marker_loop b v l (2 ^ k) u =
     (ucast (b AND NOT (2 ^ k)), l, 2 ^ k, ucast (2 ^ k - 1 :: u8))"
  by (simp only: marker_loop_bit if_True)

lemma marker_loop_miss:
  "\<not> bit b (Suc k) \<Longrightarrow> Suc k < 8 \<Longrightarrow>
     marker_loop b v l (2 ^ Suc k) u = marker_loop b v (l + 1) (2 ^ k) u"
  by (simp only: marker_loop_bit drop_bit_exp_u8 if_False)

lemma marker_loop_found:
  assumes "bit b i" "\<And>j. i < j \<Longrightarrow> \<not> bit b j" "i \<le> k" "k < 8"
  shows "marker_loop b v l (2 ^ k) u =
    (ucast (b AND NOT (2 ^ i)), l + (k - i), 2 ^ i, ucast (2 ^ i - 1 :: u8))"
  using assms(3,4)
proof (induction k arbitrary: l)
  case 0
  with assms(1) show ?case by (simp add: marker_loop_hit [of b 0, simplified])
next
  case (Suc k)
  show ?case
  proof (cases "i = Suc k")
    case True
    with assms(1) Suc.prems show ?thesis by (simp add: marker_loop_hit del: power_Suc)
  next
    case False
    with Suc.prems have "i \<le> k" "i < Suc k" by auto
    then have "\<not> bit b (Suc k)"
      using assms(2) by blast
    then have "marker_loop b v l (2 ^ Suc k) u = marker_loop b v (l + 1) (2 ^ k) u"
      using Suc.prems(2) by (rule marker_loop_miss)
    also have "\<dots> = (ucast (b AND NOT (2 ^ i)), l + 1 + (k - i), 2 ^ i, ucast (2 ^ i - 1 :: u8))"
      using \<open>i \<le> k\<close> Suc.prems(2) by (intro Suc.IH) auto
    finally show ?thesis
      using \<open>i \<le> k\<close> by (simp del: power_Suc)
  qed
qed

lemma marker_loop_zero: "fst (snd (snd (marker_loop 0 v l m u))) = 0"
proof (induction "0::u8" v l m u rule: marker_loop.induct)
  case (1 v l m u)
  then show ?case
    by (subst marker_loop.simps) (auto simp: word_gt_0)
qed

lemma unat_ucast_u8_u64 [simp]: "unat (ucast (b :: u8) :: u64) = unat b"
proof -
  have "unat b < 2 ^ 64"
    by (rule less_le_trans [OF unat_u8_less]) simp
  then show ?thesis
    by (simp add: unsigned_ucast_eq take_bit_nat_eq_self)
qed

lemma clear_top_bit:
  fixes b :: u8
  assumes "bit b i" "\<And>j. i < j \<Longrightarrow> \<not> bit b j"
  shows "unat (ucast (b AND NOT (2 ^ i)) :: u64) = unat b mod 2 ^ i"
proof -
  have "b AND NOT (2 ^ i) = take_bit i b"
  proof (rule bit_eqI)
    fix n
    assume "possible_bit TYPE(8 word) n"
    then show "bit (b AND NOT (2 ^ i)) n \<longleftrightarrow> bit (take_bit i b) n"
      using assms by (cases n i rule: linorder_cases) (auto simp: bit_simps)
  qed
  then have "unat (b AND NOT (2 ^ i)) = take_bit i (unat b)"
    by (simp only: unsigned_take_bit_eq)
  then have "unat (b AND NOT (2 ^ i)) = unat b mod 2 ^ i"
    by (simp only: take_bit_eq_mod)
  then show ?thesis by simp
qed

section \<open>The tail loop\<close>

lemma unat_shift_in:
  assumes "(unat v + 1) * 256 \<le> 2 ^ 64"
  shows "unat (push_bit 8 v + ucast b :: u64) = 256 * unat v + unat (b :: u8)"
proof -
  have "push_bit 8 v = v * 256"
    by (simp add: push_bit_eq_mult)
  then have "unat (push_bit 8 v) = 256 * unat v"
    using assms by (simp add: unat_mult_lem [THEN iffD1])
  moreover have "unat v \<le> 72057594037927935"
    using assms by simp
  then have "256 * unat v + unat b < 18446744073709551616"
    using unat_u8_less [of b] by linarith
  ultimately show ?thesis
    by (simp add: unat_add_u64)
qed

lemma shift_bound:
  fixes m m' :: nat
  assumes "(m + 1) * 256 ^ Suc d \<le> B"
  shows "(m + 1) * 256 \<le> B" and "m' \<le> 256 * m + 255 \<Longrightarrow> (m' + 1) * 256 ^ d \<le> B"
proof -
  have "(m + 1) * 256 \<le> (m + 1) * 256 ^ Suc d"
    by (intro mult_left_mono) auto
  with assms show "(m + 1) * 256 \<le> B" by simp
next
  assume "m' \<le> 256 * m + 255"
  then have "(m' + 1) * 256 ^ d \<le> (256 * m + 256) * 256 ^ d"
    by (intro mult_right_mono) auto
  with assms show "(m' + 1) * 256 ^ d \<le> B" by (simp add: algebra_simps)
qed

lemma tail_loop_value:
  assumes "k + d \<le> length bs" "(unat v + 1) * 256 ^ d \<le> 2 ^ 64" "(unat u + 1) * 256 ^ d \<le> 2 ^ 64"
  shows "\<exists>v' u'. tail_loop bs [k..<k + d] v u = Ok (v', u') \<and>
    unat v' = unat v * 256 ^ d + be_val (take d (drop k bs)) \<and>
    unat u' = unat u * 256 ^ d + (256 ^ d - 1)"
  using assms
proof (induction d arbitrary: k v u)
  case 0
  then show ?case by simp
next
  case (Suc d)
  have k: "k < length bs" using Suc.prems(1) by simp
  define v1 u1 where "v1 = push_bit 8 v + (ucast (bs ! k) :: u64)" and "u1 = push_bit 8 u + (0xFF :: u64)"
  have v1: "unat v1 = 256 * unat v + unat (bs ! k)"
    unfolding v1_def using shift_bound(1) [OF Suc.prems(2)] by (rule unat_shift_in)
  have u1: "unat u1 = 256 * unat u + 255"
    unfolding u1_def using unat_shift_in [OF shift_bound(1) [OF Suc.prems(3)], where b = "0xFF"] by simp
  have "unat v1 \<le> 256 * unat v + 255"
    using v1 unat_u8_less [of "bs ! k"] by linarith
  note bounds = shift_bound(2) [OF Suc.prems(2) this] shift_bound(2) [OF Suc.prems(3), of "unat u1"]
  have "\<exists>v' u'. tail_loop bs [Suc k..<Suc k + d] v1 u1 = Ok (v', u') \<and>
    unat v' = unat v1 * 256 ^ d + be_val (take d (drop (Suc k) bs)) \<and>
    unat u' = unat u1 * 256 ^ d + (256 ^ d - 1)"
    using Suc.prems(1) u1 by (intro Suc.IH bounds) auto
  then obtain v' u' where rest: "tail_loop bs [Suc k..<Suc k + d] v1 u1 = Ok (v', u')"
    "unat v' = unat v1 * 256 ^ d + be_val (take d (drop (Suc k) bs))"
    "unat u' = unat u1 * 256 ^ d + (256 ^ d - 1)"
    by blast
  have "take (Suc d) (drop k bs) = bs ! k # take d (drop (Suc k) bs)"
    using k by (metis Cons_nth_drop_Suc take_Suc_Cons)
  moreover have "length (take d (drop (Suc k) bs)) = d"
    using Suc.prems(1) by simp
  ultimately have "unat v' = unat v * 256 ^ Suc d + be_val (take (Suc d) (drop k bs))"
    using rest(2) v1 by (simp only: be_val_Cons) (simp add: algebra_simps)
  moreover have "unat u' = unat u * 256 ^ Suc d + (256 ^ Suc d - 1)"
    using rest(3) u1 by (simp add: algebra_simps)
  moreover have "tail_loop bs [k..<k + Suc d] v u = Ok (v', u')"
    using k rest(1) by (simp add: upt_conv_Cons index_def v1_def u1_def del: upt_Suc)
  ultimately show ?case by blast
qed

section \<open>The decoder meets its specification\<close>

lemma varint_power: "1 \<le> n \<Longrightarrow> n \<le> 8 \<Longrightarrow> (2::nat) ^ (7 * n) = 2 ^ (8 - n) * 256 ^ (n - 1)"
proof -
  assume "1 \<le> n" "n \<le> 8"
  then have "7 * n = (8 - n) + 8 * (n - 1)" by simp
  then have "(2::nat) ^ (7 * n) = 2 ^ (8 - n) * 2 ^ (8 * (n - 1))"
    by (simp only: power_add)
  then show ?thesis by (simp add: power_mult)
qed

lemma be_val_mod_varint:
  assumes "1 \<le> n" "n \<le> 8" "n \<le> length (b # bs)"
  shows "be_val (take n (b # bs)) mod 2 ^ (7 * n) =
    unat b mod 2 ^ (8 - n) * 256 ^ (n - 1) + be_val (take (n - 1) bs)"
proof -
  obtain m where m: "n = Suc m" using assms(1) by (cases n) auto
  define r where "r = be_val (take m bs)"
  have len: "length (take m bs) = m" using assms(3) m by simp
  have r: "r < 256 ^ m"
    unfolding r_def using be_val_less [of "take m bs"] len by simp
  have "(2::nat) ^ (7 * n) = 256 ^ m * 2 ^ (8 - n)"
    using varint_power [OF assms(1,2)] m by simp
  then have "(256 ^ m * unat b + r) mod 2 ^ (7 * n) =
      256 ^ m * ((256 ^ m * unat b + r) div 256 ^ m mod 2 ^ (8 - n)) + (256 ^ m * unat b + r) mod 256 ^ m"
    by (simp only: mod_mult2_eq)
  also have "\<dots> = unat b mod 2 ^ (8 - n) * 256 ^ m + r"
    using r by simp
  finally show ?thesis
    using m len by (simp add: be_val_Cons r_def)
qed

lemma marker_loop_length:
  assumes "varint_length b = Some n"
  obtains v u where "marker_loop b 0 1 0x80 (NOT 0) = (v, n, 2 ^ (8 - n), u)"
    "unat v = unat b mod 2 ^ (8 - n)" "unat u = 2 ^ (8 - n) - 1"
proof -
  note n = varint_length_Some [OF assms]
  define i where "i = 8 - n"
  have "9 - n = Suc i" unfolding i_def using n by linarith
  with n have i: "2 ^ i \<le> unat b" "unat b < 2 ^ Suc i" "i < 8" "i \<le> 7"
    by (auto simp: i_def)
  note b = bit_of_range [OF i(1,2)]
  have "marker_loop b 0 1 0x80 (NOT 0) = (ucast (b AND NOT (2 ^ i)), n, 2 ^ i, ucast (2 ^ i - 1 :: u8))"
    using marker_loop_found [OF b, of 7 0 1 "NOT 0"] i(4) n(1,2) by (simp add: i_def)
  moreover have "unat (2 ^ i - 1 :: u8) = 2 ^ i - 1"
    using i(3) by (simp add: unat_minus_one unat_exp)
  ultimately show ?thesis
    using that clear_top_bit [OF b] by (simp add: i_def)
qed

lemma tail_loop_varint:
  assumes n: "1 \<le> n" "n \<le> 8" "n \<le> length (b # bs)"
    and v: "unat v = unat b mod 2 ^ (8 - n)" and u: "unat u = 2 ^ (8 - n) - 1"
  obtains v' u' where "tail_loop (b # bs) [1..<n] v u = Ok (v', u')"
    "unat v' = be_val (take n (b # bs)) mod 2 ^ (7 * n)" "unat u' = 2 ^ (7 * n) - 1"
proof -
  have "(2::nat) ^ (7 * n) \<le> 2 ^ 64"
    using n(2) by (intro power_increasing) auto
  then have le: "2 ^ (8 - n) * 256 ^ (n - 1) \<le> (2::nat) ^ 64"
    by (simp only: varint_power [OF n(1,2)])
  have bound: "(m + 1) * 256 ^ (n - 1) \<le> 2 ^ 64" if "m < 2 ^ (8 - n)" for m :: nat
  proof -
    have "(m + 1) * 256 ^ (n - 1) \<le> 2 ^ (8 - n) * 256 ^ (n - 1)"
      using that by (intro mult_right_mono) auto
    with le show ?thesis by linarith
  qed
  have "1 + (n - 1) \<le> length (b # bs)" using n by simp
  from tail_loop_value [OF this bound bound, of v u]
  obtain v' u' where t: "tail_loop (b # bs) [1..<n] v u = Ok (v', u')"
    "unat v' = unat v * 256 ^ (n - 1) + be_val (take (n - 1) bs)"
    "unat u' = unat u * 256 ^ (n - 1) + (256 ^ (n - 1) - 1)"
    using n(1) v u by auto
  have "unat u' = 2 ^ (8 - n) * 256 ^ (n - 1) - 1"
    using t(3) u by (simp add: algebra_simps)
  then have "unat u' = 2 ^ (7 * n) - 1"
    by (simp only: varint_power [OF n(1,2)])
  with t v show ?thesis
    using that be_val_mod_varint [OF n] by simp
qed

lemma decode_varint_spec: "decode_varint bs = varint_spec bs"
proof (cases bs)
  case Nil
  then show ?thesis by (simp add: decode_varint_def varint_spec_def)
next
  case (Cons b rest)
  show ?thesis
  proof (cases "varint_length b")
    case None
    then have "b = 0" by (simp add: varint_length_None)
    then show ?thesis
      using Cons None marker_loop_zero [of 0 1 128 "NOT 0"]
      by (auto simp: decode_varint_def varint_spec_def index_def split: prod.split)
  next
    case (Some n)
    note n = varint_length_Some [OF Some]
    have "8 - n < 8" using n by linarith
    then have msk: "(2 ^ (8 - n) :: u8) \<noteq> 0" by simp
    obtain v u where loop: "marker_loop b 0 1 0x80 (NOT 0) = (v, n, 2 ^ (8 - n), u)"
      and vu: "unat v = unat b mod 2 ^ (8 - n)" "unat u = 2 ^ (8 - n) - 1"
      using Some by (rule marker_loop_length)
    show ?thesis
    proof (cases "length bs < n")
      case True
      with Cons Some loop msk show ?thesis
        by (simp add: decode_varint_def varint_spec_def index_def)
    next
      case False
      with Cons have "n \<le> length (b # rest)" by simp
      from tail_loop_varint [OF n(1,2) this vu]
      obtain v' u' where tail: "tail_loop (b # rest) [1..<n] v u = Ok (v', u')"
        "unat v' = be_val (take n (b # rest)) mod 2 ^ (7 * n)" "unat u' = 2 ^ (7 * n) - 1"
        by blast
      have "v' = u' \<longleftrightarrow> unat v' = unat u'"
        by (rule word_unat_eq_iff)
      moreover have "v' = of_nat (unat v')"
        by simp
      ultimately show ?thesis
        using False Cons Some loop msk tail
        by (simp add: decode_varint_def varint_spec_def index_def Let_def)
    qed
  qed
qed

section \<open>Varints: bounds, totality and stability\<close>

lemma decode_varint_no_panic: "decode_varint bs \<noteq> Panic"
  by (auto simp: decode_varint_spec varint_spec_def Let_def split: list.splits option.splits)

lemma decode_varint_Nil [simp]: "decode_varint [] = Ok None"
  by (simp add: decode_varint_spec varint_spec_def)

lemma decode_varint_Some:
  assumes "decode_varint bs = Ok (Some (v, n))"
  shows "1 \<le> n" "n \<le> 8" "n \<le> length bs"
    and "v = Value w \<Longrightarrow> unat w < 2 ^ (7 * n) - 1"
proof -
  obtain b rest where bs: "bs = b # rest" and len: "varint_length b = Some n" "n \<le> length bs"
    and v: "v = (if be_val (take n bs) mod 2 ^ (7 * n) = 2 ^ (7 * n) - 1 then Unknown
                 else Value (of_nat (be_val (take n bs) mod 2 ^ (7 * n))))"
    using assms by (auto simp: decode_varint_spec varint_spec_def Let_def split: list.splits option.splits if_splits)
  show n: "1 \<le> n" "n \<le> 8" "n \<le> length bs"
    using varint_length_Some [OF len(1)] len(2) by auto
  assume w: "v = Value w"
  define m where "m = be_val (take n bs) mod 2 ^ (7 * n)"
  have m: "m < 2 ^ (7 * n)" by (simp add: m_def)
  also have "\<dots> \<le> 2 ^ 64" using n(2) by (intro power_increasing) auto
  finally have "unat (of_nat m :: u64) = m" by (simp add: unat_of_nat)
  moreover have "m \<noteq> 2 ^ (7 * n) - 1" "w = of_nat m"
    using v w by (auto simp: m_def split: if_splits)
  ultimately show "unat w < 2 ^ (7 * n) - 1" using m by simp
qed

lemma decode_varint_value_less:
  assumes "decode_varint bs = Ok (Some (Value w, n))"
  shows "unat w < 2 ^ 56 - 1"
proof -
  have "unat w < 2 ^ (7 * n) - 1" "n \<le> 8"
    using decode_varint_Some [OF assms] by auto
  moreover from this(2) have "(2::nat) ^ (7 * n) \<le> 2 ^ 56"
    by (intro power_increasing) auto
  ultimately show ?thesis by linarith
qed

text \<open>More input does not change a varint or an error already found.\<close>

lemma decode_varint_append:
  "decode_varint bs = Ok (Some r) \<Longrightarrow> decode_varint (bs @ ys) = Ok (Some r)"
  "decode_varint bs = Err e \<Longrightarrow> decode_varint (bs @ ys) = Err e"
proof -
  have take: "take n (b # rest @ ys) = take n (b # rest)" if "\<not> Suc (length rest) < n" for n b rest
    using that by (cases n) auto
  show "decode_varint bs = Ok (Some r) \<Longrightarrow> decode_varint (bs @ ys) = Ok (Some r)"
    by (cases bs) (auto simp: decode_varint_spec varint_spec_def Let_def take split: option.splits if_splits)
  show "decode_varint bs = Err e \<Longrightarrow> decode_varint (bs @ ys) = Err e"
    by (cases bs) (auto simp: decode_varint_spec varint_spec_def Let_def split: option.splits if_splits)
qed

lemma decode_varint_None: "decode_varint bs = Ok None \<Longrightarrow> length bs < 8"
  by (auto simp: decode_varint_spec varint_spec_def Let_def
      split: list.splits option.splits if_splits dest: varint_length_Some(2))

lemma decode_varint_Err: "decode_varint bs = Err e \<Longrightarrow> e = CorruptVarint"
  by (auto simp: decode_varint_spec varint_spec_def Let_def split: list.splits option.splits if_splits)

lemma decode_varint_take:
  assumes "decode_varint bs = Ok (Some (v, n))"
  shows "decode_varint (take n bs) = Ok (Some (v, n))"
proof -
  note decode_varint_Some(1,3) [OF assms]
  then show ?thesis
    using assms by (cases bs; cases n)
      (auto simp: decode_varint_spec varint_spec_def Let_def split: option.splits if_splits)
qed

section \<open>Element headers\<close>

lemma decode_tag_no_panic: "decode_tag bs \<noteq> Panic"
proof -
  have "slice_from bs n \<noteq> (Panic :: (ebml_error, bytes) outcome)"
    if "decode_varint bs = Ok (Some (v, n))" for v n
    using decode_varint_Some(3) [OF that] by (simp add: slice_from_def)
  then show ?thesis
    by (auto simp: decode_tag_def and_then_Panic_iff decode_varint_no_panic
        split: outcome.splits option.splits varint.splits)
qed

lemma decode_tag_Some_iff:
  "decode_tag bs = Ok (Some (eid, len, h)) \<longleftrightarrow>
    (\<exists>n m. decode_varint bs = Ok (Some (Value eid, n)) \<and>
           decode_varint (drop n bs) = Ok (Some (len, m)) \<and> h = n + m)"
  by (auto simp: decode_tag_def slice_from_def split: outcome.splits option.splits varint.splits
      dest: decode_varint_Some(3))

lemma decode_tag_Some:
  assumes "decode_tag bs = Ok (Some (eid, len, h))"
  shows "2 \<le> h" "h \<le> 16" "h \<le> length bs" "unat eid < 2 ^ 56 - 1"
    and "len = Value w \<Longrightarrow> unat w < 2 ^ 56 - 1"
proof -
  obtain n m where nm: "decode_varint bs = Ok (Some (Value eid, n))"
    "decode_varint (drop n bs) = Ok (Some (len, m))" "h = n + m"
    using assms by (auto simp: decode_tag_Some_iff)
  note n = decode_varint_Some(1-3) [OF nm(1)] and m = decode_varint_Some(1-3) [OF nm(2)]
  show "2 \<le> h" "h \<le> 16" "h \<le> length bs"
    using n m nm(3) by auto
  show "unat eid < 2 ^ 56 - 1" "len = Value w \<Longrightarrow> unat w < 2 ^ 56 - 1"
    using decode_varint_value_less nm by auto
qed

lemma decode_tag_append_Some:
  assumes "decode_tag bs = Ok (Some r)"
  shows "decode_tag (bs @ ys) = Ok (Some r)"
proof -
  obtain eid len h where r: "r = (eid, len, h)" by (cases r)
  then obtain n m where nm: "decode_varint bs = Ok (Some (Value eid, n))"
    "decode_varint (drop n bs) = Ok (Some (len, m))" "h = n + m"
    using assms by (auto simp: decode_tag_Some_iff)
  have "decode_varint (drop n (bs @ ys)) = Ok (Some (len, m))"
    using decode_varint_append(1) [OF nm(2)] decode_varint_Some(3) [OF nm(1)] by simp
  with nm decode_varint_append(1) [OF nm(1)] r show ?thesis
    by (auto simp: decode_tag_Some_iff)
qed

lemma decode_tag_append_Err:
  "decode_tag bs = Err e \<Longrightarrow> decode_tag (bs @ ys) = Err e"
  by (auto simp: decode_tag_def slice_from_def decode_varint_append split: outcome.splits option.splits varint.splits
      dest: decode_varint_append decode_varint_Some(3))

lemma decode_tag_unknown_id:
  "decode_tag bs = Err UnknownElementId \<longleftrightarrow> (\<exists>n. decode_varint bs = Ok (Some (Unknown, n)))"
  by (auto simp: decode_tag_def slice_from_def split: outcome.splits option.splits varint.splits
      dest: decode_varint_Err decode_varint_Some(3))

section \<open>Elements\<close>

lemma payload_size_no_panic [simp]: "payload_size w len \<noteq> Panic"
  by (cases "(w, len)" rule: payload_size.cases) auto

lemma check_space_no_panic: "check_space F bs \<noteq> Panic"
  by (auto simp: check_space_def decode_tag_no_panic and_then_Panic_iff Let_def
      split: outcome.splits option.splits)

lemma check_space_Some_iff:
  "check_space F bs = Ok (Some info) \<longleftrightarrow>
    (\<exists>len sz. decode_tag bs = Ok (Some (element_id info, len, body_offset info)) \<and>
       payload_size (should_unwrap F (element_id info)) len = Ok sz \<and>
       element_len info = body_offset info + sz \<and> element_len info \<le> length bs)"
  by (cases info)
    (fastforce simp: check_space_def and_then_Ok_iff Let_def not_less
      split: outcome.splits option.splits if_splits)

lemma payload_size_Ok:
  "payload_size w len = Ok sz \<Longrightarrow> (\<And>x. len = Value x \<Longrightarrow> unat x < B) \<Longrightarrow> 0 < B \<Longrightarrow> sz < B"
  by (cases "(w, len)" rule: payload_size.cases) auto

lemma check_space_Some:
  assumes "check_space F bs = Ok (Some info)"
  shows "2 \<le> body_offset info" "body_offset info \<le> 16" "body_offset info \<le> element_len info"
    "element_len info \<le> length bs" "element_len info < 2 ^ 57"
proof -
  obtain len sz where tag: "decode_tag bs = Ok (Some (element_id info, len, body_offset info))"
    and sz: "payload_size (should_unwrap F (element_id info)) len = Ok sz"
    and el: "element_len info = body_offset info + sz" "element_len info \<le> length bs"
    using assms by (auto simp: check_space_Some_iff)
  note t = decode_tag_Some [OF tag]
  show "2 \<le> body_offset info" "body_offset info \<le> 16" "body_offset info \<le> element_len info"
    "element_len info \<le> length bs"
    using t el by auto
  have "sz < 2 ^ 56 - 1"
    using sz t(5) by (rule payload_size_Ok) simp_all
  then show "element_len info < 2 ^ 57"
    using t(2) el(1) by simp
qed

text \<open>
  The size computation of \<open>check_space\<close> never leaves the range of a 64-bit \<open>usize\<close>,
  whatever the header says.
\<close>

lemma element_len_fits:
  assumes "decode_tag bs = Ok (Some (eid, len, h))" "payload_size w len = Ok sz"
  shows "h + sz < 2 ^ 57"
proof -
  have "sz < 2 ^ 56 - 1"
    using assms(2) decode_tag_Some(5) [OF assms(1)] by (rule payload_size_Ok) simp_all
  with decode_tag_Some(2) [OF assms(1)] show ?thesis by simp
qed

lemma check_space_append_Some:
  "check_space F bs = Ok (Some info) \<Longrightarrow> check_space F (bs @ ys) = Ok (Some info)"
  by (auto simp: check_space_Some_iff dest: decode_tag_append_Some)

lemma check_space_append_Err:
  assumes "check_space F bs = Err e"
  shows "check_space F (bs @ ys) = Err e"
proof (cases "decode_tag bs")
  case (Ok r)
  with assms obtain eid len h where tag: "decode_tag bs = Ok (Some (eid, len, h))"
    by (auto simp: check_space_def split: option.splits)
  note tag' = decode_tag_append_Some [OF tag, of ys]
  show ?thesis
    using assms tag tag'
    by (cases "payload_size (should_unwrap F eid) len")
      (auto simp: check_space_def Let_def split: if_splits)
next
  case (Err e')
  with assms show ?thesis by (simp add: check_space_def decode_tag_append_Err)
next
  case Panic
  then show ?thesis by (simp add: decode_tag_no_panic)
qed

lemma check_space_Nil [simp]: "check_space F [] = Ok None"
  by (simp add: check_space_def decode_tag_def)

lemma decode_element_eq:
  "decode_element F bs =
    (case check_space F bs of
       Ok (Some info) \<Rightarrow>
         and_then (decode F (element_id info)
             (take (element_len info - body_offset info) (drop (body_offset info) bs)))
           (\<lambda>el. Ok (Some (el, element_len info)))
     | Ok None \<Rightarrow> Ok None
     | Err e \<Rightarrow> Err e
     | Panic \<Rightarrow> Panic)"
  by (auto simp: decode_element_def slice_def split: outcome.splits option.splits
      dest: check_space_Some)

lemma decode_element_Some:
  assumes "decode_element F bs = Ok (Some (el, n))"
  shows "2 \<le> n" "n \<le> length bs"
proof -
  obtain info where "check_space F bs = Ok (Some info)" "n = element_len info"
    using assms by (auto simp: decode_element_eq and_then_Ok_iff split: outcome.splits option.splits)
  then show "2 \<le> n" "n \<le> length bs"
    using check_space_Some [of F bs info] by auto
qed

lemma decode_element_shorter:
  "decode_element F bs = Ok (Some (el, n)) \<Longrightarrow> length bs - n < length bs"
  using decode_element_Some [of F bs el n] by simp

lemma body_append:
  "check_space F bs = Ok (Some info) \<Longrightarrow>
    take (element_len info - body_offset info) (drop (body_offset info) (bs @ ys)) =
    take (element_len info - body_offset info) (drop (body_offset info) bs)"
  using check_space_Some(3,4) [of F bs info] by simp

lemma decode_element_append:
  assumes "decode_element F bs \<noteq> Ok None"
  shows "decode_element F (bs @ ys) = decode_element F bs"
proof (cases "check_space F bs")
  case (Ok r)
  with assms obtain info where "check_space F bs = Ok (Some info)"
    by (auto simp: decode_element_eq split: option.splits)
  then show ?thesis
    by (simp add: decode_element_eq check_space_append_Some body_append del: drop_append take_append)
qed (simp_all add: decode_element_eq check_space_append_Err check_space_no_panic)

text \<open>
  What the iterator and the streaming parser rely on in an implementor of \<open>FromEbml\<close>: its
  \<open>decode\<close> returns on every payload.
\<close>

locale total_decoder =
  fixes F :: "'a from_ebml"
  assumes decode_total: "decode F eid body \<noteq> Panic"
begin

lemma decode_element_no_panic: "decode_element F bs \<noteq> Panic"
  by (auto simp: decode_element_eq check_space_no_panic and_then_Panic_iff decode_total
      split: outcome.splits option.splits)

end

context big_endian
begin

lemma decode_uint_eq:
  "decode_uint E bs =
    (if 1 \<le> length bs \<and> length bs \<le> 8 then Ok (of_nat (be_val bs)) else Err CorruptPayload)"
  by (cases bs) (auto simp: decode_uint_def read_uint)

lemma decode_uint_value:
  assumes "decode_uint E bs = Ok v"
  shows "unat v = be_val bs"
proof -
  have "length bs \<le> 8" "v = of_nat (be_val bs)"
    using assms by (auto simp: decode_uint_eq split: if_splits)
  moreover have "be_val bs < 256 ^ length bs" by (rule be_val_less)
  moreover have "(256::nat) ^ length bs \<le> 256 ^ 8"
    using \<open>length bs \<le> 8\<close> by (intro power_increasing) auto
  ultimately show ?thesis by (simp add: unat_of_nat)
qed

end

end
