(* ===== verification/Ebml_Encode.thy ===== *)
theory Ebml_Encode
  imports Ebml_Decode
begin

text \<open>
  Facts about the encoding half of \<open>src/ebml.rs\<close>. Each writer is shown to emit exactly the
  bytes of an abstract encoding, over any seekable writer that keeps the contract
  \<open>byte_sink\<close>; the abstract encodings are then shown to be read back by the decoder.
\<close>

section \<open>Abstract encodings\<close>

text \<open>The fewest bytes whose payload holds the value and is not all ones.\<close>

definition varint_size :: "nat \<Rightarrow> nat" where
  "varint_size v =
    (if v < 2 ^ 7 - 1 then 1 else if v < 2 ^ 14 - 1 then 2 else if v < 2 ^ 21 - 1 then 3
     else if v < 2 ^ 28 - 1 then 4 else if v < 2 ^ 35 - 1 then 5 else if v < 2 ^ 42 - 1 then 6
     else if v < 2 ^ 49 - 1 then 7 else 8)"

text \<open>A varint of \<open>n\<close> bytes: the marker bit above \<open>7 * n\<close> payload bits, big-endian.\<close>

definition sized_varint :: "nat \<Rightarrow> nat \<Rightarrow> bytes" where
  "sized_varint n v = be_list n (2 ^ (7 * n) + v)"

fun varint_bytes :: "varint \<Rightarrow> bytes" where
  "varint_bytes Unknown = [0xFF]"
| "varint_bytes (Value w) = sized_varint (varint_size (unat w)) (unat w)"

fun varint_4_bytes :: "varint \<Rightarrow> bytes" where
  "varint_4_bytes Unknown = sized_varint 4 (2 ^ 28 - 1)"
| "varint_4_bytes (Value w) = sized_varint 4 (unat w)"

text \<open>The varints each writer accepts.\<close>

fun encodable :: "varint \<Rightarrow> bool" where
  "encodable Unknown = True"
| "encodable (Value w) = (w \<le> EIGHT_MAX)"

fun encodable_4 :: "varint \<Rightarrow> bool" where
  "encodable_4 Unknown = True"
| "encodable_4 (Value w) = (w \<le> FOUR_MAX)"

lemma EIGHT_MAX_eq: "EIGHT_MAX = 2 ^ 56 - 2"
  by (simp add: EIGHT_MAX_def EIGHT_FLAG_def push_bit_eq_mult)

lemma FOUR_MAX_eq: "FOUR_MAX = 2 ^ 28 - 2"
  by (simp add: FOUR_MAX_def FOUR_FLAG_def push_bit_eq_mult)

lemma le_EIGHT_MAX: "w \<le> EIGHT_MAX \<longleftrightarrow> unat w < 2 ^ 56 - 1"
  by (simp add: EIGHT_MAX_eq word_le_nat_alt, arith)

lemma le_FOUR_MAX: "w \<le> FOUR_MAX \<longleftrightarrow> unat w < 2 ^ 28 - 1"
  by (simp add: FOUR_MAX_eq word_le_nat_alt, arith)

lemma varint_size_bounds: "1 \<le> varint_size v" "varint_size v \<le> 8"
  by (auto simp: varint_size_def)

lemma varint_size_fits: "v < 2 ^ 56 - 1 \<Longrightarrow> v < 2 ^ (7 * varint_size v) - 1"
  by (simp add: varint_size_def)

lemma varint_size_least:
  assumes "m < varint_size v" "1 \<le> m"
  shows "2 ^ (7 * m) - 1 \<le> v"
proof -
  have "m \<in> {1, 2, 3, 4, 5, 6, 7}"
    using assms varint_size_bounds(2) [of v] by auto
  with assms(1) show ?thesis
    by (auto simp: varint_size_def split: if_splits)
qed

lemma length_sized_varint [simp]: "length (sized_varint n v) = n"
  by (simp add: sized_varint_def)

lemma length_varint_4_bytes [simp]: "length (varint_4_bytes v) = 4"
  by (cases v) auto

lemma length_varint_bytes: "length (varint_bytes v) \<le> 8"
  by (cases v) (auto simp: varint_size_bounds)

section \<open>Reading the abstract encodings back\<close>

lemma be_list_Suc_Cons: "be_list (Suc m) x = of_nat (x div 256 ^ m) # be_list m x"
proof (induction m arbitrary: x)
  case 0
  then show ?case by simp
next
  case (Suc m)
  have "be_list (Suc (Suc m)) x = be_list (Suc m) (x div 256) @ [of_nat x]"
    by (rule be_list.simps(2))
  also have "\<dots> = of_nat (x div 256 div 256 ^ m) # be_list m (x div 256) @ [of_nat x]"
    by (simp only: Suc.IH append_Cons)
  finally show ?case
    by (simp add: div_mult2_eq)
qed

lemma varint_length_range:
  assumes "1 \<le> n" "n \<le> 8" "2 ^ (8 - n) \<le> unat b" "unat b < 2 ^ (9 - n)"
  shows "varint_length b = Some n"
proof -
  have "n \<in> {1, 2, 3, 4, 5, 6, 7, 8}" using assms(1,2) by auto
  with assms(3,4) show ?thesis
    by (auto simp: varint_length_def word_le_nat_alt)
qed

text \<open>The first byte of a sized varint announces its size.\<close>

lemma sized_varint_Cons:
  assumes n: "1 \<le> n" "n \<le> 8" and v: "v < 2 ^ (7 * n)"
  obtains b rest where "sized_varint n v = b # rest" "varint_length b = Some n"
proof -
  obtain m where m: "n = Suc m" using n(1) by (cases n) auto
  define x where "x = 2 ^ (7 * n) + v"
  define b :: u8 where "b = of_nat (x div 256 ^ m)"
  have pow: "(2::nat) ^ (7 * n) = 2 ^ (8 - n) * 256 ^ m"
    using varint_power [OF n] m by simp
  have "9 - n = Suc (8 - n)" using n(2) by linarith
  then have "x < 2 ^ (9 - n) * 256 ^ m"
    using v by (simp add: x_def pow)
  then have hi: "x div 256 ^ m < 2 ^ (9 - n)"
    by (simp add: less_mult_imp_div_less)
  have lo: "2 ^ (8 - n) \<le> x div 256 ^ m"
    by (simp add: x_def pow div_add1_eq)
  have "(2::nat) ^ (9 - n) \<le> 2 ^ 8"
    using n(1) by (intro power_increasing) auto
  with hi have "unat b = x div 256 ^ m"
    by (simp add: b_def unat_of_nat)
  with lo hi have "varint_length b = Some n"
    by (intro varint_length_range n) auto
  moreover have "sized_varint n v = b # be_list m x"
    by (simp only: sized_varint_def m be_list_Suc_Cons b_def x_def)
  ultimately show ?thesis by (rule that [rotated])
qed

lemma be_val_sized_varint:
  assumes n: "1 \<le> n" "n \<le> 8" and v: "v < 2 ^ (7 * n)"
  shows "be_val (sized_varint n v) = 2 ^ (7 * n) + v"
proof -
  have "(2::nat) ^ (7 * n) + v < 2 * 2 ^ (7 * n)"
    using v by simp
  also have "\<dots> \<le> 2 ^ (8 * n)"
    using n(1) power_increasing [of "Suc (7 * n)" "8 * n" "2::nat"] by simp
  finally show ?thesis
    by (simp add: sized_varint_def power_mult)
qed

lemma decode_sized_varint:
  assumes n: "1 \<le> n" "n \<le> 8" and v: "v < 2 ^ (7 * n)"
  shows "decode_varint (sized_varint n v @ ys) =
    Ok (Some (if v = 2 ^ (7 * n) - 1 then Unknown else Value (of_nat v), n))"
proof -
  obtain b rest where cons: "sized_varint n v = b # rest" and len: "varint_length b = Some n"
    using assms by (rule sized_varint_Cons)
  have eq: "sized_varint n v @ ys = b # (rest @ ys)" by (simp add: cons)
  have "take n (b # rest @ ys) = sized_varint n v" "\<not> length (b # rest @ ys) < n"
    using length_sized_varint [of n v] by (simp_all flip: eq)
  moreover have "be_val (sized_varint n v) mod 2 ^ (7 * n) = v"
    using v by (simp add: be_val_sized_varint [OF assms])
  ultimately show ?thesis
    unfolding decode_varint_spec varint_spec_def eq by (simp add: len Let_def)
qed

lemma decode_varint_bytes:
  assumes "encodable v"
  shows "decode_varint (varint_bytes v @ ys) = Ok (Some (v, length (varint_bytes v)))"
proof (cases v)
  case (Value w)
  define n where "n = varint_size (unat w)"
  have "unat w < 2 ^ (7 * n) - 1"
    using assms Value unfolding n_def by (intro varint_size_fits) (simp add: le_EIGHT_MAX)
  then show ?thesis
    using decode_sized_varint [of n "unat w" ys] varint_size_bounds [of "unat w"] Value
    by (auto simp: n_def)
next
  case Unknown
  have "sized_varint 1 127 = [0xFF]"
    by (simp add: sized_varint_def)
  with Unknown show ?thesis
    using decode_sized_varint [of 1 127 ys] by simp
qed

lemma decode_varint_4_bytes:
  assumes "encodable_4 v"
  shows "decode_varint (varint_4_bytes v @ ys) = Ok (Some (v, 4))"
  using assms decode_sized_varint [of 4 _ ys] by (cases v) (auto simp: le_FOUR_MAX)

section \<open>The size loop and the number written\<close>

lemma push_bit_exp_u64: "push_bit 7 (2 ^ n :: u64) = 2 ^ (n + 7)"
  by (simp add: push_bit_eq_mult power_add)

lemma exp_minus_one_le:
  "n < 64 \<Longrightarrow> (2 ^ n - 1 :: u64) \<le> w \<longleftrightarrow> 2 ^ n - 1 \<le> unat w"
  by (simp add: word_le_nat_alt unat_minus_one unat_exp)

text \<open>From a flag of \<open>k\<close> bytes, the loop returns the flag of the least size that fits.\<close>

lemma size_loop_result:
  assumes "k \<le> n" "n \<le> 8" "unat w < 2 ^ (7 * n) - 1" "\<And>m. k \<le> m \<Longrightarrow> m < n \<Longrightarrow> 2 ^ (7 * m) - 1 \<le> unat w"
  shows "size_loop w (2 ^ (7 * k)) k = Some (2 ^ (7 * n), n)"
  using assms(1,4)
proof (induction k rule: inc_induct)
  case base
  have "\<not> (2 ^ (7 * n) - 1 :: u64) \<le> w"
    using assms(2,3) by (simp add: exp_minus_one_le)
  then show ?case by (simp add: size_loop.simps)
next
  case (step k)
  have "(2 ^ (7 * k) - 1 :: u64) \<le> w"
    using step.hyps step.prems assms(2) by (simp add: exp_minus_one_le)
  then have "size_loop w (2 ^ (7 * k)) k = size_loop w (2 ^ (7 * Suc k)) (Suc k)"
    by (subst size_loop.simps) (simp add: push_bit_exp_u64 add.commute)
  with step show ?case by simp
qed

lemma size_loop_varint_size:
  assumes "w \<le> EIGHT_MAX"
  shows "size_loop w SMALL_FLAG 1 =
    Some (2 ^ (7 * varint_size (unat w)), varint_size (unat w))"
proof -
  have "unat w < 2 ^ (7 * varint_size (unat w)) - 1"
    using assms by (intro varint_size_fits) (simp add: le_EIGHT_MAX)
  then have "size_loop w (2 ^ (7 * 1)) 1 =
      Some (2 ^ (7 * varint_size (unat w)), varint_size (unat w))"
    by (intro size_loop_result varint_size_bounds varint_size_least)
  moreover have "SMALL_FLAG = 2 ^ (7 * 1)" by (simp add: SMALL_FLAG_def)
  ultimately show ?thesis by (simp only:)
qed

lemma unat_flag_or:
  assumes "unat w < 2 ^ n" "n < 63"
  shows "unat (2 ^ n OR w :: u64) = 2 ^ n + unat w"
proof -
  have "\<not> bit w n"
    using assms(1) by (simp add: bit_word_nat)
  then have "2 ^ n AND w = 0"
    by (simp add: and_exp_eq_0_iff_not_bit and.commute [of "2 ^ n"])
  then have "2 ^ n OR w = 2 ^ n + w"
    by (simp add: disjunctive_add_eq_or)
  moreover have "(2::nat) ^ n + unat w < 2 ^ 64"
  proof -
    have "(2::nat) ^ n + unat w < 2 ^ Suc n" using assms(1) by simp
    also have "\<dots> \<le> 2 ^ 64" using assms(2) by (intro power_increasing) auto
    finally show ?thesis .
  qed
  ultimately show ?thesis
    using assms(2) by (simp add: unat_add_u64 unat_exp)
qed

lemma varint_number_Ok:
  assumes "encodable v"
  shows "\<exists>x. varint_number v = Ok (length (varint_bytes v), x) \<and>
    be_list (length (varint_bytes v)) (unat x) = varint_bytes v"
proof (cases v)
  case (Value w)
  define n where "n = varint_size (unat w)"
  have "unat w < 2 ^ (7 * n) - 1" "n \<le> 8"
    using assms Value unfolding n_def
    by (simp_all add: varint_size_fits varint_size_bounds le_EIGHT_MAX del: One_nat_def)
  then have "unat (2 ^ (7 * n) OR w) = 2 ^ (7 * n) + unat w"
    by (intro unat_flag_or) auto
  moreover have "varint_number v = Ok (n, 2 ^ (7 * n) OR w)"
    using assms Value by (simp add: size_loop_varint_size n_def not_less del: One_nat_def)
  ultimately show ?thesis
    using Value by (simp add: sized_varint_def n_def)
qed simp

lemma varint_number_Err: "\<not> encodable v \<Longrightarrow> varint_number v = Err out_of_range"
  by (cases v) auto

lemma varint_number_no_panic: "varint_number v \<noteq> Panic"
  using varint_number_Ok [of v] varint_number_Err [of v] by (cases "encodable v") auto

lemma varint_4_number_Ok:
  assumes "encodable_4 v"
  shows "\<exists>x. varint_4_number v = Ok x \<and> be_list 4 (unat (ucast x :: u32)) = varint_4_bytes v"
proof -
  have flag: "FOUR_FLAG = 2 ^ 28"
    by (simp add: FOUR_FLAG_def push_bit_eq_mult)
  have main: "be_list 4 (unat (ucast (2 ^ 28 OR w :: u64) :: u32)) = sized_varint 4 (unat w)"
    if "unat w < 2 ^ 28" for w
  proof -
    have "unat (2 ^ 28 OR w) = 2 ^ 28 + unat w"
      using that by (intro unat_flag_or) auto
    with that have "unat (ucast (2 ^ 28 OR w :: u64) :: u32) = 2 ^ 28 + unat w"
      by (simp add: unsigned_ucast_eq take_bit_nat_eq_self)
    then show ?thesis by (simp add: sized_varint_def)
  qed
  show ?thesis
  proof (cases v)
    case (Value w)
    with assms main [of w] show ?thesis
      by (auto simp: flag le_FOUR_MAX not_less)
  next
    case Unknown
    with main [of "2 ^ 28 - 1"] show ?thesis
      by (auto simp: flag)
  qed
qed

lemma varint_4_number_Err: "\<not> encodable_4 v \<Longrightarrow> varint_4_number v = Err out_of_range"
  by (cases v) auto

text \<open>From here on the encodings of varints are opaque to the simplifier.\<close>

lemma encodableI: "unat w < 2 ^ 56 - 1 \<Longrightarrow> encodable (Value w)"
  by (simp add: le_EIGHT_MAX)

lemma encodable_4I: "unat w < 2 ^ 28 - 1 \<Longrightarrow> encodable_4 (Value w)"
  by (simp add: le_FOUR_MAX)

declare varint_bytes.simps [simp del] varint_4_bytes.simps [simp del]
  encodable.simps [simp del] encodable_4.simps [simp del]

lemma encodable_Unknown [simp]: "encodable Unknown" "encodable_4 Unknown"
  by (simp_all add: encodable.simps encodable_4.simps)

section \<open>The writers emit the abstract encodings\<close>

definition tag_header_bytes :: "u64 \<Rightarrow> varint \<Rightarrow> bytes" where
  "tag_header_bytes tag len = varint_bytes (Value tag) @ varint_bytes len"

definition element_bytes :: "u64 \<Rightarrow> bytes \<Rightarrow> bytes" where
  "element_bytes tag body = tag_header_bytes tag (Value (of_nat (length body))) @ body"

text \<open>An element whose size field was reserved with four bytes and patched afterwards.\<close>

definition patched_element_bytes :: "u64 \<Rightarrow> bytes \<Rightarrow> bytes" where
  "patched_element_bytes tag body =
    varint_bytes (Value tag) @ varint_4_bytes (Value (of_nat (length body))) @ body"

lemma buf_put_fill: "length bs \<le> n \<Longrightarrow> buf_put (replicate n 0) 0 bs = Ok (bs @ replicate (n - length bs) 0)"
  by (simp add: buf_put_def overwrite_def)

lemma encode_varint_Err:
  "\<not> encodable v \<Longrightarrow> encode_varint E W v t = (t, Err out_of_range)"
  by (simp add: encode_varint_def io_bind_def varint_number_Err)

lemma encode_varint_4_Err:
  "\<not> encodable_4 v \<Longrightarrow> encode_varint_4 E W v t = (t, Err out_of_range)"
  by (simp add: encode_varint_4_def io_bind_def varint_4_number_Err)

context big_endian
begin

lemma encode_varint_eq:
  assumes "encodable v"
  shows "encode_varint E W v = write_all W (varint_bytes v)"
proof -
  obtain x where x: "varint_number v = Ok (length (varint_bytes v), x)"
    "be_list (length (varint_bytes v)) (unat x) = varint_bytes v"
    using varint_number_Ok [OF assms] by blast
  with length_varint_bytes [of v] show ?thesis
    by (simp add: encode_varint_def io_bind_def put_uint buf_put_fill slice_to_def fun_eq_iff)
qed

lemma encode_varint_4_eq:
  assumes "encodable_4 v"
  shows "encode_varint_4 E W v = write_all W (varint_4_bytes v)"
proof -
  obtain x where "varint_4_number v = Ok x" "be_list 4 (unat (ucast x :: u32)) = varint_4_bytes v"
    using varint_4_number_Ok [OF assms] by blast
  then show ?thesis
    by (simp add: encode_varint_4_def io_bind_def put_u32 buf_put_fill fun_eq_iff)
qed

end

text \<open>
  A writer that keeps the contract together with codecs that keep theirs: what every
  encoder of the program runs over.
\<close>

locale ebml_writer = big_endian E + byte_sink W contents pos room
  for E :: rt and W :: "('t, write_error) writer" and contents pos room
begin

lemma emits_encode_varint: "encodable v \<Longrightarrow> emits (encode_varint E W v) (varint_bytes v)"
  by (simp add: encode_varint_eq emits_write_all)

lemma emits_encode_varint_4: "encodable_4 v \<Longrightarrow> emits (encode_varint_4 E W v) (varint_4_bytes v)"
  by (simp add: encode_varint_4_eq emits_write_all)

lemma emits_encode_tag_header:
  "encodable (Value tag) \<Longrightarrow> encodable len \<Longrightarrow>
    emits (encode_tag_header E W tag len) (tag_header_bytes tag len)"
  unfolding encode_tag_header_def tag_header_bytes_def
  by (intro emits_bind emits_encode_varint)

lemma emits_encode_bytes:
  "encodable (Value tag) \<Longrightarrow> encodable (Value (of_nat (length body))) \<Longrightarrow>
    emits (encode_bytes E W tag body) (element_bytes tag body)"
  unfolding encode_bytes_def element_bytes_def
  by (intro emits_bind emits_encode_tag_header emits_write_all)

lemma emits_encode_integer:
  assumes "encodable (Value tag)"
  shows "emits (encode_integer E W tag value) (element_bytes tag (be_list 8 (unat value)))"
proof -
  have "io_bind (io_lift (buf_put (replicate 8 0) 0 (put_u64 E value))) (write_all W) =
      write_all W (be_list 8 (unat value))"
    by (simp add: io_bind_def fun_eq_iff buf_put_fill put_u64)
  moreover have "encodable (Value 8)"
    by (simp add: encodableI)
  ultimately show ?thesis
    using assms unfolding encode_integer_def element_bytes_def
    by (auto intro!: emits_bind emits_encode_tag_header emits_write_all)
qed

text \<open>
  The end of \<open>encode_element\<close>: go back over the body to the reserved size, write it, and
  return behind the body.
\<close>

lemma patch_size:
  assumes len: "unat l = length body" "encodable_4 (Value l)"
    and start: "p + 4 + length body = pos t" "pos t \<le> length (contents t)"
    and room: "room t (pos t)" and bound: "pos t < 2 ^ 64"
  obtains t' where
    "io_bind (seek W (SeekStart p)) (\<lambda>_. io_bind (encode_varint_4 E W (Value l)) (\<lambda>_.
       io_bind (seek W (SeekStart (pos t))) (\<lambda>_. io_return ()))) t = (t', Ok ())"
    "contents t' = overwrite (contents t) p (varint_4_bytes (Value l))"
    "pos t' = pos t" "room t' = room t"
proof -
  obtain t1 where t1: "seek W (SeekStart p) t = (t1, Ok p)" "contents t1 = contents t"
    "pos t1 = p" "room t1 = room t"
    using seek_ok [of p t] start bound by auto
  have "room t1 (pos t1 + length (varint_4_bytes (Value l)))"
    using room start(1) t1 by (auto intro: room_mono [of t "pos t"])
  then obtain t2 where t2: "encode_varint_4 E W (Value l) t1 = (t2, Ok ())"
    "contents t2 = overwrite (contents t1) (pos t1) (varint_4_bytes (Value l))"
    "pos t2 = pos t1 + length (varint_4_bytes (Value l))" "room t2 = room t1"
    by (rule emitsE [OF emits_encode_varint_4 [OF len(2)], rotated])
      (use start bound t1 in simp_all)
  have "pos t \<le> length (contents t2)"
    using t1 t2 start by simp
  then obtain t3 where t3: "seek W (SeekStart (pos t)) t2 = (t3, Ok (pos t))"
    "contents t3 = contents t2" "pos t3 = pos t" "room t3 = room t2"
    using seek_ok [of "pos t" t2] bound by auto
  show ?thesis
    using t1 t2 t3 by (intro that [of t3]) (simp_all add: io_bind_Ok io_return_def)
qed

lemma pos_diff_exact: "b \<le> a \<Longrightarrow> pos_diff E a b = Ok (a - b)"
  by (simp add: pos_diff_def)

lemma emits_encode_element:
  assumes tag: "encodable (Value tag)" and content: "emits content body"
    and len: "length body < 2 ^ 28 - 1"
  shows "emits (encode_element E W tag content) (patched_element_bytes tag body)"
  unfolding emits_def
proof (intro allI impI, elim conjE)
  fix t
  let ?h = "varint_bytes (Value tag)" and ?u = "varint_4_bytes Unknown"
  define l :: u64 where "l = of_nat (length body)"
  have l: "unat l = length body" "encodable_4 (Value l)"
    using len by (simp_all add: l_def unat_of_nat encodable_4I)
  assume t: "pos t \<le> length (contents t)" "room t (pos t + length (patched_element_bytes tag body))"
    "pos t + length (patched_element_bytes tag body) < 2 ^ 64"
  have fits: "room t (pos t + length ?h)" "room t (pos t + length ?h + 4)"
    "room t (pos t + length ?h + 4 + length body)" "pos t + length ?h + 4 + length body < 2 ^ 64"
    using t(2,3) by (auto simp: patched_element_bytes_def add.assoc intro: room_mono)
  obtain t1 where t1: "encode_varint E W (Value tag) t = (t1, Ok ())"
    "contents t1 = overwrite (contents t) (pos t) ?h" "pos t1 = pos t + length ?h" "room t1 = room t"
    by (rule emitsE [OF emits_encode_varint [OF tag] t(1) fits(1)]) (use fits(4) in simp_all)
  obtain t2 where t2: "encode_varint_4 E W Unknown t1 = (t2, Ok ())"
    "contents t2 = overwrite (contents t1) (pos t1) ?u" "pos t2 = pos t1 + length ?u" "room t2 = room t1"
    by (rule emitsE [OF emits_encode_varint_4 [of Unknown], of t1]) (use t(1) t1 fits in simp_all)
  obtain t3 where t3: "content t2 = (t3, Ok ())"
    "contents t3 = overwrite (contents t2) (pos t2) body" "pos t3 = pos t2 + length body"
    "room t3 = room t2"
    by (rule emitsE [OF content, of t2]) (use t(1) t1 t2 fits in simp_all)
  have pos3: "pos t1 + 4 + length body = pos t3" "pos t3 \<le> length (contents t3)"
    "room t3 (pos t3)" "pos t3 < 2 ^ 64"
    using t(1) t1 t2 t3 fits by simp_all
  obtain t4 where t4: "io_bind (seek W (SeekStart (pos t1))) (\<lambda>_. io_bind (encode_varint_4 E W (Value l)) (\<lambda>_.
      io_bind (seek W (SeekStart (pos t3))) (\<lambda>_. io_return ()))) t3 = (t4, Ok ())"
    "contents t4 = overwrite (contents t3) (pos t1) (varint_4_bytes (Value l))"
    "pos t4 = pos t3" "room t4 = room t3"
    using patch_size [OF l pos3] by blast
  have "contents t2 = overwrite (contents t) (pos t) (?h @ ?u)"
    unfolding t2(2) t1(2,3) by (rule overwrite_append [OF t(1)])
  then have "contents t3 = overwrite (contents t) (pos t) (?h @ ?u @ body)"
    using overwrite_append [OF t(1), of "?h @ ?u" body]
    by (simp only: t3(2) t2(3) t1(3) length_append add.assoc append_assoc)
  then have "contents t4 = overwrite (contents t) (pos t) (patched_element_bytes tag body)"
    unfolding t4(2) t1(3) patched_element_bytes_def l_def by (simp only:) (rule overwrite_inner [OF t(1)], simp)
  moreover have "encode_element E W tag content t = (t4, Ok ())"
  proof -
    have "seek W (SeekCurrent 0) t2 = (t2, Ok (pos t2))" "seek W (SeekCurrent 0) t3 = (t3, Ok (pos t3))"
      using pos3(4) t3(3) by (simp_all add: tell_ok)
    moreover have "pos t2 - 4 = pos t1" "pos t3 - pos t2 = length body" "4 \<le> pos t2" "pos t2 \<le> pos t3"
      using t2(3) t3(3) by simp_all
    ultimately show ?thesis
      using t1(1) t2(1) t3(1) t4(1)
      by (simp add: encode_element_def io_bind_Ok io_bind_lift pos_diff_exact l_def)
  qed
  ultimately show "\<exists>t'. encode_element E W tag content t = (t', Ok ()) \<and>
      contents t' = overwrite (contents t) (pos t) (patched_element_bytes tag body) \<and>
      pos t' = pos t + length (patched_element_bytes tag body) \<and> room t' = room t"
    using t1 t2 t3 t4 by (simp add: patched_element_bytes_def)
qed

end

section \<open>Reading written elements back\<close>

lemma decode_tag_header_bytes:
  assumes "encodable (Value tag)" "encodable len"
  shows "decode_tag (tag_header_bytes tag len @ ys) =
    Ok (Some (tag, len, length (tag_header_bytes tag len)))"
  using decode_varint_bytes [OF assms(1), of "varint_bytes len @ ys"] decode_varint_bytes [OF assms(2), of ys]
  by (auto simp: decode_tag_Some_iff tag_header_bytes_def)

lemma encodable_length: "length body < 2 ^ 56 - 1 \<Longrightarrow> encodable (Value (of_nat (length body)))"
  by (rule encodableI) (simp add: unat_of_nat)

lemma decode_element_bytes:
  assumes "encodable (Value tag)" "\<not> should_unwrap F tag" "length body < 2 ^ 56 - 1"
  shows "decode_element F (element_bytes tag body @ ys) =
    and_then (decode F tag body) (\<lambda>el. Ok (Some (el, length (element_bytes tag body))))"
proof -
  define len where "len = Value (of_nat (length body))"
  define h where "h = tag_header_bytes tag len"
  have "decode_tag (h @ body @ ys) = Ok (Some (tag, len, length h))"
    unfolding h_def using assms(1) encodable_length [OF assms(3)]
    by (intro decode_tag_header_bytes) (simp_all only: len_def)
  moreover have "unat (of_nat (length body) :: u64) = length body"
    using assms(3) by (simp add: unat_of_nat)
  ultimately have "check_space F (h @ body @ ys) =
      Ok (Some \<lparr>element_id = tag, body_offset = length h, element_len = length h + length body\<rparr>)"
    using assms(2) by (simp add: check_space_def len_def)
  then show ?thesis
    by (simp add: decode_element_eq element_bytes_def h_def len_def)
qed

lemma decode_patched_element_bytes:
  assumes "encodable (Value tag)" "\<not> should_unwrap F tag" "length body < 2 ^ 28 - 1"
  shows "decode_element F (patched_element_bytes tag body @ ys) =
    and_then (decode F tag body) (\<lambda>el. Ok (Some (el, length (patched_element_bytes tag body))))"
proof -
  define len where "len = Value (of_nat (length body))"
  define h where "h = varint_bytes (Value tag) @ varint_4_bytes len"
  have unat_len: "unat (of_nat (length body) :: u64) = length body"
    using assms(3) by (simp add: unat_of_nat)
  then have "encodable_4 len"
    using assms(3) by (simp add: len_def encodable_4I)
  then have "decode_tag (h @ body @ ys) = Ok (Some (tag, len, length h))"
    using decode_varint_bytes [OF assms(1), of "varint_4_bytes len @ body @ ys"]
      decode_varint_4_bytes [of len "body @ ys"]
    by (auto simp: decode_tag_Some_iff h_def)
  then have "check_space F (h @ body @ ys) =
      Ok (Some \<lparr>element_id = tag, body_offset = length h, element_len = length h + length body\<rparr>)"
    using assms(2) unat_len by (simp add: check_space_def len_def)
  then show ?thesis
    by (simp add: decode_element_eq patched_element_bytes_def h_def len_def add.assoc)
qed

lemma decode_unwrapped_header:
  assumes "encodable (Value tag)" "should_unwrap F tag" "encodable len"
  shows "decode_element F (tag_header_bytes tag len @ ys) =
    and_then (decode F tag []) (\<lambda>el. Ok (Some (el, length (tag_header_bytes tag len))))"
  using decode_tag_header_bytes [OF assms(1,3), of ys] assms(2)
  by (simp add: decode_element_eq check_space_def)

end
