(* ===== verification/Iterator.thy ===== *)
theory Iterator
  imports Ebml_Decode
begin

text \<open>
  The event iterator of \<open>src/iterator.rs\<close>: it decodes elements off the front of a complete
  buffer and stops at the first that is corrupt or incomplete.
\<close>

text \<open>
  One call of \<open>next\<close>: the remaining slice and the event. \<open>unwrap_or(None)\<close> drops the error of
  a failed decoding.
\<close>

definition ebml_next :: "'a from_ebml \<Rightarrow> bytes \<Rightarrow> (ebml_error, bytes \<times> 'a option) outcome" where
  "ebml_next F src =
    (case decode_element F src of
       Ok (Some (element, element_size)) \<Rightarrow>
         and_then (slice_from src element_size) (\<lambda>rest. Ok (rest, Some element))
     | Ok None \<Rightarrow> Ok (src, None)
     | Err _ \<Rightarrow> Ok (src, None)
     | Panic \<Rightarrow> Panic)"

lemma ebml_next_Some_iff:
  "ebml_next F src = Ok (rest, Some el) \<longleftrightarrow>
    (\<exists>n. decode_element F src = Ok (Some (el, n)) \<and> rest = drop n src)"
  by (auto simp: ebml_next_def slice_from_def split: outcome.splits option.splits
      dest: decode_element_Some)

lemma ebml_next_decreases:
  assumes "ebml_next F src = Ok (rest, Some el)"
  shows "length rest < length src"
proof -
  obtain n where "decode_element F src = Ok (Some (el, n))" "rest = drop n src"
    using assms by (auto simp: ebml_next_Some_iff)
  with decode_element_Some [of F src el n] show ?thesis by simp
qed

lemma ebml_next_None:
  "ebml_next F src = Ok (rest, None) \<longleftrightarrow>
    rest = src \<and> (decode_element F src = Ok None \<or> (\<exists>e. decode_element F src = Err e))"
  by (auto simp: ebml_next_def slice_from_def split: outcome.splits option.splits
      dest: decode_element_Some)

text \<open>All events of the iterator, as \<open>collect\<close> would gather them, and the unread rest.\<close>

function ebml_events :: "'a from_ebml \<Rightarrow> bytes \<Rightarrow> (ebml_error, 'a list \<times> bytes) outcome" where
  "ebml_events F src =
    (case ebml_next F src of
       Ok (rest, Some el) \<Rightarrow> and_then (ebml_events F rest) (\<lambda>(els, left). Ok (el # els, left))
     | Ok (rest, None) \<Rightarrow> Ok ([], rest)
     | Err e \<Rightarrow> Err e
     | Panic \<Rightarrow> Panic)"
  by pat_completeness auto
termination
  by (relation "measure (\<lambda>(F, src). length src)") (auto dest: ebml_next_decreases)

declare ebml_events.simps [simp del]

context total_decoder
begin

lemma ebml_next_Ok: "\<exists>r. ebml_next F src = Ok r"
  using decode_element_no_panic [of src]
  by (cases "decode_element F src")
    (auto simp: ebml_next_def slice_from_def split: option.split dest: decode_element_Some)

lemma ebml_events_Ok: "\<exists>els left. ebml_events F src = Ok (els, left)"
proof (induction "length src" arbitrary: src rule: less_induct)
  case less
  obtain rest r where nxt: "ebml_next F src = Ok (rest, r)"
    using ebml_next_Ok [of src] by auto
  show ?case
  proof (cases r)
    case None
    with nxt show ?thesis by (subst ebml_events.simps) simp
  next
    case (Some el)
    with nxt less [of rest] ebml_next_decreases [of F src rest el] show ?thesis
      by (subst ebml_events.simps) auto
  qed
qed

end

end
