(* ===== verification/Webm.thy ===== *)
theory Webm
  imports Ebml_Encode Iterator
begin

text \<open>
  The WebM events of \<open>src/webm.rs\<close>: the element type, its instance of \<open>FromEbml\<close>, and the
  writers. The second half shows what the writers emit and that the decoder reads it back.
\<close>

section \<open>Element ids and events\<close>

definition SEGMENT_ID :: u64 where "SEGMENT_ID = 0x08538067"
definition SEEK_HEAD_ID :: u64 where "SEEK_HEAD_ID = 0x014D9B74"
definition SEGMENT_INFO_ID :: u64 where "SEGMENT_INFO_ID = 0x0549A966"
definition CUES_ID :: u64 where "CUES_ID = 0x0C53BB6B"
definition TRACKS_ID :: u64 where "TRACKS_ID = 0x0654AE6B"
definition CLUSTER_ID :: u64 where "CLUSTER_ID = 0x0F43B675"
definition TIMECODE_ID :: u64 where "TIMECODE_ID = 0x67"
definition SIMPLE_BLOCK_ID :: u64 where "SIMPLE_BLOCK_ID = 0x23"

lemmas id_defs = EBML_HEAD_ID_def DOC_TYPE_ID_def VOID_ID_def SEGMENT_ID_def SEEK_HEAD_ID_def
  SEGMENT_INFO_ID_def CUES_ID_def TRACKS_ID_def CLUSTER_ID_def TIMECODE_ID_def SIMPLE_BLOCK_ID_def

record simple_block =
  track :: u64
  timecode :: i16
  flags :: u8
  data :: bytes

text \<open>\<open>UnknownElement\<close> is the source's \<open>WebmElement::Unknown\<close>.\<close>

datatype webm_element =
    EbmlHead
  | Void
  | Segment
  | SeekHead
  | Info
  | Cues
  | Tracks bytes
  | Cluster
  | Timecode u64
  | SimpleBlock simple_block
  | UnknownElement u64

section \<open>Decoding\<close>

definition webm_should_unwrap :: "u64 \<Rightarrow> bool" where
  "webm_should_unwrap eid =
    (if eid = SEGMENT_ID then True
     else if eid = CLUSTER_ID then True
     else False)"

definition decode_simple_block :: "rt \<Rightarrow> bytes \<Rightarrow> (ebml_error, webm_element) outcome" where
  "decode_simple_block E bytes =
    (case decode_varint bytes of
       Ok (Some (Value trk, track_field_len)) \<Rightarrow>
         let header_len = track_field_len + 2 + 1
         in if length bytes < header_len then Err CorruptPayload
            else
              and_then (slice_from bytes track_field_len) (\<lambda>tail.
              and_then (of_panic (read_i16 E tail)) (\<lambda>tc.
              and_then (index bytes (track_field_len + 2)) (\<lambda>fl.
              and_then (slice_from bytes header_len) (\<lambda>body.
                Ok (SimpleBlock \<lparr>track = trk, timecode = tc, flags = fl, data = body\<rparr>)))))
     | Panic \<Rightarrow> Panic
     | _ \<Rightarrow> Err CorruptPayload)"

definition webm_decode :: "rt \<Rightarrow> u64 \<Rightarrow> bytes \<Rightarrow> (ebml_error, webm_element) outcome" where
  "webm_decode E eid bytes =
    (if eid = EBML_HEAD_ID then Ok EbmlHead
     else if eid = VOID_ID then Ok Void
     else if eid = SEGMENT_ID then Ok Segment
     else if eid = SEEK_HEAD_ID then Ok SeekHead
     else if eid = SEGMENT_INFO_ID then Ok Info
     else if eid = CUES_ID then Ok Cues
     else if eid = TRACKS_ID then Ok (Tracks bytes)
     else if eid = CLUSTER_ID then Ok Cluster
     else if eid = TIMECODE_ID then and_then (decode_uint E bytes) (\<lambda>t. Ok (Timecode t))
     else if eid = SIMPLE_BLOCK_ID then decode_simple_block E bytes
     else Ok (UnknownElement eid))"

definition webm_from_ebml :: "rt \<Rightarrow> webm_element from_ebml" where
  "webm_from_ebml E = \<lparr>should_unwrap = webm_should_unwrap, decode = webm_decode E\<rparr>"

definition parse_webm :: "rt \<Rightarrow> bytes \<Rightarrow> (ebml_error, webm_element list \<times> bytes) outcome" where
  "parse_webm E source = ebml_events (webm_from_ebml E) source"

section \<open>Encoding\<close>

definition encode_simple_block ::
    "rt \<Rightarrow> ('t, write_error) writer \<Rightarrow> simple_block \<Rightarrow> ('t, write_error, unit) io" where
  "encode_simple_block E W block =
    (if track block > 31 then io_fail out_of_range
     else
       let header_len = 1 + 2 + 1 in
       io_bind (encode_tag_header E W SIMPLE_BLOCK_ID
         (Value (of_nat (header_len + length (data block))))) (\<lambda>_.
       io_bind (encode_varint E W (Value (track block))) (\<lambda>_.
       io_bind (io_lift (buf_put (replicate 3 0) 0 (put_i16 E (timecode block)))) (\<lambda>buffer.
       io_bind (io_lift (buf_put buffer 2 (put_u8 E (flags block)))) (\<lambda>buffer.
       io_bind (write_all W buffer) (\<lambda>_.
         write_all W (data block)))))))"

text \<open>The bytes of the string \<open>webm\<close>.\<close>

definition webm_doc_type :: bytes where
  "webm_doc_type = [0x77, 0x65, 0x62, 0x6D]"

fun encode_webm_element ::
    "rt \<Rightarrow> ('t, write_error) writer \<Rightarrow> webm_element \<Rightarrow> ('t, write_error, unit) io" where
  "encode_webm_element E W EbmlHead =
     encode_element E W EBML_HEAD_ID (encode_bytes E W DOC_TYPE_ID webm_doc_type)"
| "encode_webm_element E W Segment = encode_tag_header E W SEGMENT_ID Unknown"
| "encode_webm_element E W SeekHead = io_return ()"
| "encode_webm_element E W Cues = io_return ()"
| "encode_webm_element E W (Tracks body) = encode_bytes E W TRACKS_ID body"
| "encode_webm_element E W Cluster = encode_tag_header E W CLUSTER_ID Unknown"
| "encode_webm_element E W (Timecode time) = encode_integer E W TIMECODE_ID time"
| "encode_webm_element E W (SimpleBlock block) = encode_simple_block E W block"
| "encode_webm_element E W Void = io_fail out_of_range"
| "encode_webm_element E W Info = io_fail out_of_range"
| "encode_webm_element E W (UnknownElement _) = io_fail out_of_range"

section \<open>The decoder never panics\<close>

context big_endian
begin

lemma decode_simple_block_no_panic: "decode_simple_block E bs \<noteq> Panic"
proof (cases "decode_varint bs")
  case (Ok r)
  then show ?thesis
    using decode_varint_Some(3) [of bs]
    by (auto simp: decode_simple_block_def Let_def slice_from_def index_def read_i16
        split: option.splits varint.splits)
qed (simp_all add: decode_simple_block_def decode_varint_no_panic)

lemma webm_decode_no_panic: "webm_decode E eid body \<noteq> Panic"
  by (auto simp: webm_decode_def decode_simple_block_no_panic decode_uint_eq)

end

text \<open>So \<open>WebmElement\<close> is a decoder the iterator and the streaming parser can rely on.\<close>

sublocale big_endian \<subseteq> webm: total_decoder "webm_from_ebml E"
  by unfold_locales (simp add: webm_from_ebml_def webm_decode_no_panic)

section \<open>What the writers emit\<close>

definition block_bytes :: "simple_block \<Rightarrow> bytes" where
  "block_bytes b =
    varint_bytes (Value (track b)) @ be_list 2 (unat (timecode b)) @ [flags b] @ data b"

fun webm_bytes :: "webm_element \<Rightarrow> bytes" where
  "webm_bytes EbmlHead = patched_element_bytes EBML_HEAD_ID (element_bytes DOC_TYPE_ID webm_doc_type)"
| "webm_bytes Segment = tag_header_bytes SEGMENT_ID Unknown"
| "webm_bytes (Tracks body) = element_bytes TRACKS_ID body"
| "webm_bytes Cluster = tag_header_bytes CLUSTER_ID Unknown"
| "webm_bytes (Timecode t) = element_bytes TIMECODE_ID (be_list 8 (unat t))"
| "webm_bytes (SimpleBlock b) = element_bytes SIMPLE_BLOCK_ID (block_bytes b)"
| "webm_bytes _ = []"

text \<open>The elements whose encoding succeeds where there is room.\<close>

fun writable :: "webm_element \<Rightarrow> bool" where
  "writable (SimpleBlock b) \<longleftrightarrow> track b \<le> 31 \<and> length (data b) < 2 ^ 56 - 5"
| "writable (Tracks body) \<longleftrightarrow> length body < 2 ^ 56 - 1"
| "writable Void = False"
| "writable Info = False"
| "writable (UnknownElement _) = False"
| "writable _ = True"

lemma encodable_ids [simp]:
  "encodable (Value EBML_HEAD_ID)" "encodable (Value DOC_TYPE_ID)" "encodable (Value SEGMENT_ID)"
  "encodable (Value TRACKS_ID)" "encodable (Value CLUSTER_ID)" "encodable (Value TIMECODE_ID)"
  "encodable (Value SIMPLE_BLOCK_ID)"
  by (simp_all add: id_defs encodableI)

lemma encodable_track: "track b \<le> 31 \<Longrightarrow> encodable (Value (track b))"
  by (rule encodableI) (simp add: word_le_nat_alt)

lemma small_track_bytes:
  "track b \<le> 31 \<Longrightarrow> length (varint_bytes (Value (track b))) = 1"
  by (simp add: varint_bytes.simps varint_size_def word_le_nat_alt)

lemma length_block_bytes: "track b \<le> 31 \<Longrightarrow> length (block_bytes b) = 4 + length (data b)"
  using small_track_bytes [of b] by (simp add: block_bytes_def)

lemma doc_type_bytes: "element_bytes DOC_TYPE_ID webm_doc_type = [0x42, 0x82, 0x84, 0x77, 0x65, 0x62, 0x6D]"
  by (simp add: element_bytes_def tag_header_bytes_def varint_bytes.simps varint_size_def
      sized_varint_def webm_doc_type_def DOC_TYPE_ID_def eval_simps)

context ebml_writer
begin

lemma emits_encode_simple_block:
  assumes "track b \<le> 31" "length (data b) < 2 ^ 56 - 5"
  shows "emits (encode_simple_block E W b) (element_bytes SIMPLE_BLOCK_ID (block_bytes b))"
proof -
  have "put_i16 E (timecode b) = be_list 2 (unat (timecode b))" "put_u8 E (flags b) = [flags b]"
    by (rule put_i16, rule put_u8)
  then have head: "io_bind (io_lift (buf_put (replicate 3 0) 0 (put_i16 E (timecode b)))) (\<lambda>buffer.
      io_bind (io_lift (buf_put buffer 2 (put_u8 E (flags b)))) (\<lambda>buffer.
      io_bind (write_all W buffer) (\<lambda>_. write_all W (data b)))) =
      io_bind (write_all W (be_list 2 (unat (timecode b)) @ [flags b])) (\<lambda>_. write_all W (data b))"
    by (simp add: io_bind_lift buf_put_fill buf_put_def overwrite_def)
  have "encodable (Value (track b))"
    using assms(1) by (rule encodable_track)
  moreover have "encodable (Value (of_nat (4 + length (data b))))"
    using encodable_length [of "block_bytes b"] assms by (simp add: length_block_bytes)
  moreover have "encode_simple_block E W b =
      io_bind (encode_tag_header E W SIMPLE_BLOCK_ID (Value (of_nat (4 + length (data b))))) (\<lambda>_.
      io_bind (encode_varint E W (Value (track b))) (\<lambda>_.
      io_bind (write_all W (be_list 2 (unat (timecode b)) @ [flags b])) (\<lambda>_. write_all W (data b))))"
    using assms(1) by (simp add: encode_simple_block_def head leD)
  ultimately have "emits (encode_simple_block E W b)
     (tag_header_bytes SIMPLE_BLOCK_ID (Value (of_nat (4 + length (data b)))) @
      varint_bytes (Value (track b)) @ (be_list 2 (unat (timecode b)) @ [flags b]) @ data b)"
    by (simp only: emits_bind emits_encode_tag_header emits_encode_varint emits_write_all encodable_ids)
  then show ?thesis
    using assms(1) by (simp add: element_bytes_def length_block_bytes) (simp add: block_bytes_def)
qed

lemma emits_encode_webm_element:
  assumes "writable el"
  shows "emits (encode_webm_element E W el) (webm_bytes el)"
proof (cases el)
  case EbmlHead
  have "emits (encode_bytes E W DOC_TYPE_ID webm_doc_type) (element_bytes DOC_TYPE_ID webm_doc_type)"
    by (rule emits_encode_bytes) (simp_all add: encodable_length encodableI webm_doc_type_def)
  then show ?thesis
    using EbmlHead by (simp add: emits_encode_element doc_type_bytes)
next
  case (SimpleBlock b)
  with assms show ?thesis by (simp add: emits_encode_simple_block)
next
  case (Tracks body)
  with assms show ?thesis
    by (simp add: emits_encode_bytes encodable_length)
qed (use assms in \<open>auto intro!: emits_return emits_encode_tag_header emits_encode_integer\<close>)

end

text \<open>The elements that are refused whatever their size leave the writer as it was.\<close>

lemma encode_webm_element_refused:
  assumes "el \<in> {Void, Info, UnknownElement i} \<or> (el = SimpleBlock b \<and> 31 < track b)"
  shows "encode_webm_element E W el t = (t, Err out_of_range)"
  using assms by (auto simp: encode_simple_block_def io_fail_def)

section \<open>The contract holds for both cursors\<close>

sublocale big_endian \<subseteq> vec: ebml_writer E vec_writer get_ref position "\<lambda>_ _. True"
  by unfold_locales

sublocale big_endian \<subseteq> fixed: ebml_writer E slice_writer get_ref position "\<lambda>c n. n \<le> length (get_ref c)"
  by unfold_locales

section \<open>Reading written events back\<close>

context big_endian
begin

lemma decode_block_bytes:
  assumes "track b \<le> 31"
  shows "decode_simple_block E (block_bytes b) = Ok (SimpleBlock b)"
proof -
  have dec: "decode_varint (block_bytes b) = Ok (Some (Value (track b), 1))"
    using decode_varint_bytes [OF encodable_track [OF assms]] small_track_bytes [OF assms]
    by (simp add: block_bytes_def)
  obtain t0 where t0: "varint_bytes (Value (track b)) = [t0]"
    using small_track_bytes [OF assms] by (auto simp: length_Suc_conv)
  obtain i0 i1 where i: "be_list 2 (unat (timecode b)) = [i0, i1]"
    using length_be_list [of 2 "unat (timecode b)"] by (auto simp: length_Suc_conv numeral_2_eq_2)
  have "be_val [i0, i1] = unat (timecode b)"
    using unsigned_less [of "timecode b", where ?'a = nat] by (simp flip: i)
  then show ?thesis
    using dec t0 i
    by (simp add: decode_simple_block_def block_bytes_def slice_from_def index_def read_i16)
qed

lemma should_unwrap_webm [simp]: "should_unwrap (webm_from_ebml E) eid = webm_should_unwrap eid"
  by (simp add: webm_from_ebml_def)

lemma decode_webm [simp]: "decode (webm_from_ebml E) eid body = webm_decode E eid body"
  by (simp add: webm_from_ebml_def)

lemma unwrap_ids [simp]:
  "webm_should_unwrap SEGMENT_ID" "webm_should_unwrap CLUSTER_ID"
  "\<not> webm_should_unwrap EBML_HEAD_ID" "\<not> webm_should_unwrap TRACKS_ID"
  "\<not> webm_should_unwrap TIMECODE_ID" "\<not> webm_should_unwrap SIMPLE_BLOCK_ID"
  by (simp_all add: webm_should_unwrap_def id_defs)

lemma webm_decode_ids [simp]:
  "webm_decode E EBML_HEAD_ID body = Ok EbmlHead" "webm_decode E SEGMENT_ID body = Ok Segment"
  "webm_decode E TRACKS_ID body = Ok (Tracks body)" "webm_decode E CLUSTER_ID body = Ok Cluster"
  "webm_decode E TIMECODE_ID body = and_then (decode_uint E body) (\<lambda>t. Ok (Timecode t))"
  "webm_decode E SIMPLE_BLOCK_ID body = decode_simple_block E body"
  by (simp_all add: webm_decode_def id_defs)

lemma decode_webm_bytes:
  assumes "writable el" "webm_bytes el \<noteq> []"
  shows "decode_element (webm_from_ebml E) (webm_bytes el @ ys) = Ok (Some (el, length (webm_bytes el)))"
proof (cases el)
  case EbmlHead
  then show ?thesis
    by (simp add: decode_patched_element_bytes doc_type_bytes)
next
  case (Timecode t)
  have "of_nat (unat t mod 256 ^ 8) = t"
    using unsigned_less [of t, where ?'a = nat] by simp
  with Timecode show ?thesis
    by (simp add: decode_element_bytes decode_uint_eq)
next
  case (SimpleBlock b)
  with assms show ?thesis
    by (simp add: decode_element_bytes length_block_bytes decode_block_bytes)
qed (use assms in \<open>simp_all add: decode_element_bytes decode_unwrapped_header\<close>)

end

end
