(* ===== verification/Errors.thy ===== *)
theory Errors
  imports Ebml
begin

text \<open>
  The error type of \<open>src/error.rs\<close>. The error types of the crates \<open>http\<close>, \<open>hyper\<close> and
  \<open>warp\<close> are opaque to the program, so one type parameter stands for them.
\<close>

datatype 'x webmetro_error =
    ResourcesExceeded
  | EbmlError ebml_error
  | HttpError 'x
  | HyperError 'x
  | IoError "write_error io_error"
  | WarpError 'x
  | ApplicationError string

text \<open>\<open>From<&str>\<close>.\<close>

definition error_from_str :: "string \<Rightarrow> 'x webmetro_error" where
  "error_from_str message = ApplicationError message"

end
