(* ===== verification/Stream_Parser.thy ===== *)
theory Stream_Parser
  imports Errors Iterator
begin

text \<open>
  The streaming parser of \<open>src/stream_parser.rs\<close>: it pulls pieces of input from a stream
  into a buffer and hands out events as soon as the buffer holds a complete element.
\<close>

section \<open>Polling\<close>

datatype 'a poll = Pending | Ready 'a

text \<open>
  The byte stream below the parser is the script of what polling it will return: data, an
  error or \<open>Pending\<close>, and \<open>Ready(None)\<close> once the script is used up. Any finite run of a
  stream is such a script.
\<close>

datatype 'e source_event = SourceData bytes | SourceErr 'e | SourcePending

type_synonym 'e source = "'e source_event list"

fun poll_source :: "'e source \<Rightarrow> ('e, bytes) outcome option poll \<times> 'e source" where
  "poll_source [] = (Ready None, [])"
| "poll_source (SourceData d # s) = (Ready (Some (Ok d)), s)"
| "poll_source (SourceErr e # s) = (Ready (Some (Err e)), s)"
| "poll_source (SourcePending # s) = (Pending, s)"

text \<open>\<open>stream.try_next().await\<close>: poll until the stream is ready.\<close>

fun await_source :: "'e source \<Rightarrow> ('e, bytes option) outcome \<times> 'e source" where
  "await_source [] = (Ok None, [])"
| "await_source (SourceData d # s) = (Ok (Some d), s)"
| "await_source (SourceErr e # s) = (Err e, s)"
| "await_source (SourcePending # s) = await_source s"

lemma poll_source_shorter:
  "poll_source s = (r, s') \<Longrightarrow> s' = [] \<and> s = [] \<and> r = Ready None \<or> length s' < length s"
  by (cases s rule: poll_source.cases) auto

lemma await_source_shorter: "await_source s = (Ok (Some d), s') \<Longrightarrow> length s' < length s"
  by (induction s rule: await_source.induct) auto

section \<open>The parser\<close>

text \<open>\<open>BytesMut\<close> and \<open>Bytes\<close> are byte sequences; taking more than they hold panics.\<close>

definition split_to :: "bytes \<Rightarrow> nat \<Rightarrow> ('e, bytes \<times> bytes) outcome" where
  "split_to bs at = (if at \<le> length bs then Ok (take at bs, drop at bs) else Panic)"

definition advance :: "bytes \<Rightarrow> nat \<Rightarrow> ('e, bytes) outcome" where
  "advance bs n = (if n \<le> length bs then Ok (drop n bs) else Panic)"

record 'e parser =
  stream :: "'e source"
  buffer :: bytes
  buffer_size_limit :: "nat option"
  borrowed :: bytes

definition parse_ebml :: "'e source \<Rightarrow> 'e parser" where
  "parse_ebml s = \<lparr>stream = s, buffer = [], buffer_size_limit = None, borrowed = []\<rparr>"

definition with_soft_limit :: "'e parser \<Rightarrow> nat \<Rightarrow> 'e parser" where
  "with_soft_limit p limit = p\<lparr>buffer_size_limit := Some limit\<rparr>"

definition limit_reached :: "'e parser \<Rightarrow> bool" where
  "limit_reached p =
    (case buffer_size_limit p of None \<Rightarrow> False | Some limit \<Rightarrow> limit \<le> length (buffer p))"

lemma limit_reached_stream [simp]: "limit_reached (p\<lparr>stream := s\<rparr>) = limit_reached p"
  by (auto simp: limit_reached_def split: option.split)

text \<open>
  The branch for a complete element: split it off the buffer, keep its body in \<open>borrowed\<close>,
  and decode it there.
\<close>

definition take_element ::
    "'a from_ebml \<Rightarrow> 'e parser \<Rightarrow> ebml_layout \<Rightarrow> 'e parser \<times> ('x webmetro_error, 'a) outcome" where
  "take_element F p info =
    (case split_to (buffer p) (element_len info) of
       Ok (bytes, rest) \<Rightarrow>
         let p = p\<lparr>buffer := rest\<rparr> in
         (case advance bytes (body_offset info) of
            Ok body \<Rightarrow>
              (p\<lparr>borrowed := body\<rparr>, map_err EbmlError (decode F (element_id info) body))
          | Err e \<Rightarrow> (p, Err e)
          | Panic \<Rightarrow> (p, Panic))
     | Err e \<Rightarrow> (p, Err e)
     | Panic \<Rightarrow> (p, Panic))"

text \<open>
  \<open>cv\<close> is the conversion \<open>WebmetroError::from\<close> of the stream's errors that the \<open>?\<close> applies.
\<close>

function poll_event ::
    "'a from_ebml \<Rightarrow> ('e \<Rightarrow> 'x webmetro_error) \<Rightarrow> 'e parser \<Rightarrow>
     'e parser \<times> ('x webmetro_error, 'a) outcome option poll" where
  "poll_event F cv p =
    (case check_space F (buffer p) of
       Err e \<Rightarrow> (p, Ready (Some (Err (EbmlError e))))
     | Panic \<Rightarrow> (p, Ready (Some Panic))
     | Ok (Some info) \<Rightarrow> (case take_element F p info of (p', r) \<Rightarrow> (p', Ready (Some r)))
     | Ok None \<Rightarrow>
         if limit_reached p then (p, Ready (Some (Err ResourcesExceeded)))
         else
           (case poll_source (stream p) of
              (Ready (Some (Ok buf)), s) \<Rightarrow>
                poll_event F cv (p\<lparr>stream := s, buffer := buffer p @ buf\<rparr>)
            | (Ready (Some (Err e)), s) \<Rightarrow> (p\<lparr>stream := s\<rparr>, Ready (Some (Err (cv e))))
            | (Ready (Some Panic), s) \<Rightarrow> (p\<lparr>stream := s\<rparr>, Ready (Some Panic))
            | (Ready None, s) \<Rightarrow> (p\<lparr>stream := s\<rparr>, Ready None)
            | (Pending, s) \<Rightarrow> (p\<lparr>stream := s\<rparr>, Pending)))"
  by pat_completeness auto
termination
  by (relation "measure (\<lambda>(F, cv, p). length (stream p))") (auto dest: poll_source_shorter [OF sym])

declare poll_event.simps [simp del]

text \<open>The asynchronous \<open>next\<close>, the same loop over \<open>try_next().await\<close>.\<close>

function next_event ::
    "'a from_ebml \<Rightarrow> ('e \<Rightarrow> 'x webmetro_error) \<Rightarrow> 'e parser \<Rightarrow>
     'e parser \<times> ('x webmetro_error, 'a option) outcome" where
  "next_event F cv p =
    (case check_space F (buffer p) of
       Err e \<Rightarrow> (p, Err (EbmlError e))
     | Panic \<Rightarrow> (p, Panic)
     | Ok (Some info) \<Rightarrow>
         (case take_element F p info of (p', r) \<Rightarrow> (p', and_then r (\<lambda>el. Ok (Some el))))
     | Ok None \<Rightarrow>
         if limit_reached p then (p, Err ResourcesExceeded)
         else
           (case await_source (stream p) of
              (Ok (Some refill), s) \<Rightarrow>
                next_event F cv (p\<lparr>stream := s, buffer := buffer p @ refill\<rparr>)
            | (Ok None, s) \<Rightarrow> (p\<lparr>stream := s\<rparr>, Ok None)
            | (Err e, s) \<Rightarrow> (p\<lparr>stream := s\<rparr>, Err (cv e))
            | (Panic, s) \<Rightarrow> (p\<lparr>stream := s\<rparr>, Panic)))"
  by pat_completeness auto
termination
  by (relation "measure (\<lambda>(F, cv, p). length (stream p))") (auto dest: await_source_shorter [OF sym])

declare next_event.simps [simp del]

section \<open>What one event says about the input\<close>

text \<open>
  The input still to be parsed: the buffer and all data the script will deliver. The
  parser's behaviour is stated over it, so that the split into pieces disappears.
\<close>

fun source_bytes :: "'e source \<Rightarrow> bytes" where
  "source_bytes [] = []"
| "source_bytes (SourceData d # s) = d @ source_bytes s"
| "source_bytes (_ # s) = source_bytes s"

definition input :: "'e parser \<Rightarrow> bytes" where
  "input p = buffer p @ source_bytes (stream p)"

lemma poll_source_cases:
  obtains (data) d s' where "s = SourceData d # s'" "poll_source s = (Ready (Some (Ok d)), s')"
      "source_bytes s = d @ source_bytes s'"
  | (err) e s' where "s = SourceErr e # s'" "poll_source s = (Ready (Some (Err e)), s')"
      "source_bytes s = source_bytes s'"
  | (pending) s' where "s = SourcePending # s'" "poll_source s = (Pending, s')"
      "source_bytes s = source_bytes s'"
  | (ended) "s = []" "poll_source s = (Ready None, [])" "source_bytes s = []"
  by (cases s rule: poll_source.cases) auto

lemma take_element_eq:
  assumes "check_space F (buffer p) = Ok (Some info)"
  shows "take_element F p info =
    (p\<lparr>buffer := drop (element_len info) (buffer p),
       borrowed := take (element_len info - body_offset info) (drop (body_offset info) (buffer p))\<rparr>,
     map_err EbmlError (decode F (element_id info)
       (take (element_len info - body_offset info) (drop (body_offset info) (buffer p)))))"
  using check_space_Some [OF assms]
  by (simp add: take_element_def split_to_def advance_def Let_def drop_take)

text \<open>The element decoded from the buffer is the one at the front of the whole input.\<close>

lemma decode_element_input:
  assumes "check_space F (buffer p) = Ok (Some info)"
  shows "decode_element F (input p) =
    and_then (decode F (element_id info)
        (take (element_len info - body_offset info) (drop (body_offset info) (buffer p))))
      (\<lambda>el. Ok (Some (el, element_len info)))"
  using decode_element_append [of F "buffer p"]
  by (simp add: input_def decode_element_eq assms check_space_append_Some [OF assms]
      body_append [OF assms] del: drop_append take_append)

text \<open>The facts about the input that one result of the parser carries.\<close>

definition event_sound ::
    "'a from_ebml \<Rightarrow> ('e \<Rightarrow> 'x webmetro_error) \<Rightarrow> 'e parser \<Rightarrow> 'e parser \<Rightarrow>
     ('x webmetro_error, 'a) outcome option poll \<Rightarrow> bool" where
  "event_sound F cv p p' r \<longleftrightarrow>
    (case r of
       Pending \<Rightarrow> input p' = input p \<and> length (stream p') < length (stream p)
     | Ready None \<Rightarrow> stream p' = [] \<and> input p' = input p \<and> decode_element F (input p) = Ok None
     | Ready (Some (Ok el)) \<Rightarrow>
         (\<exists>n. decode_element F (input p) = Ok (Some (el, n)) \<and> input p' = drop n (input p))
     | Ready (Some (Err e)) \<Rightarrow>
         (\<exists>l. buffer_size_limit p = Some l \<and> l \<le> length (buffer p') \<and> e = ResourcesExceeded) \<or>
         (\<exists>e'. e = EbmlError e' \<and> decode_element F (input p) = Err e') \<or>
         (\<exists>e'. SourceErr e' \<in> set (stream p) \<and> e = cv e')
     | Ready (Some Panic) \<Rightarrow> decode_element F (input p) = Panic)"

lemma event_sound_element:
  assumes "check_space F (buffer p) = Ok (Some info)" "take_element F p info = (p', r)"
  shows "event_sound F cv p p' (Ready (Some r))"
proof -
  have "input p' = drop (element_len info) (input p)"
    using check_space_Some(4) [OF assms(1)] assms(2) by (auto simp: input_def take_element_eq [OF assms(1)])
  then show ?thesis
    using assms(2)
    by (cases "decode F (element_id info)
        (take (element_len info - body_offset info) (drop (body_offset info) (buffer p)))")
      (auto simp: event_sound_def decode_element_input [OF assms(1)] take_element_eq [OF assms(1)])
qed

lemma event_sound_refill:
  assumes "stream p = SourceData d # s" "event_sound F cv (p\<lparr>stream := s, buffer := buffer p @ d\<rparr>) p' r"
  shows "event_sound F cv p p' r"
proof -
  have "input (p\<lparr>stream := s, buffer := buffer p @ d\<rparr>) = input p"
    using assms(1) by (simp add: input_def)
  with assms show ?thesis
    by (auto simp: event_sound_def split: poll.splits option.splits outcome.splits)
qed

lemma poll_event_sound: "poll_event F cv p = (p', r) \<Longrightarrow> event_sound F cv p p' r"
proof (induction F cv p arbitrary: p' r rule: poll_event.induct)
  case (1 F cv p)
  show ?case
  proof (cases "check_space F (buffer p)")
    case (Err e)
    with "1.prems" check_space_append_Err [OF Err] show ?thesis
      by (auto simp: poll_event.simps [of F cv p] event_sound_def decode_element_eq input_def)
  next
    case Panic
    then show ?thesis by (simp add: check_space_no_panic)
  next
    case (Ok x)
    show ?thesis
    proof (cases x)
      case (Some info)
      with Ok "1.prems" obtain x2 where "take_element F p info = (p', x2)" "r = Ready (Some x2)"
        by (auto simp: poll_event.simps [of F cv p] split: prod.splits)
      with Ok Some show ?thesis by (simp add: event_sound_element)
    next
      case None
      show ?thesis
      proof (cases "limit_reached p")
        case True
        with Ok None "1.prems" show ?thesis
          by (auto simp: poll_event.simps [of F cv p] event_sound_def limit_reached_def split: option.splits)
      next
        case False
        show ?thesis
        proof (cases "stream p" rule: poll_source_cases)
          case (data d s')
          with Ok None False "1.prems" have "poll_event F cv (p\<lparr>stream := s', buffer := buffer p @ d\<rparr>) = (p', r)"
            by (simp add: poll_event.simps [of F cv p])
          with Ok None False data have "event_sound F cv (p\<lparr>stream := s', buffer := buffer p @ d\<rparr>) p' r"
            using "1.IH" by simp
          with data(1) show ?thesis by (rule event_sound_refill)
        qed (use Ok None False "1.prems" in \<open>auto simp: poll_event.simps [of F cv p] event_sound_def
            decode_element_eq input_def\<close>)
      qed
    qed
  qed
qed

text \<open>Polling keeps the limit and only consumes the script.\<close>

lemma poll_event_frame:
  "poll_event F cv p = (p', r) \<Longrightarrow>
    buffer_size_limit p' = buffer_size_limit p \<and> set (stream p') \<subseteq> set (stream p)"
proof (induction F cv p arbitrary: p' r rule: poll_event.induct)
  case (1 F cv p)
  show ?case
  proof (cases "check_space F (buffer p) = Ok None \<and> \<not> limit_reached p")
    case False
    with "1.prems" show ?thesis
      by (subst (asm) poll_event.simps)
        (auto simp: take_element_eq split: outcome.splits option.splits if_splits prod.splits)
  next
    case True
    show ?thesis
    proof (cases "stream p" rule: poll_source_cases)
      case (data d s')
      with True "1.prems" have "poll_event F cv (p\<lparr>stream := s', buffer := buffer p @ d\<rparr>) = (p', r)"
        by (simp add: poll_event.simps [of F cv p])
      with "1.IH" True data show ?thesis by fastforce
    qed (use True "1.prems" in \<open>auto simp: poll_event.simps [of F cv p]\<close>)
  qed
qed

text \<open>
  The soft limit: a piece is only added to a buffer below the limit, so the buffer never
  grows past the limit by more than one piece.
\<close>

lemma poll_event_memory:
  assumes "poll_event F cv p = (p', r)" "buffer_size_limit p = Some l"
    "\<And>d. SourceData d \<in> set (stream p) \<Longrightarrow> length d \<le> m"
  shows "length (buffer p') \<le> max (length (buffer p)) (l + m) \<and>
    length (borrowed p') \<le> max (length (borrowed p)) (max (length (buffer p)) (l + m))"
  using assms
proof (induction F cv p arbitrary: p' r rule: poll_event.induct)
  case (1 F cv p)
  show ?case
  proof (cases "check_space F (buffer p) = Ok None \<and> \<not> limit_reached p")
    case False
    with "1.prems"(1) show ?thesis
      by (subst (asm) poll_event.simps)
        (auto simp: take_element_eq split: outcome.splits option.splits if_splits prod.splits)
  next
    case True
    show ?thesis
    proof (cases "stream p" rule: poll_source_cases)
      case (data d s')
      let ?q = "p\<lparr>stream := s', buffer := buffer p @ d\<rparr>"
      have "poll_event F cv ?q = (p', r)"
        using True "1.prems"(1) data by (simp add: poll_event.simps [of F cv p])
      then have "length (buffer p') \<le> max (length (buffer ?q)) (l + m) \<and>
          length (borrowed p') \<le> max (length (borrowed p)) (max (length (buffer ?q)) (l + m))"
        using "1.IH" True data "1.prems"(2,3) by fastforce
      moreover have "length (buffer ?q) \<le> l + m"
        using True "1.prems"(2,3) data(1) by (fastforce simp: limit_reached_def)
      ultimately show ?thesis by simp
    qed (use True "1.prems"(1) in \<open>auto simp: poll_event.simps [of F cv p]\<close>)
  qed
qed

lemmas poll_event_buffer = poll_event_memory [THEN conjunct1]

text \<open>So the element an event was decoded from was no larger than that either.\<close>

lemma poll_event_taken:
  assumes "poll_event F cv p = (p', Ready (Some (Ok el)))" "buffer_size_limit p = Some l"
    "\<And>d. SourceData d \<in> set (stream p) \<Longrightarrow> length d \<le> m"
  shows "\<exists>bs n. decode_element F bs = Ok (Some (el, n)) \<and> n \<le> max (length (buffer p)) (l + m)"
  using assms
proof (induction F cv p arbitrary: p' rule: poll_event.induct)
  case (1 F cv p)
  show ?case
  proof (cases "check_space F (buffer p) = Ok None \<and> \<not> limit_reached p")
    case False
    with "1.prems"(1) obtain info where info: "check_space F (buffer p) = Ok (Some info)"
      "decode F (element_id info)
        (take (element_len info - body_offset info) (drop (body_offset info) (buffer p))) = Ok el"
      by (subst (asm) poll_event.simps)
        (auto simp: take_element_eq split: outcome.splits option.splits if_splits prod.splits)
    then have "decode_element F (buffer p) = Ok (Some (el, element_len info))"
      by (simp add: decode_element_eq)
    then show ?thesis
      using decode_element_Some(2) by (metis le_trans max.cobounded1)
  next
    case True
    show ?thesis
    proof (cases "stream p" rule: poll_source_cases)
      case (data d s')
      let ?q = "p\<lparr>stream := s', buffer := buffer p @ d\<rparr>"
      have "poll_event F cv ?q = (p', Ready (Some (Ok el)))"
        using True "1.prems"(1) data by (simp add: poll_event.simps [of F cv p])
      then have "\<exists>bs n. decode_element F bs = Ok (Some (el, n)) \<and> n \<le> max (length (buffer ?q)) (l + m)"
        using "1.IH" True data "1.prems"(2,3) by fastforce
      moreover have "length (buffer ?q) \<le> l + m"
        using True "1.prems"(2,3) data(1) by (fastforce simp: limit_reached_def)
      ultimately show ?thesis by fastforce
    qed (use True "1.prems"(1) in \<open>auto simp: poll_event.simps [of F cv p]\<close>)
  qed
qed

section \<open>next is poll_event with the waiting left out\<close>

lemma next_event_poll:
  "next_event F cv p =
    (case poll_event F cv p of
       (p', Pending) \<Rightarrow> next_event F cv p'
     | (p', Ready None) \<Rightarrow> (p', Ok None)
     | (p', Ready (Some r)) \<Rightarrow> (p', and_then r (\<lambda>el. Ok (Some el))))"
proof (induction F cv p rule: poll_event.induct)
  case (1 F cv p)
  show ?case
  proof (cases "check_space F (buffer p) = Ok None \<and> \<not> limit_reached p")
    case False
    then show ?thesis
      by (auto simp: poll_event.simps [of F cv p] next_event.simps [of F cv p]
          split: outcome.split option.split prod.split)
  next
    case True
    show ?thesis
    proof (cases "stream p" rule: poll_source_cases)
      case (data d s')
      with "1.IH" True show ?thesis
        by (simp add: poll_event.simps [of F cv p] next_event.simps [of F cv p])
    next
      case (pending s')
      with True have "next_event F cv p = next_event F cv (p\<lparr>stream := s'\<rparr>)"
        by (simp add: next_event.simps [of F cv p] next_event.simps [of F cv "p\<lparr>stream := s'\<rparr>"]
            split: outcome.split option.split prod.split)
      with pending True show ?thesis by (simp add: poll_event.simps [of F cv p])
    qed (use True in \<open>simp_all add: poll_event.simps [of F cv p] next_event.simps [of F cv p]\<close>)
  qed
qed

section \<open>Parsing a whole stream\<close>

text \<open>
  The consumer's loop \<open>while let Some(el) = events.next().await?\<close>: the events of a stream, and
  how it ended.
\<close>

definition next_sound ::
    "'a from_ebml \<Rightarrow> ('e \<Rightarrow> 'x webmetro_error) \<Rightarrow> 'e parser \<Rightarrow> 'e parser \<Rightarrow>
     ('x webmetro_error, 'a option) outcome \<Rightarrow> bool" where
  "next_sound F cv p p' r \<longleftrightarrow>
    (case r of
       Ok None \<Rightarrow> decode_element F (input p) = Ok None
     | Ok (Some el) \<Rightarrow>
         (\<exists>n. decode_element F (input p) = Ok (Some (el, n)) \<and> input p' = drop n (input p))
     | Err e \<Rightarrow>
         e = ResourcesExceeded \<and> buffer_size_limit p \<noteq> None \<or>
         (\<exists>e'. e = EbmlError e' \<and> decode_element F (input p) = Err e') \<or>
         (\<exists>e'. SourceErr e' \<in> set (stream p) \<and> e = cv e')
     | Panic \<Rightarrow> decode_element F (input p) = Panic)"

lemma next_event_sound:
  "next_event F cv p = (p', r) \<Longrightarrow>
    next_sound F cv p p' r \<and> buffer_size_limit p' = buffer_size_limit p \<and> set (stream p') \<subseteq> set (stream p)"
proof (induction "length (stream p)" arbitrary: p rule: less_induct)
  case less
  obtain q pr where poll: "poll_event F cv p = (q, pr)" by (cases "poll_event F cv p")
  note sound = poll_event_sound [OF poll] and frame = poll_event_frame [OF poll]
  show ?case
  proof (cases pr)
    case Pending
    then have "next_event F cv q = (p', r)"
      using poll less.prems by (simp add: next_event_poll [of F cv p])
    moreover have q: "input q = input p" "length (stream q) < length (stream p)"
      using sound Pending by (simp_all add: event_sound_def)
    ultimately have "next_sound F cv q p' r \<and> buffer_size_limit p' = buffer_size_limit q \<and>
        set (stream p') \<subseteq> set (stream q)"
      using less.hyps by blast
    with q frame show ?thesis
      by (auto simp: next_sound_def split: outcome.splits option.splits)
  next
    case (Ready x)
    with poll less.prems sound frame show ?thesis
      by (cases x)
        (auto simp: next_event_poll [of F cv p] event_sound_def next_sound_def
          split: outcome.splits)
  qed
qed

lemma next_event_decreases:
  assumes "next_event F cv p = (p', Ok (Some el))"
  shows "length (input p') < length (input p)"
proof -
  obtain n where "decode_element F (input p) = Ok (Some (el, n))" "input p' = drop n (input p)"
    using next_event_sound [OF assms] by (auto simp: next_sound_def)
  with decode_element_Some [of F "input p" el n] show ?thesis by simp
qed

function all_events ::
    "'a from_ebml \<Rightarrow> ('e \<Rightarrow> 'x webmetro_error) \<Rightarrow> 'e parser \<Rightarrow> 'a list \<times> ('x webmetro_error, unit) outcome" where
  "all_events F cv p =
    (case next_event F cv p of
       (p', Ok (Some el)) \<Rightarrow> (case all_events F cv p' of (els, r) \<Rightarrow> (el # els, r))
     | (p', Ok None) \<Rightarrow> ([], Ok ())
     | (p', Err e) \<Rightarrow> ([], Err e)
     | (p', Panic) \<Rightarrow> ([], Panic))"
  by pat_completeness auto
termination
  by (relation "measure (\<lambda>(F, cv, p). length (input p))") (auto dest: next_event_decreases [OF sym])

declare all_events.simps [simp del]

text \<open>The reference: decode element after element off one complete byte sequence.\<close>

function whole_events :: "'a from_ebml \<Rightarrow> bytes \<Rightarrow> 'a list \<times> (ebml_error, unit) outcome" where
  "whole_events F bs =
    (case decode_element F bs of
       Ok (Some (el, n)) \<Rightarrow> (case whole_events F (drop n bs) of (els, r) \<Rightarrow> (el # els, r))
     | Ok None \<Rightarrow> ([], Ok ())
     | Err e \<Rightarrow> ([], Err e)
     | Panic \<Rightarrow> ([], Panic))"
  by pat_completeness auto
termination
  by (relation "measure (\<lambda>(F, bs). length bs)") (auto dest: decode_element_shorter)

declare whole_events.simps [simp del]

lemma all_events_whole:
  assumes "buffer_size_limit p = None" "\<And>e. SourceErr e \<notin> set (stream p)"
  shows "all_events F cv p = (case whole_events F (input p) of (els, r) \<Rightarrow> (els, map_err EbmlError r))"
  using assms
proof (induction F cv p rule: all_events.induct)
  case (1 F cv p)
  obtain p' r where nxt: "next_event F cv p = (p', r)" by (cases "next_event F cv p")
  note sound = next_event_sound [OF nxt]
  show ?case
  proof (cases r)
    case (Ok x)
    show ?thesis
    proof (cases x)
      case (Some el)
      with sound Ok obtain n where n: "decode_element F (input p) = Ok (Some (el, n))"
        "input p' = drop n (input p)" by (auto simp: next_sound_def)
      have "all_events F cv p' = (case whole_events F (input p') of (els, r) \<Rightarrow> (els, map_err EbmlError r))"
        using nxt Ok Some sound "1.prems" by (intro "1.IH") auto
      with n nxt Ok Some show ?thesis
        by (simp add: all_events.simps [of F cv p] whole_events.simps [of F "input p"] split: prod.split)
    qed (use sound Ok nxt in \<open>simp add: all_events.simps [of F cv p] whole_events.simps [of F "input p"] next_sound_def\<close>)
  qed (use sound nxt "1.prems" in \<open>auto simp: all_events.simps [of F cv p] whole_events.simps [of F "input p"] next_sound_def\<close>)
qed

text \<open>
  The iterator yields the same events and drops the error that ends them: it never
  distinguishes the end of its input from an element it cannot parse.
\<close>

context total_decoder
begin

lemma whole_events_no_panic: "snd (whole_events F bs) \<noteq> Panic"
proof (induction "length bs" arbitrary: bs rule: less_induct)
  case (less bs)
  have "snd (whole_events F (drop n bs)) \<noteq> Panic" if "decode_element F bs = Ok (Some (el, n))" for el n
    using less [of "drop n bs"] decode_element_shorter [OF that] by simp
  then show ?case
    using decode_element_no_panic [of bs]
    by (subst whole_events.simps) (auto split: outcome.splits option.splits prod.splits)
qed

lemma ebml_events_None:
  assumes "decode_element F bs = Ok None \<or> (\<exists>e. decode_element F bs = Err e)"
  shows "ebml_events F bs = Ok ([], bs)" "fst (whole_events F bs) = []"
proof -
  have "ebml_next F bs = Ok (bs, None)"
    using assms by (simp add: ebml_next_None)
  then show "ebml_events F bs = Ok ([], bs)"
    by (subst ebml_events.simps) simp
  show "fst (whole_events F bs) = []"
    using assms by (subst whole_events.simps) auto
qed

lemma ebml_events_whole: "\<exists>left. ebml_events F bs = Ok (fst (whole_events F bs), left)"
proof (induction "length bs" arbitrary: bs rule: less_induct)
  case (less bs)
  consider "decode_element F bs = Ok None \<or> (\<exists>e. decode_element F bs = Err e)"
    | el n where "decode_element F bs = Ok (Some (el, n))"
    using decode_element_no_panic [of bs] by (cases "decode_element F bs") (auto, metis not_None_eq surj_pair)
  then show ?case
  proof cases
    case 1
    from ebml_events_None [OF 1] show ?thesis by simp
  next
    case (2 el n)
    obtain rest where "ebml_events F (drop n bs) = Ok (fst (whole_events F (drop n bs)), rest)"
      using less [of "drop n bs"] decode_element_shorter [OF 2] by auto
    moreover have "ebml_next F bs = Ok (drop n bs, Some el)"
      using 2 by (simp add: ebml_next_Some_iff)
    ultimately have "ebml_events F bs = Ok (el # fst (whole_events F (drop n bs)), rest)"
      by (subst ebml_events.simps) simp
    moreover have "fst (whole_events F bs) = el # fst (whole_events F (drop n bs))"
      using 2 by (subst whole_events.simps) (simp split: prod.split)
    ultimately show ?thesis by simp
  qed
qed

end

end
