(* ===== verification/Chunk.thy ===== *)
theory Chunk
  imports Webm Stream_Parser
begin

text \<open>
  The chunker of \<open>src/chunk.rs\<close>: it regroups the events of a WebM stream into
  self-contained pieces, the initialization segment and the clusters, re-encoding each
  event into the buffer of the piece it belongs to. Definitions and the facts about single
  steps; the chunk stream as a whole is the subject of \<open>Chunk_Stream\<close>.
\<close>

section \<open>Cluster heads\<close>

text \<open>The field \<open>end_time\<close> is the source's \<open>end\<close>, \<open>head_bytes\<close> its \<open>bytes\<close>.\<close>

record cluster_head =
  keyframe :: bool
  start :: u64
  end_time :: u64
  head_bytes :: bytes

text \<open>\<open>Result::unwrap\<close> panics on an error.\<close>

fun unwrap :: "('f, 'a) outcome \<Rightarrow> ('e, 'a) outcome" where
  "unwrap (Ok x) = Ok x"
| "unwrap (Err _) = Panic"
| "unwrap Panic = Panic"

definition update_timecode :: "rt \<Rightarrow> u64 \<Rightarrow> cluster_head \<Rightarrow> ('e, cluster_head) outcome" where
  "update_timecode E tc h =
    and_then (sub_u64 E (end_time h) (start h)) (\<lambda>delta.
      let h = h\<lparr>start := tc\<rparr> in
      and_then (add_u64 E (start h) delta) (\<lambda>new_end.
        let h = h\<lparr>end_time := new_end\<rparr>;
            cursor = cursor_new (replicate 15 0)
        in case encode_webm_element E slice_writer Cluster cursor of (cursor, r) \<Rightarrow>
          and_then (unwrap r) (\<lambda>_.
            case encode_webm_element E slice_writer (Timecode tc) cursor of (cursor, r) \<Rightarrow>
              and_then (unwrap r) (\<lambda>_.
                let len = position cursor
                in and_then (slice_to (get_ref cursor) len) (\<lambda>out.
                     Ok (h\<lparr>head_bytes := out\<rparr>))))))"

definition cluster_head_new :: "rt \<Rightarrow> u64 \<Rightarrow> ('e, cluster_head) outcome" where
  "cluster_head_new E tc =
    update_timecode E tc \<lparr>keyframe = False, start = 0, end_time = 0, head_bytes = []\<rparr>"

text \<open>\<open>timecode as u64\<close> extends the sign of the 16-bit value.\<close>

definition observe_simpleblock_timecode ::
    "rt \<Rightarrow> i16 \<Rightarrow> cluster_head \<Rightarrow> ('e, cluster_head) outcome" where
  "observe_simpleblock_timecode E tc h =
    and_then (add_u64 E (start h) (scast tc)) (\<lambda>absolute_timecode.
      if absolute_timecode > start h then Ok (h\<lparr>end_time := absolute_timecode\<rparr>) else Ok h)"

section \<open>Chunks\<close>

text \<open>\<open>ClusterChunk\<close> and \<open>EmptyChunk\<close> are the source's \<open>Chunk::Cluster\<close> and \<open>Chunk::Empty\<close>.\<close>

datatype chunk =
    Headers bytes
  | ClusterChunk cluster_head bytes
  | RemainingBody bytes
  | EmptyChunk

fun overlaps :: "chunk \<Rightarrow> 128 word \<Rightarrow> 128 word \<Rightarrow> bool" where
  "overlaps (ClusterChunk head _) first stop =
    (ucast (start head) \<le> stop \<and> ucast (end_time head) \<ge> first)"
| "overlaps _ first stop = True"

text \<open>A chunk is an iterator over the byte strings it is made of.\<close>

fun chunk_next :: "chunk \<Rightarrow> chunk \<times> bytes option" where
  "chunk_next (Headers bytes) = (EmptyChunk, Some bytes)"
| "chunk_next (ClusterChunk head body) = (RemainingBody body, Some (head_bytes head))"
| "chunk_next (RemainingBody bytes) = (EmptyChunk, Some bytes)"
| "chunk_next EmptyChunk = (EmptyChunk, None)"

text \<open>All pieces of a chunk in order, as a \<open>for\<close> loop over it sees them.\<close>

fun pieces_left :: "chunk \<Rightarrow> nat" where
  "pieces_left (Headers _) = 1"
| "pieces_left (ClusterChunk _ _) = 2"
| "pieces_left (RemainingBody _) = 1"
| "pieces_left EmptyChunk = 0"

lemma chunk_next_decreases: "chunk_next c = (c', Some b) \<Longrightarrow> pieces_left c' < pieces_left c"
  by (cases c) auto

function chunk_pieces :: "chunk \<Rightarrow> bytes list" where
  "chunk_pieces c = (case chunk_next c of (c', Some b) \<Rightarrow> b # chunk_pieces c' | (_, None) \<Rightarrow> [])"
  by pat_completeness auto
termination
  by (relation "measure pieces_left") (auto dest: chunk_next_decreases [OF sym])

declare chunk_pieces.simps [simp del]

lemma chunk_pieces_EmptyChunk [simp]: "chunk_pieces EmptyChunk = []"
  by (subst chunk_pieces.simps) simp

lemma chunk_pieces_RemainingBody [simp]: "chunk_pieces (RemainingBody bs) = [bs]"
  by (subst chunk_pieces.simps) simp

lemma chunk_pieces_Headers [simp]: "chunk_pieces (Headers bs) = [bs]"
  by (subst chunk_pieces.simps) simp

lemma chunk_pieces_ClusterChunk [simp]: "chunk_pieces (ClusterChunk h bs) = [head_bytes h, bs]"
  by (subst chunk_pieces.simps) simp

section \<open>The chunker\<close>

datatype chunker_state =
    BuildingHeader cursor
  | BuildingCluster cluster_head cursor
  | End

record 'e chunker =
  source :: "'e parser"
  chunk_size_limit :: "nat option"
  chunk_state :: chunker_state

definition chunk_webm :: "'e parser \<Rightarrow> 'e chunker" where
  "chunk_webm s =
    \<lparr>source = s, chunk_size_limit = None, chunk_state = BuildingHeader (cursor_new [])\<rparr>"

definition chunker_with_soft_limit :: "'e chunker \<Rightarrow> nat \<Rightarrow> 'e chunker" where
  "chunker_with_soft_limit c limit = c\<lparr>chunk_size_limit := Some limit\<rparr>"

text \<open>The helper \<open>encode\<close>: an element into a buffer that has not reached the limit.\<close>

definition encode_limited ::
    "rt \<Rightarrow> nat option \<Rightarrow> webm_element \<Rightarrow> cursor \<Rightarrow> cursor \<times> ('x webmetro_error, unit) outcome" where
  "encode_limited E limit element buf =
    (if (case limit of Some l \<Rightarrow> l \<le> length (get_ref buf) | None \<Rightarrow> False)
     then (buf, Err ResourcesExceeded)
     else case encode_webm_element E vec_writer element buf of
            (buf, r) \<Rightarrow> (buf, map_err IoError r))"

text \<open>
  One turn of the loop in \<open>poll_next\<close>: go on polling in a new state, or return an item.
\<close>

datatype 'x turn =
    Continue chunker_state
  | Return chunker_state "('x webmetro_error, chunk) outcome"

text \<open>The common tail of the branches that write an element: stop at a failed write.\<close>

fun written :: "(cursor \<Rightarrow> chunker_state) \<Rightarrow> cursor \<times> ('x webmetro_error, unit) outcome \<Rightarrow> 'x turn" where
  "written st (buf, Ok _) = Continue (st buf)"
| "written st (_, Err err) = Return End (Err err)"
| "written st (buf, Panic) = Return (st buf) Panic"

text \<open>The branches of the state \<open>BuildingHeader\<close>.\<close>

definition header_turn :: "rt \<Rightarrow> nat option \<Rightarrow> cursor \<Rightarrow> webm_element \<Rightarrow> 'x turn" where
  "header_turn E limit buf element =
    (case element of
       Cluster \<Rightarrow>
         let header_chunk = Headers (get_ref buf) in
         (case cluster_head_new E 0 of
            Ok fresh \<Rightarrow> Return (BuildingCluster fresh (cursor_new [])) (Ok header_chunk)
          | Err e \<Rightarrow> Return (BuildingHeader (cursor_new [])) (Err e)
          | Panic \<Rightarrow> Return (BuildingHeader (cursor_new [])) Panic)
     | Info \<Rightarrow> Continue (BuildingHeader buf)
     | Void \<Rightarrow> Continue (BuildingHeader buf)
     | UnknownElement _ \<Rightarrow> Continue (BuildingHeader buf)
     | element \<Rightarrow> written BuildingHeader (encode_limited E limit element buf))"

text \<open>
  Taking the cluster built so far out of the state (\<open>mem::replace\<close> of head and buffer):
  the finished chunk, and the turn that goes on with the fresh head.
\<close>

definition liberate ::
    "rt \<Rightarrow> cluster_head \<Rightarrow> cursor \<Rightarrow> (chunk \<Rightarrow> cluster_head \<Rightarrow> 'x turn) \<Rightarrow> 'x turn" where
  "liberate E head buf k =
    (case cluster_head_new E 0 of
       Ok fresh \<Rightarrow> k (ClusterChunk head (get_ref buf)) fresh
     | Err e \<Rightarrow> Return (BuildingCluster head buf) (Err e)
     | Panic \<Rightarrow> Return (BuildingCluster head buf) Panic)"

text \<open>The branches of the state \<open>BuildingCluster\<close> for an element.\<close>

definition new_header_turn ::
    "rt \<Rightarrow> nat option \<Rightarrow> cluster_head \<Rightarrow> cursor \<Rightarrow> webm_element \<Rightarrow> 'x turn" where
  "new_header_turn E limit head buf element =
    liberate E head buf (\<lambda>finished fresh.
      case encode_limited E limit element (cursor_new []) of
        (new_header, Ok _) \<Rightarrow> Return (BuildingHeader new_header) (Ok finished)
      | (_, Err err) \<Rightarrow> Return End (Err err)
      | (_, Panic) \<Rightarrow> Return (BuildingCluster fresh (cursor_new [])) Panic)"

definition block_turn ::
    "rt \<Rightarrow> nat option \<Rightarrow> cluster_head \<Rightarrow> cursor \<Rightarrow> simple_block \<Rightarrow> 'x turn" where
  "block_turn E limit head buf block =
    (let head = (if flags block AND 0x80 \<noteq> 0 then head\<lparr>keyframe := True\<rparr> else head) in
     case observe_simpleblock_timecode E (timecode block) head of
       Ok head \<Rightarrow>
         written (BuildingCluster head) (encode_limited E limit (SimpleBlock block) buf)
     | Err e \<Rightarrow> Return (BuildingCluster head buf) (Err e)
     | Panic \<Rightarrow> Return (BuildingCluster head buf) Panic)"

definition cluster_turn ::
    "rt \<Rightarrow> nat option \<Rightarrow> cluster_head \<Rightarrow> cursor \<Rightarrow> webm_element \<Rightarrow> 'x turn" where
  "cluster_turn E limit head buf element =
    (case element of
       EbmlHead \<Rightarrow> new_header_turn E limit head buf element
     | Segment \<Rightarrow> new_header_turn E limit head buf element
     | Cluster \<Rightarrow>
         liberate E head buf (\<lambda>finished fresh.
           Return (BuildingCluster fresh (cursor_new [])) (Ok finished))
     | Timecode tc \<Rightarrow>
         (case update_timecode E tc head of
            Ok head \<Rightarrow> Continue (BuildingCluster head buf)
          | Err e \<Rightarrow> Return (BuildingCluster head buf) (Err e)
          | Panic \<Rightarrow> Return (BuildingCluster head buf) Panic)
     | SimpleBlock block \<Rightarrow> block_turn E limit head buf block
     | Info \<Rightarrow> Continue (BuildingCluster head buf)
     | Void \<Rightarrow> Continue (BuildingCluster head buf)
     | UnknownElement _ \<Rightarrow> Continue (BuildingCluster head buf)
     | element \<Rightarrow> written (BuildingCluster head) (encode_limited E limit element buf))"

text \<open>The end of the input flushes the last cluster.\<close>

definition flush_turn :: "rt \<Rightarrow> cluster_head \<Rightarrow> cursor \<Rightarrow> 'x turn" where
  "flush_turn E head buf = liberate E head buf (\<lambda>finished fresh. Return End (Ok finished))"

section \<open>poll_next\<close>

text \<open>
  The loop polls the parser and takes the turn of the current state. An error of the
  parser and \<open>Pending\<close> are passed on and leave the state as it is.
\<close>

fun element_turn :: "rt \<Rightarrow> nat option \<Rightarrow> chunker_state \<Rightarrow> webm_element \<Rightarrow> 'x turn" where
  "element_turn E limit (BuildingHeader buf) element = header_turn E limit buf element"
| "element_turn E limit (BuildingCluster head buf) element = cluster_turn E limit head buf element"
| "element_turn E limit End element = Continue End"

function poll_next ::
    "rt \<Rightarrow> ('e \<Rightarrow> 'x webmetro_error) \<Rightarrow> 'e chunker \<Rightarrow>
     'e chunker \<times> ('x webmetro_error, chunk) outcome option poll" where
  "poll_next E cv c =
    (if chunk_state c = End then (c, Ready None)
     else
       (case poll_event (webm_from_ebml E) cv (source c) of
          (s, Ready (Some (Ok element))) \<Rightarrow>
            (case element_turn E (chunk_size_limit c) (chunk_state c) element of
               Continue st \<Rightarrow> poll_next E cv (c\<lparr>source := s, chunk_state := st\<rparr>)
             | Return st r \<Rightarrow> (c\<lparr>source := s, chunk_state := st\<rparr>, Ready (Some r)))
        | (s, Ready (Some (Err passthru))) \<Rightarrow> (c\<lparr>source := s\<rparr>, Ready (Some (Err passthru)))
        | (s, Ready (Some Panic)) \<Rightarrow> (c\<lparr>source := s\<rparr>, Ready (Some Panic))
        | (s, Pending) \<Rightarrow> (c\<lparr>source := s\<rparr>, Pending)
        | (s, Ready None) \<Rightarrow>
            (case chunk_state c of
               BuildingCluster head buf \<Rightarrow>
                 (case flush_turn E head buf of
                    Continue st \<Rightarrow> (c\<lparr>source := s, chunk_state := st\<rparr>, Ready None)
                  | Return st r \<Rightarrow> (c\<lparr>source := s, chunk_state := st\<rparr>, Ready (Some r)))
             | _ \<Rightarrow> (c\<lparr>source := s\<rparr>, Ready None))))"
  by pat_completeness auto

text \<open>Each turn of the loop uses up an element of the input.\<close>

lemma poll_event_element_decreases:
  assumes "poll_event F cv p = (p', Ready (Some (Ok el)))"
  shows "length (input p') < length (input p)"
proof -
  obtain n where "decode_element F (input p) = Ok (Some (el, n))" "input p' = drop n (input p)"
    using poll_event_sound [OF assms] by (auto simp: event_sound_def)
  with decode_element_Some [of F "input p" el n] show ?thesis by simp
qed

termination poll_next
  by (relation "measure (\<lambda>(E, cv, c). length (input (source c)))")
    (auto dest: poll_event_element_decreases [OF sym])

declare poll_next.simps [simp del]

section \<open>Writing into a growing buffer never panics\<close>

text \<open>
  \<open>advances n m\<close>: the action does not panic, and if it succeeds the position has moved
  forward by at least \<open>n\<close>.
\<close>

definition advances :: "nat \<Rightarrow> (cursor, 'w, 'a) io \<Rightarrow> bool" where
  "advances n m \<longleftrightarrow>
    (\<forall>t t' r. m t = (t', r) \<longrightarrow> r \<noteq> Panic \<and> (\<forall>x. r = Ok x \<longrightarrow> position t + n \<le> position t'))"

lemma advancesD:
  "advances n m \<Longrightarrow> m t \<noteq> (t', Panic)"
  "advances n m \<Longrightarrow> m t = (t', Ok x) \<Longrightarrow> position t + n \<le> position t'"
  by (auto simp: advances_def)

lemma advances_write_all: "advances (length bs) (write_all vec_writer bs)"
  by (simp add: advances_def vec_writer_def vec_write_all_def)

lemma advances_bind:
  assumes "advances n m" "\<And>x. advances k (f x)"
  shows "advances (n + k) (io_bind m f)"
  using assms by (fastforce simp: advances_def io_bind_def split: prod.splits outcome.splits)

lemma advances_weaken: "advances n m \<Longrightarrow> k \<le> n \<Longrightarrow> advances k m"
  by (fastforce simp: advances_def)

lemma advances_bind0: "advances 0 m \<Longrightarrow> (\<And>x. advances 0 (f x)) \<Longrightarrow> advances 0 (io_bind m f)"
  using advances_bind [of 0 m 0 f] by simp

lemma advances_write0: "advances 0 (write_all vec_writer bs)"
  using advances_write_all by (rule advances_weaken) simp

lemma advances_return: "advances 0 (io_return x)"
  by (simp add: advances_def io_return_def)

lemma advances_fail: "advances n (io_fail e)"
  by (simp add: advances_def io_fail_def)

lemmas advances_intros = advances_bind0 advances_write0 advances_return advances_fail

lemma vec_tell: "seek vec_writer (SeekCurrent 0) t =
    (t, if position t < 2 ^ 64 then Ok (position t) else Err (MkIoError InvalidInput None))"
  by (simp add: vec_writer_def cursor_seek_def)

lemma vec_seek: "seek vec_writer (SeekStart n) t =
    (if n < 2 ^ 64 then (t\<lparr>position := n\<rparr>, Ok n) else (t, Err (MkIoError InvalidInput None)))"
  by (simp add: vec_writer_def cursor_seek_def)

context big_endian
begin

lemma advances_varint: "advances 0 (encode_varint E vec_writer v)"
  by (cases "encodable v")
    (auto simp: encode_varint_eq encode_varint_Err advances_def vec_writer_def vec_write_all_def)

lemma advances_varint_4: "advances 0 (encode_varint_4 E vec_writer v)"
  by (cases "encodable_4 v")
    (auto simp: encode_varint_4_eq encode_varint_4_Err advances_def vec_writer_def vec_write_all_def)

lemma advances_varint_4_Unknown: "advances 4 (encode_varint_4 E vec_writer Unknown)"
  using advances_write_all [of "varint_4_bytes Unknown"] by (simp add: encode_varint_4_eq)

lemma advances_tag_header: "advances 0 (encode_tag_header E vec_writer tag len)"
  unfolding encode_tag_header_def by (intro advances_intros advances_varint)

lemma advances_encode_bytes: "advances 0 (encode_bytes E vec_writer tag body)"
  unfolding encode_bytes_def by (intro advances_intros advances_tag_header)

lemma advances_encode_integer: "advances 0 (encode_integer E vec_writer tag value)"
  unfolding encode_integer_def
  by (simp add: buf_put_fill put_u64 io_bind_lift) (intro advances_intros advances_tag_header)

lemma advances_simple_block: "advances 0 (encode_simple_block E vec_writer b)"
proof -
  have "put_i16 E (timecode b) = be_list 2 (unat (timecode b))" "put_u8 E (flags b) = [flags b]"
    by (rule put_i16, rule put_u8)
  then show ?thesis
    unfolding encode_simple_block_def
    by (auto simp: buf_put_fill buf_put_def io_bind_lift
        intro!: advances_intros advances_tag_header advances_varint)
qed

text \<open>Writing an element goes back to its size field, and its positions never run out of order.\<close>

lemma encode_element_no_panic:
  assumes "advances 0 content"
  shows "encode_element E vec_writer tag content t \<noteq> (t', Panic)"
  using advancesD [OF advances_varint [of "Value tag"]] advancesD [OF advances_varint_4_Unknown]
    advancesD [OF assms] advancesD(1) [OF advances_varint_4]
  by (fastforce simp: encode_element_def io_bind_def vec_tell vec_seek pos_diff_def io_return_def
      split: prod.splits outcome.splits if_splits)

lemma encode_webm_no_panic: "encode_webm_element E vec_writer el t \<noteq> (t', Panic)"
proof (cases el)
  case EbmlHead
  then show ?thesis by (simp add: encode_element_no_panic advances_encode_bytes)
qed (simp_all add: io_fail_def io_return_def advancesD(1) [OF advances_tag_header]
    advancesD(1) [OF advances_encode_bytes] advancesD(1) [OF advances_encode_integer]
    advancesD(1) [OF advances_simple_block])

end

section \<open>What the writers leave in the buffers\<close>

text \<open>The buffers of the chunker are only ever appended to: their position is their end.\<close>

definition filled :: "bytes \<Rightarrow> cursor" where
  "filled bs = \<lparr>get_ref = bs, position = length bs\<rparr>"

lemma filled_simps [simp]:
  "get_ref (filled bs) = bs" "position (filled bs) = length bs" "cursor_new [] = filled []"
  by (simp_all add: filled_def cursor_new_def)

lemma cursor_eqI: "get_ref c = x \<Longrightarrow> position c = n \<Longrightarrow> c = \<lparr>get_ref = x, position = n\<rparr>"
  by (cases c) simp

text \<open>The bytes of a cluster head: a Cluster header and its Timecode element.\<close>

definition head_image :: "u64 \<Rightarrow> bytes" where
  "head_image tc = webm_bytes Cluster @ webm_bytes (Timecode tc)"

lemma length_head_image [simp]: "length (head_image tc) = 15"
  by (simp add: head_image_def element_bytes_def tag_header_bytes_def varint_bytes.simps
      varint_size_def id_defs)

lemma length_Cluster_bytes: "length (webm_bytes Cluster) = 5"
  "length (webm_bytes (Timecode tc)) = 10"
  by (simp_all add: element_bytes_def tag_header_bytes_def varint_bytes.simps varint_size_def id_defs)

lemma slice_head_image: "slice_to (head_image tc) 15 = Ok (head_image tc)"
  by (simp add: slice_to_def)

context big_endian
begin

lemma encode_vec:
  assumes "writable el" "length bs + length (webm_bytes el) < 2 ^ 64"
  shows "encode_webm_element E vec_writer el (filled bs) = (filled (bs @ webm_bytes el), Ok ())"
proof -
  obtain t' where t': "encode_webm_element E vec_writer el (filled bs) = (t', Ok ())"
    "get_ref t' = overwrite bs (length bs) (webm_bytes el)"
    "position t' = length bs + length (webm_bytes el)"
    by (rule vec.emitsE [OF vec.emits_encode_webm_element [OF assms(1)], of "filled bs"])
      (use assms(2) in simp_all)
  from t'(2,3) have "t' = filled (bs @ webm_bytes el)"
    unfolding filled_def by (intro cursor_eqI) (simp_all add: overwrite_at_end)
  with t'(1) show ?thesis by simp
qed

text \<open>The fixed 15-byte array is exactly large enough for them.\<close>

lemma head_cursor:
  obtains c1 c2 where
    "encode_webm_element E slice_writer Cluster (cursor_new (replicate 15 0)) = (c1, Ok ())"
    "encode_webm_element E slice_writer (Timecode tc) c1 = (c2, Ok ())"
    "get_ref c2 = head_image tc" "position c2 = 15"
proof -
  let ?c = "cursor_new (replicate 15 0)"
  have fits: "position ?c \<le> length (get_ref ?c)"
    "position ?c + length (webm_bytes Cluster) \<le> length (get_ref ?c)"
    "position ?c + length (webm_bytes Cluster) < 2 ^ 64"
    by (simp_all only: length_Cluster_bytes) (simp_all add: cursor_new_def)
  have "writable Cluster" "writable (Timecode tc)" by simp_all
  note emit = this [THEN fixed.emits_encode_webm_element]
  obtain c1 where c1: "encode_webm_element E slice_writer Cluster ?c = (c1, Ok ())"
    "get_ref c1 = overwrite (replicate 15 0) 0 (webm_bytes Cluster)" "position c1 = 5"
    by (rule fixed.emitsE [OF emit(1) fits])
      (simp only: length_Cluster_bytes, simp add: cursor_new_def)
  have len: "length (get_ref c1) = 15"
    by (simp only: c1(2) length_overwrite length_Cluster_bytes le0 length_replicate)
  obtain c2 where c2: "encode_webm_element E slice_writer (Timecode tc) c1 = (c2, Ok ())"
    "get_ref c2 = overwrite (get_ref c1) (position c1) (webm_bytes (Timecode tc))" "position c2 = 15"
    by (rule fixed.emitsE [OF emit(2), of c1]) (simp_all only: length_Cluster_bytes len c1(3), simp_all)
  have "get_ref c2 = overwrite (replicate 15 0) 0 (webm_bytes Cluster @ webm_bytes (Timecode tc))"
    using overwrite_append [of 0 "replicate 15 0" "webm_bytes Cluster" "webm_bytes (Timecode tc)"]
    by (simp only: c2(2) c1(2,3) length_Cluster_bytes) simp
  also have "\<dots> = head_image tc"
    by (simp only: overwrite_def length_append length_Cluster_bytes) (simp add: head_image_def)
  finally show ?thesis
    using c1(1) c2(1,3) that by blast
qed

lemma update_timecode_eq:
  "update_timecode E tc h =
    and_then (sub_u64 E (end_time h) (start h)) (\<lambda>delta.
    and_then (add_u64 E tc delta) (\<lambda>new_end.
      Ok (h\<lparr>start := tc, end_time := new_end, head_bytes := head_image tc\<rparr>)))"
proof -
  obtain c1 c2 where
    "encode_webm_element E slice_writer Cluster (cursor_new (replicate 15 0)) = (c1, Ok ())"
    "encode_webm_element E slice_writer (Timecode tc) c1 = (c2, Ok ())"
    "get_ref c2 = head_image tc" "position c2 = 15"
    by (rule head_cursor)
  then show ?thesis
    by (simp only: update_timecode_def Let_def prod.case unwrap.simps and_then.simps slice_head_image)
      simp
qed

lemma cluster_head_new_eq:
  "cluster_head_new E tc =
    Ok \<lparr>keyframe = False, start = tc, end_time = tc, head_bytes = head_image tc\<rparr>"
proof -
  have "unat tc < 2 ^ 64"
    using unsigned_less [of tc, where ?'a = nat] by simp
  then show ?thesis
    by (simp add: cluster_head_new_def update_timecode_eq sub_u64_def add_u64_def)
qed

end

section \<open>Observed timecodes\<close>

lemma scast_nonneg:
  fixes w :: i16
  assumes "0 \<le> sint w"
  shows "unat (scast w :: u64) = nat (sint w)" "nat (sint w) < 2 ^ 15"
proof -
  have less: "sint w < 2 ^ 15"
    using sint_lt [of w] by simp
  then show "nat (sint w) < 2 ^ 15"
    using assms by simp
  have "uint (word_of_int (sint w) :: u64) = sint w"
    using assms less by (simp add: uint_word_of_int del: of_int_sint)
  moreover have "(scast w :: u64) = word_of_int (sint w)"
    by (simp add: of_int_sint)
  ultimately show "unat (scast w :: u64) = nat (sint w)"
    by (simp only: unat_eq_nat_uint)
qed

lemma observe_nonneg:
  assumes "0 \<le> sint tc" "unat (start h) < 2 ^ 63"
  shows "observe_simpleblock_timecode E tc h =
    Ok (if 0 < sint tc then h\<lparr>end_time := start h + scast tc\<rparr> else h)"
proof -
  have sum: "unat (start h) + unat (scast tc :: u64) < 2 ^ 64"
    using assms(2) scast_nonneg [OF assms(1)] by simp
  have "start h < start h + scast tc \<longleftrightarrow> 0 < sint tc"
    using scast_nonneg(1) [OF assms(1)] assms(1)
    by (auto simp: word_less_nat_alt unat_add_u64 [OF sum])
  then show ?thesis
    by (simp add: observe_simpleblock_timecode_def add_u64_exact [OF sum])
qed

text \<open>A block before the start of its cluster: the sign extension makes the sum wrap.\<close>

lemma scast_negative:
  fixes w :: i16
  assumes "sint w < 0"
  shows "unat (scast w :: u64) = 2 ^ 64 - nat (- sint w)" "nat (- sint w) \<le> 2 ^ 15"
proof -
  have ge: "- (2 ^ 15) \<le> sint w"
    using sint_ge [of w] by simp
  then show "nat (- sint w) \<le> 2 ^ 15"
    by simp
  have "sint w mod 2 ^ 64 = (sint w + 2 ^ 64) mod 2 ^ 64"
    by simp
  also have "\<dots> = sint w + 2 ^ 64"
    using assms ge by (intro mod_pos_pos_trivial) simp_all
  finally have "uint (word_of_int (sint w) :: u64) = sint w + 2 ^ 64"
    by (simp add: uint_word_of_int del: of_int_sint)
  moreover have "(scast w :: u64) = word_of_int (sint w)"
    by (simp add: of_int_sint)
  ultimately have "unat (scast w :: u64) = nat (sint w + 2 ^ 64)"
    by (simp only: unat_eq_nat_uint)
  then show "unat (scast w :: u64) = 2 ^ 64 - nat (- sint w)"
    using assms ge by simp
qed

lemma observe_negative:
  assumes "sint tc < 0"
  shows "nat (- sint tc) \<le> unat (start h) \<Longrightarrow>
      observe_simpleblock_timecode E tc h = (if overflow_checks E then Panic else Ok h)"
    and "unat (start h) < nat (- sint tc) \<Longrightarrow>
      observe_simpleblock_timecode E tc h = Ok (h\<lparr>end_time := start h + scast tc\<rparr>) \<and>
      unat (start h + scast tc) = 2 ^ 64 - (nat (- sint tc) - unat (start h))"
proof -
  let ?k = "nat (- sint tc)"
  have k: "unat (scast tc :: u64) = 2 ^ 64 - ?k" "?k \<le> 2 ^ 15" "0 < ?k"
    using scast_negative [OF assms] assms by simp_all
  have s: "unat (start h) < 2 ^ 64"
    using unsigned_less [of "start h", where ?'a = nat] by simp
  show "observe_simpleblock_timecode E tc h = (if overflow_checks E then Panic else Ok h)"
    if le: "?k \<le> unat (start h)"
  proof -
    have "unat (start h + scast tc) = (unat (start h) - ?k + 2 ^ 64) mod 2 ^ 64"
      using k(1,2) le by (simp add: unat_word_ariths)
    also have "\<dots> = unat (start h) - ?k"
      using s by simp
    finally have "\<not> start h < start h + scast tc"
      by (simp add: word_less_nat_alt)
    moreover have "2 ^ 64 \<le> unat (start h) + unat (scast tc :: u64)"
      using k(1,2) le by simp
    ultimately show ?thesis
      by (simp add: observe_simpleblock_timecode_def add_u64_def)
  qed
  show "observe_simpleblock_timecode E tc h = Ok (h\<lparr>end_time := start h + scast tc\<rparr>) \<and>
      unat (start h + scast tc) = 2 ^ 64 - (?k - unat (start h))"
    if less: "unat (start h) < ?k"
  proof -
    have sum: "unat (start h) + unat (scast tc :: u64) < 2 ^ 64"
      using k less by simp
    have eq: "unat (start h + scast tc) = 2 ^ 64 - (?k - unat (start h))"
      using unat_add_u64 [OF sum] k less by (simp add: add.commute)
    then have "start h < start h + scast tc"
      using k less by (simp add: word_less_nat_alt)
    with eq sum show ?thesis
      by (simp add: observe_simpleblock_timecode_def add_u64_exact)
  qed
qed

section \<open>A turn of the loop panics only where the arithmetic is checked\<close>

context big_endian
begin

lemma encode_limited_no_panic: "snd (encode_limited E limit el c) \<noteq> Panic"
  using encode_webm_no_panic [of el c]
  by (auto simp: encode_limited_def split: prod.splits)

lemma encode_limited_panic: "encode_limited E limit el c = (c', Panic) \<Longrightarrow> False"
  using encode_limited_no_panic by (metis snd_conv)

lemma update_timecode_release: "\<not> overflow_checks E \<Longrightarrow> update_timecode E tc h \<noteq> Panic"
  by (simp add: update_timecode_eq sub_u64_release add_u64_release)

lemma observe_release: "\<not> overflow_checks E \<Longrightarrow> observe_simpleblock_timecode E tc h \<noteq> Panic"
  by (simp add: observe_simpleblock_timecode_def add_u64_release)

lemma written_no_panic: "snd p \<noteq> Panic \<Longrightarrow> written st p \<noteq> Return st' Panic"
  by (cases p; cases "snd p") auto

lemmas write_turn_no_panic = written_no_panic [OF encode_limited_no_panic]

lemma header_turn_no_panic: "header_turn E limit c el \<noteq> Return st Panic"
  by (auto simp: header_turn_def cluster_head_new_eq write_turn_no_panic split: webm_element.split)

lemma new_header_turn_no_panic: "new_header_turn E limit h c el \<noteq> Return st Panic"
  by (auto simp: new_header_turn_def liberate_def cluster_head_new_eq
      dest: encode_limited_panic split: prod.splits outcome.splits)

lemma block_turn_no_panic: "\<not> overflow_checks E \<Longrightarrow> block_turn E limit h c b \<noteq> Return st Panic"
  by (auto simp: block_turn_def Let_def write_turn_no_panic observe_release split: outcome.splits)

lemma cluster_turn_no_panic:
  assumes "\<not> overflow_checks E"
  shows "cluster_turn E limit h c el \<noteq> Return st Panic"
  using assms
  by (auto simp: update_timecode_release cluster_turn_def liberate_def cluster_head_new_eq new_header_turn_no_panic
      block_turn_no_panic write_turn_no_panic split: webm_element.splits outcome.splits)

lemma element_turn_no_panic:
  "\<not> overflow_checks E \<Longrightarrow> element_turn E limit st el \<noteq> Return st' Panic"
  by (cases st) (simp_all add: header_turn_no_panic cluster_turn_no_panic)

lemma flush_turn_eq: "flush_turn E h c = Return End (Ok (ClusterChunk h (get_ref c)))"
  by (simp add: flush_turn_def liberate_def cluster_head_new_eq)

lemma poll_next_release:
  assumes "\<not> overflow_checks E"
  shows "poll_next E cv c \<noteq> (c', Ready (Some Panic))"
proof (induction "length (input (source c))" arbitrary: c rule: less_induct)
  case (less c)
  obtain s r where poll: "poll_event (webm_from_ebml E) cv (source c) = (s, r)"
    by (cases "poll_event (webm_from_ebml E) cv (source c)")
  have "r \<noteq> Ready (Some Panic)"
    using poll_event_sound [OF poll] webm.decode_element_no_panic by (auto simp: event_sound_def)
  moreover have "poll_next E cv (c\<lparr>source := s, chunk_state := st\<rparr>) \<noteq> (c', Ready (Some Panic))"
    if "r = Ready (Some (Ok el))" for el st
    using that poll poll_event_element_decreases [of _ cv "source c"]
    by (intro less) simp
  ultimately show ?case
    using poll
    by (subst poll_next.simps)
      (auto simp: flush_turn_eq header_turn_no_panic cluster_turn_no_panic [OF assms] split: poll.splits option.splits outcome.splits turn.splits chunker_state.splits)
qed

end

end
