(* ===== verification/Chunk_Stream.thy ===== *)
theory Chunk_Stream
  imports Chunk
begin

text \<open>
  The chunk stream against its specification. The specification groups the list of
  events, with no buffers, heads or arithmetic; a group is realised as a chunk by writing
  its events and reading the head's fields off them. The chunker refines it step by step,
  and so do the chunks of a whole run.
\<close>

section \<open>Grouping events\<close>

datatype group = HeaderGroup "webm_element list" | ClusterGroup "webm_element list"

datatype building = InHeader "webm_element list" | InCluster "webm_element list"

text \<open>
  A Cluster tag ends a group and begins a cluster; an EBML head or a Segment ends a
  cluster and begins a header; anything else belongs to the group at hand.
\<close>

fun feed :: "building \<Rightarrow> webm_element \<Rightarrow> building \<times> group option" where
  "feed (InHeader els) Cluster = (InCluster [], Some (HeaderGroup els))"
| "feed (InHeader els) el = (InHeader (els @ [el]), None)"
| "feed (InCluster els) Cluster = (InCluster [], Some (ClusterGroup els))"
| "feed (InCluster els) EbmlHead = (InHeader [EbmlHead], Some (ClusterGroup els))"
| "feed (InCluster els) Segment = (InHeader [Segment], Some (ClusterGroup els))"
| "feed (InCluster els) el = (InCluster (els @ [el]), None)"

fun groups :: "building \<Rightarrow> webm_element list \<Rightarrow> group list \<times> building" where
  "groups b [] = ([], b)"
| "groups b (el # els) =
    (case feed b el of
       (b', None) \<Rightarrow> groups b' els
     | (b', Some g) \<Rightarrow> (case groups b' els of (gs, b'') \<Rightarrow> (g # gs, b'')))"

text \<open>At the end of the input an open cluster is complete; an open header is dropped.\<close>

fun last_group :: "building \<Rightarrow> group list" where
  "last_group (InHeader _) = []"
| "last_group (InCluster els) = [ClusterGroup els]"

section \<open>Realising groups\<close>

definition written_bytes :: "webm_element list \<Rightarrow> bytes" where
  "written_bytes els = concat (map webm_bytes els)"

lemma written_bytes_simps [simp]:
  "written_bytes [] = []"
  "written_bytes (el # els) = webm_bytes el @ written_bytes els"
  "written_bytes (els @ els') = written_bytes els @ written_bytes els'"
  by (simp_all add: written_bytes_def)

text \<open>The body of a cluster: its Timecode element is part of the head instead.\<close>

fun is_timecode :: "webm_element \<Rightarrow> bool" where
  "is_timecode (Timecode _) = True"
| "is_timecode _ = False"

definition body_elements :: "webm_element list \<Rightarrow> webm_element list" where
  "body_elements els = filter (\<lambda>el. \<not> is_timecode el) els"

text \<open>The last Timecode element is the start of the cluster.\<close>

fun timecode_of :: "webm_element \<Rightarrow> u64 list" where
  "timecode_of (Timecode t) = [t]"
| "timecode_of _ = []"

definition group_start :: "webm_element list \<Rightarrow> u64" where
  "group_start els = last (0 # concat (map timecode_of els))"

text \<open>The last block that is later than the start determines the length.\<close>

fun offset_of :: "webm_element \<Rightarrow> u64 list" where
  "offset_of (SimpleBlock b) = (if 0 < sint (timecode b) then [scast (timecode b)] else [])"
| "offset_of _ = []"

definition group_length :: "webm_element list \<Rightarrow> u64" where
  "group_length els = last (0 # concat (map offset_of els))"

fun keyframe_block :: "webm_element \<Rightarrow> bool" where
  "keyframe_block (SimpleBlock b) \<longleftrightarrow> flags b AND 0x80 \<noteq> 0"
| "keyframe_block _ \<longleftrightarrow> False"

definition group_head :: "webm_element list \<Rightarrow> cluster_head" where
  "group_head els =
    \<lparr>keyframe = list_ex keyframe_block els, start = group_start els,
     end_time = group_start els + group_length els, head_bytes = head_image (group_start els)\<rparr>"

fun realize :: "group \<Rightarrow> chunk" where
  "realize (HeaderGroup els) = Headers (written_bytes els)"
| "realize (ClusterGroup els) = ClusterChunk (group_head els) (written_bytes (body_elements els))"

fun building_bytes :: "building \<Rightarrow> bytes" where
  "building_bytes (InHeader els) = written_bytes els"
| "building_bytes (InCluster els) = written_bytes (body_elements els)"

fun building_state :: "building \<Rightarrow> chunker_state" where
  "building_state (InHeader els) = BuildingHeader (filled (written_bytes els))"
| "building_state (InCluster els) =
    BuildingCluster (group_head els) (filled (written_bytes (body_elements els)))"

section \<open>Well-timed events\<close>

text \<open>
  What the specification asks of the events: blocks are not earlier than their cluster,
  timecodes are far from the end of their range, and an event is one the writers accept or
  one the chunker skips.
\<close>

fun forwardable :: "webm_element \<Rightarrow> bool" where
  "forwardable Info = True"
| "forwardable Void = True"
| "forwardable (UnknownElement _) = True"
| "forwardable (Timecode t) \<longleftrightarrow> unat t < 2 ^ 63"
| "forwardable (SimpleBlock b) \<longleftrightarrow> writable (SimpleBlock b) \<and> 0 \<le> sint (timecode b)"
| "forwardable el = writable el"

definition well_timed :: "webm_element list \<Rightarrow> bool" where
  "well_timed els \<longleftrightarrow> (\<forall>el \<in> set els. forwardable el)"

fun elements_of :: "building \<Rightarrow> webm_element list" where
  "elements_of (InHeader els) = els"
| "elements_of (InCluster els) = els"

lemma body_elements_simps [simp]:
  "body_elements [] = []"
  "body_elements (els @ els') = body_elements els @ body_elements els'"
  "body_elements (el # els) = (if is_timecode el then body_elements els else el # body_elements els)"
  by (simp_all add: body_elements_def)

lemma group_start_snoc:
  "group_start (els @ [el]) = (case el of Timecode t \<Rightarrow> t | _ \<Rightarrow> group_start els)"
  by (auto simp: group_start_def split: webm_element.split)

lemma group_length_snoc:
  "group_length (els @ [el]) =
    (case el of
       SimpleBlock b \<Rightarrow> if 0 < sint (timecode b) then scast (timecode b) else group_length els
     | _ \<Rightarrow> group_length els)"
  by (auto simp: group_length_def split: webm_element.split)

lemma group_start_bound:
  assumes "well_timed els"
  shows "unat (group_start els) < 2 ^ 63"
  using assms
proof (induction els rule: rev_induct)
  case (snoc el els)
  then show ?case
    by (auto simp: group_start_snoc well_timed_def split: webm_element.split)
qed (simp add: group_start_def)

lemma scast_bound: "0 \<le> sint w \<Longrightarrow> unat (scast (w :: i16) :: u64) < 32768"
  using scast_nonneg [of w] by simp

lemma group_length_bound:
  assumes "well_timed els"
  shows "unat (group_length els) < 2 ^ 15"
  using assms
proof (induction els rule: rev_induct)
  case (snoc el els)
  then show ?case
    by (auto simp: group_length_snoc well_timed_def scast_bound split: webm_element.split)
qed (simp add: group_length_def)

lemma well_timed_snoc [simp]: "well_timed (els @ [el]) \<longleftrightarrow> well_timed els \<and> forwardable el"
  by (auto simp: well_timed_def)

section \<open>A turn refines a step of the grouping\<close>

context big_endian
begin

lemma update_group_head:
  assumes "well_timed els" "unat t < 2 ^ 63"
  shows "update_timecode E t (group_head els) = Ok (group_head (els @ [Timecode t]))"
proof -
  have len: "unat (group_length els) < 2 ^ 15" and st: "unat (group_start els) < 2 ^ 63"
    using assms(1) by (simp_all only: group_length_bound group_start_bound)
  then have "group_start els \<le> group_start els + group_length els"
    by (simp add: word_le_nat_alt unat_add_u64)
  moreover have "unat t + unat (group_length els) < 2 ^ 64"
    using len assms(2) by simp
  ultimately show ?thesis
    by (simp add: update_timecode_eq group_head_def sub_u64_exact add_u64_exact
        group_start_snoc group_length_snoc)
qed

lemma observe_group_head:
  assumes "well_timed els" "0 \<le> sint (timecode b)"
  shows "observe_simpleblock_timecode E (timecode b)
      (if flags b AND 0x80 \<noteq> 0 then (group_head els)\<lparr>keyframe := True\<rparr> else group_head els) =
    Ok (group_head (els @ [SimpleBlock b]))"
proof -
  have "unat (group_start els) < 2 ^ 63"
    using assms(1) by (rule group_start_bound)
  then show ?thesis
    by (subst observe_nonneg [OF assms(2)])
      (auto simp: group_head_def group_start_snoc group_length_snoc)
qed

lemma group_head_skip:
  assumes "\<not> is_timecode el" "\<nexists>b. el = SimpleBlock b"
  shows "group_head (els @ [el]) = group_head els"
  using assms by (cases el) (auto simp: group_head_def group_start_snoc group_length_snoc)

lemma group_head_Nil: "Ok (group_head []) = cluster_head_new E 0"
  by (simp add: cluster_head_new_eq group_head_def group_start_def group_length_def)

lemma encode_limited_vec:
  assumes "writable el" "length bs + length (webm_bytes el) < 2 ^ 64"
  shows "encode_limited E None el (filled bs) = (filled (bs @ webm_bytes el), Ok ())"
  using encode_vec [OF assms] by (simp add: encode_limited_def)

lemma element_turn_refines:
  assumes timed: "well_timed (elements_of b)" "forwardable el"
    and room: "length (building_bytes b) + length (webm_bytes el) < 2 ^ 64"
  shows "element_turn E None (building_state b) el =
    (case feed b el of
       (b', None) \<Rightarrow> Continue (building_state b')
     | (b', Some g) \<Rightarrow> Return (building_state b') (Ok (realize g)))"
proof (cases b)
  case (InHeader els)
  with assms show ?thesis
    by (cases el) (simp_all add: header_turn_def encode_limited_vec flip: group_head_Nil)
next
  case (InCluster els)
  have fits: "length (webm_bytes el) < 2 ^ 64"
    using room by simp
  show ?thesis
  proof (cases el)
    case (SimpleBlock blk)
    with assms InCluster show ?thesis
      by (simp add: cluster_turn_def block_turn_def Let_def observe_group_head encode_limited_vec)
  next
    case (Timecode t)
    with assms InCluster show ?thesis
      by (simp add: cluster_turn_def update_group_head)
  qed (use assms InCluster fits in \<open>simp_all add: cluster_turn_def new_header_turn_def liberate_def
      encode_limited_vec encode_limited_vec [of _ "[]", simplified] group_head_skip flip: group_head_Nil\<close>)
qed

end

section \<open>All chunks of a run\<close>

text \<open>What is left to do: the input, the script, and the flush of the last cluster.\<close>

definition work_left :: "'e chunker \<Rightarrow> nat" where
  "work_left c =
    2 * (length (input (source c)) + length (stream (source c))) +
    (if chunk_state c = End then 0 else 1)"

lemma poll_event_stream:
  "poll_event F cv p = (p', r) \<Longrightarrow> length (stream p') \<le> length (stream p)"
proof (induction F cv p arbitrary: p' r rule: poll_event.induct)
  case (1 F cv p)
  show ?case
  proof (cases "check_space F (buffer p) = Ok None \<and> \<not> limit_reached p")
    case False
    with "1.prems" show ?thesis
      by (subst (asm) poll_event.simps)
        (auto simp: take_element_eq split: outcome.splits option.splits if_splits prod.splits)
  next
    case True
    show ?thesis
    proof (cases "stream p" rule: poll_source_cases)
      case (data d s')
      with True "1.prems" have "poll_event F cv (p\<lparr>stream := s', buffer := buffer p @ d\<rparr>) = (p', r)"
        by (simp add: poll_event.simps [of F cv p])
      with "1.IH" True data show ?thesis by fastforce
    qed (use True "1.prems" in \<open>auto simp: poll_event.simps [of F cv p]\<close>)
  qed
qed

lemma poll_event_input:
  "poll_event F cv p = (p', Pending) \<Longrightarrow> input p' = input p \<and> length (stream p') < length (stream p)"
  "poll_event F cv p = (p', Ready None) \<Longrightarrow> input p' = input p \<and> stream p' = []"
  by (auto dest: poll_event_sound simp: event_sound_def)

lemma flush_turn_Ok: "flush_turn E h c = Return st (Ok ch) \<Longrightarrow> st = End"
  by (auto simp: flush_turn_def liberate_def split: outcome.splits)

text \<open>The step of \<open>poll_next\<close> for one result of the parser.\<close>

lemma poll_next_element:
  assumes "poll_event (webm_from_ebml E) cv (source c) = (s, Ready (Some (Ok el)))" "chunk_state c \<noteq> End"
  shows "poll_next E cv c =
    (case element_turn E (chunk_size_limit c) (chunk_state c) el of
       Continue st \<Rightarrow> poll_next E cv (c\<lparr>source := s, chunk_state := st\<rparr>)
     | Return st r \<Rightarrow> (c\<lparr>source := s, chunk_state := st\<rparr>, Ready (Some r)))"
  using assms by (subst poll_next.simps) simp

lemma poll_next_End: "chunk_state c = End \<Longrightarrow> poll_next E cv c = (c, Ready None)"
  by (subst poll_next.simps) simp

lemma poll_next_other:
  assumes "poll_event (webm_from_ebml E) cv (source c) = (s, r)" "chunk_state c \<noteq> End"
  shows
    "r = Ready (Some (Err e)) \<Longrightarrow> poll_next E cv c = (c\<lparr>source := s\<rparr>, Ready (Some (Err e)))"
    "r = Ready (Some Panic) \<Longrightarrow> poll_next E cv c = (c\<lparr>source := s\<rparr>, Ready (Some Panic))"
    "r = Pending \<Longrightarrow> poll_next E cv c = (c\<lparr>source := s\<rparr>, Pending)"
    "r = Ready None \<Longrightarrow> chunk_state c = BuildingHeader buf \<Longrightarrow> poll_next E cv c = (c\<lparr>source := s\<rparr>, Ready None)"
    "r = Ready None \<Longrightarrow> chunk_state c = BuildingCluster h buf \<Longrightarrow> poll_next E cv c =
      (case flush_turn E h buf of
         Continue st \<Rightarrow> (c\<lparr>source := s, chunk_state := st\<rparr>, Ready None)
       | Return st r \<Rightarrow> (c\<lparr>source := s, chunk_state := st\<rparr>, Ready (Some r)))"
  using assms by (subst poll_next.simps, simp split: turn.split)+

text \<open>Induction along the loop of \<open>poll_next\<close>, one case per result of the parser.\<close>

lemma poll_next_induct [consumes 0, case_names finished element failed pending ended]:
  fixes c :: "'e chunker" and cv :: "'e \<Rightarrow> 'x webmetro_error"
  assumes "\<And>c. chunk_state c = End \<Longrightarrow> P c"
    and "\<And>c s el. chunk_state c \<noteq> End \<Longrightarrow>
      poll_event (webm_from_ebml E) cv (source c) = (s, Ready (Some (Ok el))) \<Longrightarrow>
      (\<And>st. element_turn E (chunk_size_limit c) (chunk_state c) el = (Continue st :: 'x turn) \<Longrightarrow>
        P (c\<lparr>source := s, chunk_state := st\<rparr>)) \<Longrightarrow> P c"
    and "\<And>c s r. chunk_state c \<noteq> End \<Longrightarrow>
      poll_event (webm_from_ebml E) cv (source c) = (s, Ready (Some r)) \<Longrightarrow> (\<nexists>el. r = Ok el) \<Longrightarrow> P c"
    and "\<And>c s. chunk_state c \<noteq> End \<Longrightarrow>
      poll_event (webm_from_ebml E) cv (source c) = (s, Pending) \<Longrightarrow> P c"
    and "\<And>c s. chunk_state c \<noteq> End \<Longrightarrow>
      poll_event (webm_from_ebml E) cv (source c) = (s, Ready None) \<Longrightarrow> P c"
  shows "P c"
proof (induction "length (input (source c))" arbitrary: c rule: less_induct)
  case (less c)
  obtain s r where poll: "poll_event (webm_from_ebml E) cv (source c) = (s, r)"
    by (cases "poll_event (webm_from_ebml E) cv (source c)")
  consider "chunk_state c = End" | el where "chunk_state c \<noteq> End" "r = Ready (Some (Ok el))"
    | o' where "chunk_state c \<noteq> End" "r = Ready (Some o')" "\<nexists>el. o' = Ok el"
    | "chunk_state c \<noteq> End" "r = Pending" | "chunk_state c \<noteq> End" "r = Ready None"
    by (cases r) (blast, metis not_None_eq)
  then show ?case
  proof cases
    case (2 el)
    with poll have ev: "poll_event (webm_from_ebml E) cv (source c) = (s, Ready (Some (Ok el)))"
      by simp
    have "P (c\<lparr>source := s, chunk_state := st\<rparr>)" for st
      by (rule less) (use poll_event_element_decreases [OF ev] in simp)
    with 2(1) ev show ?thesis by (rule assms(2))
  next
    case (3 o')
    with poll show ?thesis by (intro assms(3) [of c s o']) simp_all
  next
    case 4
    with poll show ?thesis by (intro assms(4) [of c s]) simp_all
  next
    case 5
    with poll show ?thesis by (intro assms(5) [of c s]) simp_all
  qed (rule assms(1))
qed

lemma poll_next_work:
  fixes cv :: "'e \<Rightarrow> 'x webmetro_error"
  assumes "poll_next E cv c = (c', r)" "r = Pending \<or> (\<exists>ch. r = Ready (Some (Ok ch)))"
  shows "work_left c' < work_left c"
  using assms
proof (induction c arbitrary: c' r rule: poll_next_induct [where E = E and cv = cv])
  case (finished c)
  then show ?case by (auto simp: poll_next_End)
next
  case (element c s el)
  have less: "work_left (c\<lparr>source := s, chunk_state := st\<rparr>) < work_left c" for st
    using poll_event_element_decreases [OF element(2)] poll_event_stream [OF element(2)]
    by (simp add: work_left_def)
  note next_c = poll_next_element [OF element(2,1)]
  show ?case
  proof (cases "element_turn E (chunk_size_limit c) (chunk_state c) el :: 'x turn")
    case (Continue st)
    with element(4) next_c have "poll_next E cv (c\<lparr>source := s, chunk_state := st\<rparr>) = (c', r)"
      by simp
    from element(3) [OF Continue this element(5)] less [of st] show ?thesis
      by (rule less_trans)
  next
    case (Return st r')
    with element(4) next_c less [of st] show ?thesis by auto
  qed
next
  case (pending c s)
  then show ?case
    using poll_event_input(1) [OF pending(2)] by (auto simp: poll_next_other work_left_def)
next
  case (ended c s)
  then show ?case
    using poll_event_input(2) [OF ended(2)]
    by (cases "chunk_state c") (auto simp: poll_next_other work_left_def flush_turn_Ok split: turn.splits)
next
  case (failed c s r0)
  then show ?case by (cases r0) (auto simp: poll_next_other)
qed

function all_chunks ::
    "rt \<Rightarrow> ('e \<Rightarrow> 'x webmetro_error) \<Rightarrow> 'e chunker \<Rightarrow> chunk list \<times> ('x webmetro_error, unit) outcome" where
  "all_chunks E cv c =
    (case poll_next E cv c of
       (c', Ready (Some (Ok ch))) \<Rightarrow> (case all_chunks E cv c' of (chs, r) \<Rightarrow> (ch # chs, r))
     | (_, Ready (Some (Err e))) \<Rightarrow> ([], Err e)
     | (_, Ready (Some Panic)) \<Rightarrow> ([], Panic)
     | (_, Ready None) \<Rightarrow> ([], Ok ())
     | (c', Pending) \<Rightarrow> all_chunks E cv c')"
  by pat_completeness auto
termination
  by (relation "measure (\<lambda>(E, cv, c). work_left c)") (auto dest: poll_next_work [OF sym])

declare all_chunks.simps [simp del]

section \<open>The chunks of a run are the groups of its events\<close>

lemma all_chunks_element:
  fixes cv :: "'e \<Rightarrow> 'x webmetro_error"
  assumes "poll_event (webm_from_ebml E) cv (source c) = (s, Ready (Some (Ok el)))" "chunk_state c \<noteq> End"
  shows "all_chunks E cv c =
    (case element_turn E (chunk_size_limit c) (chunk_state c) el of
       Continue st \<Rightarrow> all_chunks E cv (c\<lparr>source := s, chunk_state := st\<rparr>)
     | Return st (Ok ch) \<Rightarrow>
         (case all_chunks E cv (c\<lparr>source := s, chunk_state := st\<rparr>) of (chs, r) \<Rightarrow> (ch # chs, r))
     | Return st (Err e) \<Rightarrow> ([], Err e)
     | Return st Panic \<Rightarrow> ([], Panic))"
proof (cases "element_turn E (chunk_size_limit c) (chunk_state c) el :: 'x turn")
  case (Continue st)
  then have "poll_next E cv c = poll_next E cv (c\<lparr>source := s, chunk_state := st\<rparr>)"
    using poll_next_element [OF assms] by simp
  then have "all_chunks E cv c = all_chunks E cv (c\<lparr>source := s, chunk_state := st\<rparr>)"
    by (subst (1 2) all_chunks.simps) simp
  with Continue show ?thesis by simp
next
  case (Return st r)
  then show ?thesis
    using poll_next_element [OF assms] by (subst all_chunks.simps) (simp split: outcome.split)
qed

lemma all_chunks_End: "chunk_state c = End \<Longrightarrow> all_chunks E cv c = ([], Ok ())"
  by (subst all_chunks.simps) (simp add: poll_next_End)

lemma building_state_not_End [simp]: "building_state b \<noteq> End" "End \<noteq> building_state b"
  by (cases b; simp)+

lemma feed_keeps:
  assumes "feed b el = (b', g)" "well_timed (elements_of b)" "forwardable el"
  shows "well_timed (elements_of b')"
    "length (building_bytes b') \<le> length (building_bytes b) + length (webm_bytes el)"
  using assms by (induction b el rule: feed.induct) (auto simp: well_timed_def)

context big_endian
begin

lemma all_chunks_ended:
  assumes "poll_event (webm_from_ebml E) cv (source c) = (s, Ready None)" "chunk_state c = building_state b"
  shows "all_chunks E cv c = (map realize (last_group b), Ok ())"
proof (cases b)
  case (InHeader els)
  then have "poll_next E cv c = (c\<lparr>source := s\<rparr>, Ready None)"
    using assms by (intro poll_next_other(4)) simp_all
  with InHeader show ?thesis by (subst all_chunks.simps) simp
next
  case (InCluster els)
  then have "poll_next E cv c =
      (c\<lparr>source := s, chunk_state := End\<rparr>, Ready (Some (Ok (realize (ClusterGroup els)))))"
    using poll_next_other(5) [OF assms(1)] assms(2) by (simp add: flush_turn_eq)
  with InCluster show ?thesis
    by (subst all_chunks.simps) (simp add: all_chunks_End)
qed

end

text \<open>
  A chunker without limits at the building \<open>b\<close>, with the events \<open>els\<close> and the end \<open>r\<close> of its
  input to come.
\<close>

definition stands_at ::
    "rt \<Rightarrow> 'e chunker \<Rightarrow> building \<Rightarrow> webm_element list \<Rightarrow> (ebml_error, unit) outcome \<Rightarrow> bool" where
  "stands_at E c b els r \<longleftrightarrow>
    chunk_size_limit c = None \<and> buffer_size_limit (source c) = None \<and>
    (\<forall>e. SourceErr e \<notin> set (stream (source c))) \<and> chunk_state c = building_state b \<and>
    whole_events (webm_from_ebml E) (input (source c)) = (els, r)"

text \<open>Until the parser has a result, polls change only the script.\<close>

lemma stands_at_ready:
  fixes cv :: "'e \<Rightarrow> 'x webmetro_error"
  assumes "stands_at E c b els r"
  obtains c' s x where "stands_at E c' b els r" "all_chunks E cv c' = all_chunks E cv c"
    "poll_event (webm_from_ebml E) cv (source c') = (s, Ready x)"
  using assms
proof (induction "work_left c" arbitrary: c thesis rule: less_induct)
  case (less c)
  let ?F = "webm_from_ebml E"
  obtain s x where poll: "poll_event ?F cv (source c) = (s, x)" by (cases "poll_event ?F cv (source c)")
  show ?case
  proof (cases x)
    case Pending
    have "chunk_state c \<noteq> End" using less.prems(2) by (simp add: stands_at_def)
    then have nxt: "poll_next E cv c = (c\<lparr>source := s\<rparr>, Pending)"
      using poll_next_other(3) [OF poll] Pending by simp
    have "input s = input (source c)" using poll_event_input(1) poll Pending by blast
    moreover have "buffer_size_limit s = buffer_size_limit (source c)" "set (stream s) \<subseteq> set (stream (source c))"
      using poll_event_frame [OF poll] by simp_all
    ultimately have "stands_at E (c\<lparr>source := s\<rparr>) b els r"
      using less.prems(2) by (auto simp: stands_at_def)
    moreover have "all_chunks E cv (c\<lparr>source := s\<rparr>) = all_chunks E cv c"
      by (subst (2) all_chunks.simps) (simp add: nxt)
    ultimately show ?thesis
      using less.hyps [OF poll_next_work [OF nxt]] less.prems(1) by (metis (no_types))
  next
    case (Ready o')
    with less.prems poll show ?thesis by blast
  qed
qed

context big_endian
begin

text \<open>At the end of the events the last cluster is flushed, or the error of the parser passed on.\<close>

lemma all_chunks_at_end:
  fixes cv :: "'e \<Rightarrow> 'x webmetro_error"
  assumes "stands_at E c b [] r"
  shows "all_chunks E cv c = (map realize (if r = Ok () then last_group b else []), map_err EbmlError r)"
proof -
  let ?F = "webm_from_ebml E"
  obtain c' s x where c': "stands_at E c' b [] r" "all_chunks E cv c' = all_chunks E cv c"
    "poll_event ?F cv (source c') = (s, Ready x)"
    using stands_at_ready [OF assms] .
  note sound = poll_event_sound [OF c'(3)]
  have events: "whole_events ?F (input (source c')) = ([], r)" and busy: "chunk_state c' \<noteq> End"
    and frame: "buffer_size_limit (source c') = None" "\<And>e. SourceErr e \<notin> set (stream (source c'))"
    using c'(1) by (simp_all add: stands_at_def)
  note events = events [unfolded whole_events.simps [of ?F "input (source c')"]]
  have "all_chunks E cv c' = (map realize (if r = Ok () then last_group b else []), map_err EbmlError r)"
  proof (cases x)
    case None
    with sound events have "r = Ok ()" by (auto simp: event_sound_def)
    then show ?thesis
      using all_chunks_ended [of cv c' s b] c' None by (simp add: stands_at_def)
  next
    case (Some res)
    show ?thesis
    proof (cases res)
      case (Ok el)
      with Some sound events show ?thesis by (auto simp: event_sound_def split: prod.splits)
    next
      case (Err e)
      with Some sound frame obtain e' where e: "e = EbmlError e'" "decode_element ?F (input (source c')) = Err e'"
        by (auto simp: event_sound_def)
      moreover have "poll_next E cv c' = (c'\<lparr>source := s\<rparr>, Ready (Some (Err e)))"
        using poll_next_other(1) [OF c'(3) busy] Some Err by simp
      moreover have "r = Err e'" using events e(2) by simp
      ultimately show ?thesis by (subst all_chunks.simps) simp
    next
      case Panic
      with Some sound webm.decode_element_no_panic show ?thesis by (auto simp: event_sound_def)
    qed
  qed
  with c'(2) show ?thesis by simp
qed

text \<open>Before that, the parser hands on the events one by one.\<close>

lemma all_chunks_next:
  fixes cv :: "'e \<Rightarrow> 'x webmetro_error"
  assumes "stands_at E c b (el # els) r"
  obtains c' where "\<And>b'. stands_at E (c'\<lparr>chunk_state := building_state b'\<rparr>) b' els r"
    "all_chunks E cv c =
      (case element_turn E None (building_state b) el of
         Continue st \<Rightarrow> all_chunks E cv (c'\<lparr>chunk_state := st\<rparr>)
       | Return st (Ok ch) \<Rightarrow> (case all_chunks E cv (c'\<lparr>chunk_state := st\<rparr>) of (chs, r) \<Rightarrow> (ch # chs, r))
       | Return st (Err e) \<Rightarrow> ([], Err e)
       | Return st Panic \<Rightarrow> ([], Panic))"
proof -
  let ?F = "webm_from_ebml E"
  obtain c0 s x where c0: "stands_at E c0 b (el # els) r" "all_chunks E cv c0 = all_chunks E cv c"
    "poll_event ?F cv (source c0) = (s, Ready x)"
    using stands_at_ready [OF assms] .
  note sound = poll_event_sound [OF c0(3)] and frame = poll_event_frame [OF c0(3)]
  have c0D: "whole_events ?F (input (source c0)) = (el # els, r)" "chunk_state c0 \<noteq> End"
    "chunk_state c0 = building_state b" "chunk_size_limit c0 = None" "buffer_size_limit (source c0) = None"
    "\<And>e. SourceErr e \<notin> set (stream (source c0))"
    using c0(1) by (simp_all add: stands_at_def)
  note events = c0D(1) [unfolded whole_events.simps [of ?F "input (source c0)"]]
  obtain n where n: "decode_element ?F (input (source c0)) = Ok (Some (el, n))"
      "whole_events ?F (drop n (input (source c0))) = (els, r)"
    using events by (auto split: outcome.splits option.splits prod.splits)
  then have x: "x = Some (Ok el)" "input s = drop n (input (source c0))"
    using sound c0D(5,6) by (auto simp: event_sound_def split: option.splits outcome.splits)
  show ?thesis
  proof (rule that [of "c0\<lparr>source := s\<rparr>"])
    show "stands_at E (c0\<lparr>source := s, chunk_state := building_state b'\<rparr>) b' els r" for b'
      using frame c0D n(2) x(2) by (auto simp: stands_at_def)
    show "all_chunks E cv c =
      (case element_turn E None (building_state b) el of
         Continue st \<Rightarrow> all_chunks E cv (c0\<lparr>source := s, chunk_state := st\<rparr>)
       | Return st (Ok ch) \<Rightarrow>
           (case all_chunks E cv (c0\<lparr>source := s, chunk_state := st\<rparr>) of (chs, r) \<Rightarrow> (ch # chs, r))
       | Return st (Err e) \<Rightarrow> ([], Err e)
       | Return st Panic \<Rightarrow> ([], Panic))"
      using all_chunks_element [of E cv c0 s el] c0(2,3) c0D(2,3,4) x(1) by simp
  qed
qed

text \<open>What the chunker makes of events the writers accept, whatever follows.\<close>

lemma all_chunks_prefix:
  fixes cv :: "'e \<Rightarrow> 'x webmetro_error"
  assumes "stands_at E c b (els @ rest) r" "well_timed (elements_of b)" "well_timed els"
    and "length (building_bytes b) + length (written_bytes els) < 2 ^ 64" "groups b els = (gs, b')"
  obtains c' where "stands_at E c' b' rest r" "well_timed (elements_of b')"
    "all_chunks E cv c = (case all_chunks E cv c' of (chs, x) \<Rightarrow> (map realize gs @ chs, x))"
  using assms
proof (induction els arbitrary: c b gs thesis)
  case Nil
  then show ?case by (auto simp: split_beta)
next
  case (Cons el els)
  have el: "forwardable el" "well_timed els"
    using Cons.prems(4) by (simp_all add: well_timed_def)
  obtain b1 g where feed: "feed b el = (b1, g)" by (cases "feed b el")
  note keeps = feed_keeps [OF feed Cons.prems(3) el(1)]
  have turn: "element_turn E None (building_state b) el =
      ((case g of None \<Rightarrow> Continue (building_state b1)
        | Some g \<Rightarrow> Return (building_state b1) (Ok (realize g))) :: 'x turn)"
    using element_turn_refines [OF Cons.prems(3) el(1)] Cons.prems(5) feed by simp
  obtain gs1 where gs1: "groups b1 els = (gs1, b')" "gs = (case g of None \<Rightarrow> gs1 | Some g \<Rightarrow> g # gs1)"
    using Cons.prems(6) feed by (auto split: option.splits prod.splits)
  obtain c1 where c1: "\<And>b'. stands_at E (c1\<lparr>chunk_state := building_state b'\<rparr>) b' (els @ rest) r"
    "all_chunks E cv c =
      (case element_turn E None (building_state b) el of
         Continue st \<Rightarrow> all_chunks E cv (c1\<lparr>chunk_state := st\<rparr>)
       | Return st (Ok ch) \<Rightarrow> (case all_chunks E cv (c1\<lparr>chunk_state := st\<rparr>) of (chs, r) \<Rightarrow> (ch # chs, r))
       | Return st (Err e) \<Rightarrow> ([], Err e)
       | Return st Panic \<Rightarrow> ([], Panic))"
    using all_chunks_next [OF Cons.prems(2) [unfolded append_Cons], where cv = cv] by blast
  have "length (building_bytes b1) + length (written_bytes els) < 2 ^ 64"
    using keeps(2) Cons.prems(5) by simp
  from Cons.IH [OF _ c1(1) keeps(1) el(2) this gs1(1)] obtain c' where
    "stands_at E c' b' rest r" "well_timed (elements_of b')"
    "all_chunks E cv (c1\<lparr>chunk_state := building_state b1\<rparr>) =
      (case all_chunks E cv c' of (chs, x) \<Rightarrow> (map realize gs1 @ chs, x))" .
  with Cons.prems(1) [of c'] c1(2) gs1(2) turn show ?case
    by (cases g) (simp_all split: prod.splits)
qed

lemma all_chunks_groups:
  fixes cv :: "'e \<Rightarrow> 'x webmetro_error"
  assumes "stands_at E c b els r" "well_timed (elements_of b)" "well_timed els"
    and "length (building_bytes b) + length (written_bytes els) < 2 ^ 64"
  shows "all_chunks E cv c =
    (case groups b els of (gs, b') \<Rightarrow>
       (map realize (gs @ (if r = Ok () then last_group b' else [])), map_err EbmlError r))"
proof -
  obtain gs b' where gs: "groups b els = (gs, b')" by (cases "groups b els")
  obtain c' where "stands_at E c' b' [] r"
    "all_chunks E cv c = (case all_chunks E cv c' of (chs, x) \<Rightarrow> (map realize gs @ chs, x))"
    using all_chunks_prefix [of c b els "[]" r gs b', where cv = cv] assms gs by auto
  with all_chunks_at_end [of c' b' r cv] gs show ?thesis by simp
qed

text \<open>A block of a track the writers refuse ends the stream; the chunk at hand is lost.\<close>

lemma element_turn_refused:
  assumes "well_timed (elements_of b)" "31 < track blk" "0 \<le> sint (timecode blk)"
  shows "element_turn E None (building_state b) (SimpleBlock blk) = Return End (Err (IoError out_of_range))"
proof -
  have "encode_webm_element E vec_writer (SimpleBlock blk) t = (t, Err out_of_range)" for t
    using assms(2) by (intro encode_webm_element_refused [where i = 0 and b = blk]) simp
  with assms show ?thesis
    by (cases b) (simp_all add: header_turn_def cluster_turn_def block_turn_def encode_limited_def Let_def
        observe_group_head del: encode_webm_element.simps)
qed

lemma all_chunks_refused:
  fixes cv :: "'e \<Rightarrow> 'x webmetro_error"
  assumes "stands_at E c b (els @ SimpleBlock blk # rest) r" "well_timed (elements_of b)" "well_timed els"
    and "length (building_bytes b) + length (written_bytes els) < 2 ^ 64" "groups b els = (gs, b')"
    and "31 < track blk" "0 \<le> sint (timecode blk)"
  shows "all_chunks E cv c = (map realize gs, Err (IoError out_of_range))"
proof -
  obtain c' where c': "stands_at E c' b' (SimpleBlock blk # rest) r" "well_timed (elements_of b')"
    "all_chunks E cv c = (case all_chunks E cv c' of (chs, x) \<Rightarrow> (map realize gs @ chs, x))"
    using all_chunks_prefix [OF assms(1-5), where cv = cv] by blast
  have "all_chunks E cv c' = ([], Err (IoError out_of_range))"
    by (rule all_chunks_next [OF c'(1), where cv = cv]) (simp add: element_turn_refused [OF c'(2) assms(6,7)])
  with c'(3) show ?thesis by simp
qed

end

section \<open>The chunks read back\<close>

text \<open>The events a group stands for when its chunk is parsed again.\<close>

definition kept :: "webm_element list \<Rightarrow> webm_element list" where
  "kept els = filter (\<lambda>el. webm_bytes el \<noteq> []) els"

fun group_events :: "group \<Rightarrow> webm_element list" where
  "group_events (HeaderGroup els) = kept els"
| "group_events (ClusterGroup els) =
    Cluster # Timecode (group_start els) # kept (body_elements els)"

fun group_elements :: "group \<Rightarrow> webm_element list" where
  "group_elements (HeaderGroup els) = els"
| "group_elements (ClusterGroup els) = els"

lemma kept_simps [simp]:
  "kept [] = []"
  "kept (el # els) = (if webm_bytes el = [] then kept els else el # kept els)"
  by (simp_all add: kept_def)

lemma forwardable_writable: "forwardable el \<Longrightarrow> webm_bytes el \<noteq> [] \<Longrightarrow> writable el"
  by (cases el) auto

lemma well_timed_body: "well_timed els \<Longrightarrow> well_timed (body_elements els)"
  by (auto simp: well_timed_def body_elements_def)

definition chunks_bytes :: "chunk list \<Rightarrow> bytes" where
  "chunks_bytes chs = concat (concat (map chunk_pieces chs))"

lemma chunks_bytes_simps [simp]:
  "chunks_bytes [] = []"
  "chunks_bytes (ch # chs) = concat (chunk_pieces ch) @ chunks_bytes chs"
  by (simp_all add: chunks_bytes_def)

context big_endian
begin

lemma whole_events_Nil [simp]: "whole_events F [] = ([], Ok ())"
  by (subst whole_events.simps) (simp add: decode_element_eq)

lemma whole_events_written:
  assumes "well_timed els"
  shows "whole_events (webm_from_ebml E) (written_bytes els @ ys) =
    (case whole_events (webm_from_ebml E) ys of (es, r) \<Rightarrow> (kept els @ es, r))"
  using assms
proof (induction els)
  case Nil
  then show ?case by (simp split: prod.split)
next
  case (Cons el els)
  show ?case
  proof (cases "webm_bytes el = []")
    case True
    with Cons show ?thesis by (simp add: well_timed_def)
  next
    case False
    with Cons.prems have "writable el"
      by (auto simp: well_timed_def intro: forwardable_writable)
    then have "decode_element (webm_from_ebml E) (written_bytes (el # els) @ ys) =
        Ok (Some (el, length (webm_bytes el)))"
      using decode_webm_bytes [OF _ False] by simp
    moreover have "well_timed els" using Cons.prems by (simp add: well_timed_def)
    ultimately show ?thesis
      using Cons.IH False
      by (subst whole_events.simps) (simp split: prod.split)
  qed
qed

lemma whole_events_head:
  "whole_events (webm_from_ebml E) (head_image t @ ys) =
    (case whole_events (webm_from_ebml E) ys of (es, r) \<Rightarrow> (Cluster # Timecode t # es, r))"
proof -
  have dec: "decode_element (webm_from_ebml E) (webm_bytes Cluster @ zs) = Ok (Some (Cluster, length (webm_bytes Cluster)))"
    "decode_element (webm_from_ebml E) (webm_bytes (Timecode t) @ zs) =
      Ok (Some (Timecode t, length (webm_bytes (Timecode t))))" for zs
    by (rule decode_webm_bytes; simp add: length_Cluster_bytes flip: length_0_conv del: webm_bytes.simps)+
  have "whole_events (webm_from_ebml E) (webm_bytes (Timecode t) @ ys) =
      (case whole_events (webm_from_ebml E) ys of (es, r) \<Rightarrow> (Timecode t # es, r))"
    by (subst whole_events.simps) (simp add: dec(2) del: webm_bytes.simps split: prod.split)
  moreover have "whole_events (webm_from_ebml E) (webm_bytes Cluster @ webm_bytes (Timecode t) @ ys) =
      (case whole_events (webm_from_ebml E) (webm_bytes (Timecode t) @ ys) of (es, r) \<Rightarrow> (Cluster # es, r))"
    by (subst whole_events.simps) (simp add: dec(1) del: webm_bytes.simps split: prod.split)
  ultimately show ?thesis
    by (simp add: head_image_def del: webm_bytes.simps split: prod.split)
qed

lemma groups_read_back:
  assumes "\<And>g. g \<in> set gs \<Longrightarrow> well_timed (group_elements g)"
  shows "whole_events (webm_from_ebml E) (chunks_bytes (map realize gs)) =
    (concat (map group_events gs), Ok ())"
  using assms
proof (induction gs)
  case (Cons g gs)
  then have "well_timed (group_elements g)" by simp
  with Cons show ?case
    by (cases g) (simp_all add: whole_events_written whole_events_head group_head_def well_timed_body
        split: prod.split)
qed simp

end

lemma groups_well_timed:
  assumes "groups b els = (gs, b')" "well_timed (elements_of b)" "well_timed els"
  shows "g \<in> set (gs @ last_group b') \<Longrightarrow> well_timed (group_elements g)"
  using assms
proof (induction b els arbitrary: gs rule: groups.induct)
  case (1 b)
  then show ?case by (cases b) auto
next
  case (2 b el els)
  obtain b1 h where feed: "feed b el = (b1, h)" by (cases "feed b el")
  have el: "forwardable el" "well_timed els" using "2.prems" by (simp_all add: well_timed_def)
  have b1: "well_timed (elements_of b1)"
    using feed_keeps [OF feed] el "2.prems" by simp
  have h: "well_timed (group_elements g)" if "h = Some g"
    using feed that "2.prems" by (induction b el rule: feed.induct) auto
  show ?case
    using "2.IH" "2.prems" feed el b1 h
    by (cases h) (fastforce split: prod.splits)+
qed

end
