(* ===== verification/Chunk_Bounds.thy ===== *)
theory Chunk_Bounds
  imports Chunk_Stream
begin

text \<open>
  What holds of the chunker on any input: the heads of the clusters it emits are well
  formed, re-encoding an event never makes it larger than 15 bytes or its original, and
  with soft limits on parser and chunker every chunk is bounded.
\<close>

section \<open>Heads\<close>

text \<open>
  A head's bytes are those of its start, and where arithmetic is checked a cluster does not
  end before it starts.
\<close>

definition head_ok :: "rt \<Rightarrow> cluster_head \<Rightarrow> bool" where
  "head_ok E h \<longleftrightarrow>
    head_bytes h = head_image (start h) \<and> (overflow_checks E \<longrightarrow> start h \<le> end_time h)"

fun state_heads_ok :: "rt \<Rightarrow> chunker_state \<Rightarrow> bool" where
  "state_heads_ok E (BuildingCluster h _) = head_ok E h"
| "state_heads_ok E _ = True"

fun chunk_head_ok :: "rt \<Rightarrow> chunk \<Rightarrow> bool" where
  "chunk_head_ok E (ClusterChunk h _) = head_ok E h"
| "chunk_head_ok E _ = True"

fun turn_heads_ok :: "rt \<Rightarrow> 'x turn \<Rightarrow> bool" where
  "turn_heads_ok E (Continue st) = state_heads_ok E st"
| "turn_heads_ok E (Return st (Ok ch)) \<longleftrightarrow> state_heads_ok E st \<and> chunk_head_ok E ch"
| "turn_heads_ok E (Return st _) \<longleftrightarrow> True"

lemma written_heads_ok:
  "(\<And>c. state_heads_ok E (st c)) \<Longrightarrow> turn_heads_ok E (written st p)"
  by (cases p; cases "snd p") auto

lemma keyframe_head_ok [simp]: "head_ok E (h\<lparr>keyframe := k\<rparr>) = head_ok E h"
  by (simp add: head_ok_def)

context big_endian
begin

lemma fresh_head_ok: "cluster_head_new E 0 = Ok h \<Longrightarrow> head_ok E h"
  by (auto simp: cluster_head_new_eq head_ok_def)

lemma update_head_ok: "update_timecode E t h = Ok h' \<Longrightarrow> head_ok E h'"
  by (auto simp: head_ok_def update_timecode_eq and_then_Ok_iff add_u64_def word_le_nat_alt
      unat_add_u64 not_le split: if_splits)

lemma observe_head_ok:
  "observe_simpleblock_timecode E tc h = Ok h' \<Longrightarrow> head_ok E h \<Longrightarrow> head_ok E h'"
  by (auto simp: observe_simpleblock_timecode_def head_ok_def and_then_Ok_iff split: if_splits)

lemma element_turn_heads_ok:
  assumes "state_heads_ok E st"
  shows "turn_heads_ok E (element_turn E limit st el)"
proof (cases st)
  case (BuildingHeader c)
  then show ?thesis
    by (auto simp: header_turn_def Let_def written_heads_ok fresh_head_ok
        split: webm_element.split outcome.split)
next
  case (BuildingCluster h c)
  have block: "turn_heads_ok E (block_turn E limit h c b)" for b
    using assms BuildingCluster
    by (auto simp: block_turn_def Let_def intro!: written_heads_ok dest: observe_head_ok split: outcome.split)
  have header: "turn_heads_ok E (new_header_turn E limit h c el)"
    using assms BuildingCluster
    by (auto simp: new_header_turn_def liberate_def split: outcome.split prod.split)
  show ?thesis
    using assms BuildingCluster block header
    by (auto simp: cluster_turn_def liberate_def fresh_head_ok update_head_ok written_heads_ok
        split: webm_element.split outcome.split)
qed (use assms in simp)

lemma poll_next_heads_ok:
  fixes cv :: "'e \<Rightarrow> 'x webmetro_error"
  assumes "poll_next E cv c = (c', r)" "state_heads_ok E (chunk_state c)"
    "r = Pending \<or> r = Ready None \<or> (\<exists>ch. r = Ready (Some (Ok ch)))"
  shows "state_heads_ok E (chunk_state c') \<and> (\<forall>ch. r = Ready (Some (Ok ch)) \<longrightarrow> chunk_head_ok E ch)"
  using assms
proof (induction c arbitrary: c' r rule: poll_next_induct [where E = E and cv = cv])
  case (finished c)
  then show ?case by (auto simp: poll_next_End)
next
  case (element c s el)
  note next_c = poll_next_element [OF element(2,1)]
  note ok = element_turn_heads_ok [OF element(5), of "chunk_size_limit c" el, where ?'a = 'x]
  show ?case
  proof (cases "element_turn E (chunk_size_limit c) (chunk_state c) el :: 'x turn")
    case (Continue st)
    with element(3) [OF Continue] element(4,6) ok next_c show ?thesis by simp
  next
    case (Return st r')
    with element(4,6) ok next_c show ?thesis by auto
  qed
next
  case (failed c s r0)
  then show ?case by (cases r0) (auto simp: poll_next_other)
next
  case (pending c s)
  then show ?case by (auto simp: poll_next_other)
next
  case (ended c s)
  then show ?case by (cases "chunk_state c") (auto simp: poll_next_other flush_turn_eq)
qed

lemma all_chunks_heads_ok:
  fixes cv :: "'e \<Rightarrow> 'x webmetro_error"
  assumes "state_heads_ok E (chunk_state c)" "ch \<in> set (fst (all_chunks E cv c))"
  shows "chunk_head_ok E ch"
  using assms
proof (induction "work_left c" arbitrary: c rule: less_induct)
  case (less c)
  obtain c' r where nxt: "poll_next E cv c = (c', r)" by (cases "poll_next E cv c")
  show ?case
  proof (cases "r = Pending \<or> (\<exists>ch. r = Ready (Some (Ok ch)))")
    case True
    have "r = Pending \<or> r = Ready None \<or> (\<exists>ch. r = Ready (Some (Ok ch)))" using True by blast
    note ok = poll_next_heads_ok [OF nxt less.prems(1) this]
    with less.hyps [OF poll_next_work [OF nxt True]] less.prems(2) True nxt show ?thesis
      by (subst (asm) all_chunks.simps) (auto split: prod.splits)
  next
    case False
    with less.prems(2) nxt show ?thesis
      by (subst (asm) all_chunks.simps) (auto split: poll.splits option.splits outcome.splits)
  qed
qed

end

section \<open>Re-encoding an event\<close>

lemma varint_size_mono: "v \<le> w \<Longrightarrow> varint_size v \<le> varint_size w"
  by (simp add: varint_size_def)

text \<open>A decoded varint is never longer when written again.\<close>

lemma varint_size_decoded:
  assumes "decode_varint bs = Ok (Some (Value w, n))"
  shows "varint_size (unat w) \<le> n"
proof (rule ccontr)
  assume "\<not> varint_size (unat w) \<le> n"
  then have "2 ^ (7 * n) - 1 \<le> unat w"
    using varint_size_least [of n "unat w"] decode_varint_Some(1) [OF assms] by simp
  moreover have "unat w < 2 ^ (7 * n) - 1"
    using decode_varint_Some(4) [OF assms] by blast
  ultimately show False by simp
qed

lemma length_varint_decoded:
  "decode_varint bs = Ok (Some (Value w, n)) \<Longrightarrow> length (varint_bytes (Value w)) \<le> n"
  using varint_size_decoded by (simp add: varint_bytes.simps)

lemma decode_simple_block_Ok:
  assumes "decode_simple_block E bs = Ok el"
  obtains b n where "el = SimpleBlock b" "decode_varint bs = Ok (Some (Value (track b), n))"
    "n + 3 + length (data b) = length bs"
  using assms
  by (fastforce simp: decode_simple_block_def Let_def and_then_Ok_iff slice_from_def
      split: outcome.splits option.splits varint.splits prod.splits if_splits)

lemma block_bytes_decoded:
  assumes "decode_varint bs = Ok (Some (Value (track b), n))" "n + 3 + length (data b) = length bs"
  shows "length (block_bytes b) \<le> length bs"
  using length_varint_decoded [OF assms(1)] assms(2) by (simp add: block_bytes_def)

text \<open>An element with a sized body, written again with a body that is no longer.\<close>

lemma element_bytes_decoded:
  assumes "decode_tag bs = Ok (Some (eid, len, h))" "payload_size False len = Ok sz" "length body \<le> sz"
  shows "length (element_bytes eid body) \<le> h + sz"
proof -
  obtain n m where nm: "decode_varint bs = Ok (Some (Value eid, n))"
    "decode_varint (drop n bs) = Ok (Some (len, m))" "h = n + m"
    using assms(1) by (auto simp: decode_tag_Some_iff)
  obtain w where w: "len = Value w" "sz = unat w"
    using assms(2) by (cases len) auto
  have "unat w < 2 ^ 64"
    using unsigned_less [of w, where ?'a = nat] by simp
  then have "unat (of_nat (length body) :: u64) = length body"
    using assms(3) w(2) by (simp add: unat_of_nat)
  then have "length (varint_bytes (Value (of_nat (length body)))) \<le> m"
    using varint_size_decoded [of "drop n bs" w m] varint_size_mono [OF assms(3)] nm(2) w
    by (simp add: varint_bytes.simps)
  moreover have "length (varint_bytes (Value eid)) \<le> n"
    using nm(1) by (rule length_varint_decoded)
  ultimately show ?thesis
    using assms(3) nm(3) by (simp add: element_bytes_def tag_header_bytes_def)
qed

lemma length_fixed_bytes:
  "length (webm_bytes EbmlHead) = 15" "length (webm_bytes Segment) = 5"
proof -
  have "length (varint_bytes (Value EBML_HEAD_ID)) = 4"
    by (simp add: varint_bytes.simps varint_size_def EBML_HEAD_ID_def)
  then show "length (webm_bytes EbmlHead) = 15"
    by (simp add: patched_element_bytes_def doc_type_bytes)
  show "length (webm_bytes Segment) = 5"
    by (simp add: tag_header_bytes_def varint_bytes.simps varint_size_def id_defs)
qed

lemma decoded_el:
  assumes "decode_element (webm_from_ebml E) bs = Ok (Some (el, n))"
  obtains eid len h sz where "decode_tag bs = Ok (Some (eid, len, h))"
    "payload_size (webm_should_unwrap eid) len = Ok sz" "n = h + sz" "n \<le> length bs"
    "webm_decode E eid (take sz (drop h bs)) = Ok el"
proof -
  obtain info where info: "check_space (webm_from_ebml E) bs = Ok (Some info)" "n = element_len info"
    "webm_decode E (element_id info)
       (take (element_len info - body_offset info) (drop (body_offset info) bs)) = Ok el"
    using assms by (auto simp: decode_element_eq webm_from_ebml_def and_then_Ok_iff
        split: outcome.splits option.splits)
  obtain len sz where
    "decode_tag bs = Ok (Some (element_id info, len, body_offset info))"
    "payload_size (webm_should_unwrap (element_id info)) len = Ok sz"
    "element_len info = body_offset info + sz" "element_len info \<le> length bs"
    using info(1) by (auto simp: check_space_Some_iff webm_from_ebml_def)
  with info(2,3) show ?thesis by (intro that) auto
qed

text \<open>The elements the writers refuse.\<close>

fun refused :: "webm_element \<Rightarrow> bool" where
  "refused (SimpleBlock b) \<longleftrightarrow> 31 < track b"
| "refused Void = True"
| "refused Info = True"
| "refused (UnknownElement _) = True"
| "refused _ = False"

lemma small_bytes:
  assumes "\<nexists>b. el = Tracks b" "\<nexists>b. el = SimpleBlock b"
  shows "length (webm_bytes el) \<le> 15" "refused el \<or> writable el"
  using assms length_fixed_bytes length_Cluster_bytes by (cases el; simp)+

lemma decoded_bytes:
  assumes "decode_element (webm_from_ebml E) bs = Ok (Some (el, n))"
  shows "length (webm_bytes el) \<le> max n 15" "refused el \<or> writable el"
proof -
  obtain eid len h sz where dec: "decode_tag bs = Ok (Some (eid, len, h))"
    "payload_size (webm_should_unwrap eid) len = Ok sz" "n = h + sz" "n \<le> length bs"
    "webm_decode E eid (take sz (drop h bs)) = Ok el"
    using assms by (rule decoded_el)
  define body where "body = take sz (drop h bs)"
  have body: "length body = sz"
    using dec(3,4) by (simp add: body_def)
  have sz: "sz < 2 ^ 56 - 1"
    using dec(2) by (rule payload_size_Ok) (use decode_tag_Some(5) [OF dec(1)] in auto)
  have "length (webm_bytes el) \<le> max n 15 \<and> (refused el \<or> writable el)"
  proof (cases el)
    case (Tracks bs')
    with dec(5) have el: "eid = TRACKS_ID" "bs' = body"
      by (auto simp: webm_decode_def body_def decode_simple_block_def and_then_Ok_iff Let_def
          split: if_splits outcome.splits option.splits varint.splits)
    then have "length (element_bytes eid body) \<le> h + sz"
      using dec(1,2) body by (intro element_bytes_decoded) simp_all
    with el Tracks body sz dec(3) show ?thesis by simp
  next
    case (SimpleBlock b)
    with dec(5) have eid: "eid = SIMPLE_BLOCK_ID" and blk: "decode_simple_block E body = Ok el"
      by (auto simp: webm_decode_def body_def and_then_Ok_iff split: if_splits)
    obtain k where k: "decode_varint body = Ok (Some (Value (track b), k))"
      "k + 3 + length (data b) = length body"
      using decode_simple_block_Ok [OF blk] SimpleBlock by auto
    have "length (element_bytes eid (block_bytes b)) \<le> h + sz"
      using dec(1,2) body block_bytes_decoded [OF k] eid by (intro element_bytes_decoded) simp_all
    moreover have "length (data b) + 5 < 2 ^ 56"
      using k(2) body sz decode_varint_Some(1) [OF k(1)] by simp
    ultimately show ?thesis
      using eid SimpleBlock dec(3) by (auto simp: not_less)
  qed (use small_bytes [of el] in simp_all)
  then show "length (webm_bytes el) \<le> max n 15" "refused el \<or> writable el"
    by simp_all
qed

section \<open>Soft limits bound every chunk\<close>

text \<open>
  With a limit \<open>l\<close> on the chunker and events of at most \<open>k\<close> bytes, a buffer holds at most
  \<open>l + k\<close> bytes: an event is only added below the limit.
\<close>

definition buffer_sized :: "nat \<Rightarrow> cursor \<Rightarrow> bool" where
  "buffer_sized B c \<longleftrightarrow> c = filled (get_ref c) \<and> length (get_ref c) \<le> B"

fun state_sized :: "nat \<Rightarrow> chunker_state \<Rightarrow> bool" where
  "state_sized B (BuildingHeader c) = buffer_sized B c"
| "state_sized B (BuildingCluster _ c) = buffer_sized B c"
| "state_sized B End = True"

fun chunk_sized :: "nat \<Rightarrow> chunk \<Rightarrow> bool" where
  "chunk_sized B (Headers bs) \<longleftrightarrow> length bs \<le> B"
| "chunk_sized B (ClusterChunk _ bs) \<longleftrightarrow> length bs \<le> B"
| "chunk_sized B (RemainingBody bs) \<longleftrightarrow> length bs \<le> B"
| "chunk_sized B EmptyChunk \<longleftrightarrow> True"

fun turn_sized :: "nat \<Rightarrow> 'x turn \<Rightarrow> bool" where
  "turn_sized B (Continue st) = state_sized B st"
| "turn_sized B (Return st (Ok ch)) \<longleftrightarrow> state_sized B st \<and> chunk_sized B ch"
| "turn_sized B (Return st _) \<longleftrightarrow> True"

lemma buffer_sized_Nil [simp]: "buffer_sized B (filled [])"
  by (simp add: buffer_sized_def)

lemma buffer_sized_length: "buffer_sized B c \<Longrightarrow> length (get_ref c) \<le> B"
  by (simp add: buffer_sized_def)

lemma refused_cases:
  assumes "refused el"
  shows "encode_webm_element E W el t = (t, Err out_of_range)"
  using assms encode_webm_element_refused [of el _ _ E W t] by (cases el) auto

context big_endian
begin

text \<open>What was decoded is refused or appended, in no more bytes than it was read from.\<close>

lemma reencoded:
  assumes "decode_element (webm_from_ebml E) bs = Ok (Some (el, n))" "length out + max n 15 < 2 ^ 64"
  shows "if refused el then encode_webm_element E vec_writer el (filled out) = (filled out, Err out_of_range)
    else \<exists>more. encode_webm_element E vec_writer el (filled out) = (filled (out @ more), Ok ()) \<and>
      length more \<le> max n 15"
proof (cases "refused el")
  case False
  with decoded_bytes [OF assms(1)] have "writable el" "length (webm_bytes el) \<le> max n 15" by simp_all
  with encode_vec [of el out] assms(2) False show ?thesis by auto
qed (simp add: refused_cases)

end

lemma written_sized:
  assumes "\<And>c. state_sized B (st c) = buffer_sized B c"
    "\<And>c. p = (c, Ok ()) \<Longrightarrow> buffer_sized B c"
  shows "turn_sized B (written st p)"
  using assms by (cases p; cases "snd p") auto

context big_endian
begin

lemma encode_limited_sized:
  assumes "encode_limited E (Some l) el c = (c', Ok ())" "buffer_sized (l + k) c"
    "refused el \<or> writable el" "length (webm_bytes el) \<le> k" "l + k < 2 ^ 64"
  shows "buffer_sized (l + k) c'"
proof -
  obtain bs where c: "c = filled bs" using assms(2) by (auto simp: buffer_sized_def)
  have below: "length bs < l"
    using assms(1) c by (auto simp: encode_limited_def split: if_splits)
  have "writable el"
    using assms(1,3) below c by (auto simp: encode_limited_def refused_cases)
  moreover have "length bs + length (webm_bytes el) < 2 ^ 64"
    using below assms(4,5) by simp
  ultimately have "c' = filled (bs @ webm_bytes el)"
    using assms(1) below c by (auto simp: encode_limited_def encode_vec)
  with below assms(4) show ?thesis by (simp add: buffer_sized_def)
qed

lemma element_turn_sized:
  assumes st: "state_sized (l + k) st"
    and el: "refused el \<or> writable el" "length (webm_bytes el) \<le> k" "l + k < 2 ^ 64"
  shows "turn_sized (l + k) (element_turn E (Some l) st el)"
proof -
  note enc = encode_limited_sized [OF _ _ el]
  show ?thesis
  proof (cases st)
    case (BuildingHeader c)
    with st have "turn_sized (l + k) (written BuildingHeader (encode_limited E (Some l) el c))"
      by (auto intro!: written_sized dest: enc)
    with BuildingHeader st show ?thesis
      by (auto simp: header_turn_def Let_def cluster_head_new_eq dest: buffer_sized_length
          split: webm_element.split)
  next
    case (BuildingCluster h c)
    with st have body: "turn_sized (l + k) (written (BuildingCluster h') (encode_limited E (Some l) el c))" for h'
      by (auto intro!: written_sized dest: enc)
    have header: "turn_sized (l + k) (new_header_turn E (Some l) h c el)"
      using st BuildingCluster enc [of "filled []"]
      by (auto simp: new_header_turn_def liberate_def dest: buffer_sized_length
          split: outcome.split prod.split)
    have "turn_sized (l + k) (block_turn E (Some l) h c b)" if "el = SimpleBlock b" for b
      using body that by (auto simp: block_turn_def Let_def split: outcome.split)
    with BuildingCluster st body header show ?thesis
      by (auto simp: cluster_turn_def liberate_def dest: buffer_sized_length
          split: webm_element.split outcome.split)
  qed simp
qed

end

text \<open>The parser side: limit \<open>lp\<close>, pieces of at most \<open>m\<close> bytes.\<close>

definition parser_sized :: "nat \<Rightarrow> nat \<Rightarrow> 'e parser \<Rightarrow> bool" where
  "parser_sized lp m p \<longleftrightarrow>
    buffer_size_limit p = Some lp \<and> length (buffer p) \<le> lp + m \<and> length (borrowed p) \<le> lp + m \<and>
    (\<forall>d. SourceData d \<in> set (stream p) \<longrightarrow> length d \<le> m)"

lemma poll_event_parser_sized:
  "poll_event F cv p = (p', r) \<Longrightarrow> parser_sized lp m p \<Longrightarrow> parser_sized lp m p'"
  using poll_event_memory [of F cv p p' r lp m] poll_event_frame [of F cv p p' r]
  by (auto simp: parser_sized_def)

context big_endian
begin

lemma polled_element_sized:
  assumes "poll_event (webm_from_ebml E) cv p = (p', Ready (Some (Ok el)))" "parser_sized lp m p"
  shows "refused el \<or> writable el" "length (webm_bytes el) \<le> max (lp + m) 15"
proof -
  obtain bs n where "decode_element (webm_from_ebml E) bs = Ok (Some (el, n))" "n \<le> lp + m"
    using poll_event_taken [OF assms(1), of lp m] assms(2) by (auto simp: parser_sized_def)
  with decoded_bytes [of E bs el n] show "refused el \<or> writable el" "length (webm_bytes el) \<le> max (lp + m) 15"
    by auto
qed

lemma poll_next_sized:
  fixes cv :: "'e \<Rightarrow> 'x webmetro_error"
  assumes "poll_next E cv c = (c', r)" "chunk_size_limit c = Some l" "parser_sized lp m (source c)"
    "state_sized (l + max (lp + m) 15) (chunk_state c)" "l + max (lp + m) 15 < 2 ^ 64"
  shows "parser_sized lp m (source c') \<and> chunk_size_limit c' = Some l \<and>
    (r = Pending \<or> r = Ready None \<or> (\<exists>ch. r = Ready (Some (Ok ch))) \<longrightarrow>
      state_sized (l + max (lp + m) 15) (chunk_state c')) \<and>
    (\<forall>ch. r = Ready (Some (Ok ch)) \<longrightarrow> chunk_sized (l + max (lp + m) 15) ch)"
  using assms(1-4)
proof (induction c arbitrary: c' r rule: poll_next_induct [where E = E and cv = cv])
  case (finished c)
  then show ?case by (auto simp: poll_next_End)
next
  case (element c s el)
  note next_c = poll_next_element [OF element(2,1)]
  note ps = poll_event_parser_sized [OF element(2,6)]
  have ok: "turn_sized (l + max (lp + m) 15) (element_turn E (chunk_size_limit c) (chunk_state c) el :: 'x turn)"
    using element_turn_sized [OF element(7) polled_element_sized [OF element(2,6)] assms(5), where ?'a = 'x]
      element(5) by simp
  show ?case
  proof (cases "element_turn E (chunk_size_limit c) (chunk_state c) el :: 'x turn")
    case (Continue st)
    with element(3) [OF Continue] element(4,5) ok next_c ps show ?thesis by simp
  next
    case (Return st r')
    with element(4,5) ok next_c ps show ?thesis by auto
  qed
next
  case (failed c s r0)
  then show ?case
    using poll_event_parser_sized [OF failed(2)] by (cases r0) (auto simp: poll_next_other)
next
  case (pending c s)
  then show ?case using poll_event_parser_sized [OF pending(2)] by (auto simp: poll_next_other)
next
  case (ended c s)
  then show ?case
    using poll_event_parser_sized [OF ended(2)]
    by (cases "chunk_state c") (auto simp: poll_next_other flush_turn_eq dest: buffer_sized_length)
qed

lemma all_chunks_sized:
  fixes cv :: "'e \<Rightarrow> 'x webmetro_error"
  assumes "chunk_size_limit c = Some l" "parser_sized lp m (source c)"
    "state_sized (l + max (lp + m) 15) (chunk_state c)" "l + max (lp + m) 15 < 2 ^ 64"
    "ch \<in> set (fst (all_chunks E cv c))"
  shows "chunk_sized (l + max (lp + m) 15) ch"
  using assms(1-3,5)
proof (induction "work_left c" arbitrary: c rule: less_induct)
  case (less c)
  obtain c' r where nxt: "poll_next E cv c = (c', r)" by (cases "poll_next E cv c")
  note ok = poll_next_sized [OF nxt less.prems(1-3) assms(4)]
  show ?case
  proof (cases "r = Pending \<or> (\<exists>ch. r = Ready (Some (Ok ch)))")
    case True
    with less.hyps [OF poll_next_work [OF nxt True]] ok less.prems(4) nxt show ?thesis
      by (subst (asm) all_chunks.simps) (auto split: prod.splits)
  next
    case False
    with less.prems(4) nxt show ?thesis
      by (subst (asm) all_chunks.simps) (auto split: poll.splits option.splits outcome.splits)
  qed
qed

end

end
