(* ===== verification/Fixers.thy ===== *)
theory Fixers
  imports Chunk_Bounds
begin

text \<open>
  The stream adapters of \<open>src/fixers.rs\<close>: \<open>ChunkTimecodeFixer\<close> shifts the clusters of
  restarted streams behind what was sent before, \<open>StartingPointFinder\<close> holds clusters back
  until one with a keyframe. (\<open>Throttle\<close> is in \<open>Throttle\<close>.)
\<close>

section \<open>ChunkTimecodeFixer\<close>

record timecode_fixer =
  current_offset :: u64
  last_observed_timecode :: u64
  assumed_duration :: u64

definition fixer_new :: timecode_fixer where
  "fixer_new = \<lparr>current_offset = 0, last_observed_timecode = 0, assumed_duration = 33\<rparr>"

text \<open>There is no error to return; \<open>Panic\<close> is an overflow of checked arithmetic.\<close>

definition process :: "rt \<Rightarrow> timecode_fixer \<Rightarrow> chunk \<Rightarrow> (unit, timecode_fixer \<times> chunk) outcome" where
  "process E f chunk =
    (case chunk of
       ClusterChunk head body \<Rightarrow>
         let first = start head in
         and_then
           (if first < last_observed_timecode f
            then and_then (add_u64 E (last_observed_timecode f) (assumed_duration f)) (\<lambda>next_timecode.
                 and_then (sub_u64 E next_timecode first) (\<lambda>offset.
                   Ok (f\<lparr>current_offset := offset\<rparr>)))
            else Ok f)
           (\<lambda>f.
         and_then (add_u64 E first (current_offset f)) (\<lambda>tc.
         and_then (update_timecode E tc head) (\<lambda>head.
           Ok (f\<lparr>last_observed_timecode := end_time head\<rparr>, ClusterChunk head body))))
     | _ \<Rightarrow> Ok (f, chunk))"

text \<open>The fixer mapped over a stream of chunks, as the commands use it.\<close>

fun process_all :: "rt \<Rightarrow> timecode_fixer \<Rightarrow> chunk list \<Rightarrow> (unit, chunk list) outcome" where
  "process_all E f [] = Ok []"
| "process_all E f (ch # chs) =
    and_then (process E f ch) (\<lambda>(f', ch').
    and_then (process_all E f' chs) (\<lambda>chs'. Ok (ch' # chs')))"

text \<open>The spans of the clusters in a list of chunks.\<close>

fun cluster_heads :: "chunk list \<Rightarrow> cluster_head list" where
  "cluster_heads [] = []"
| "cluster_heads (ClusterChunk h _ # chs) = h # cluster_heads chs"
| "cluster_heads (_ # chs) = cluster_heads chs"

text \<open>Every cluster starts no earlier than the time given, and the next one behind it.\<close>

fun in_order :: "u64 \<Rightarrow> cluster_head list \<Rightarrow> bool" where
  "in_order t [] = True"
| "in_order t (h # hs) \<longleftrightarrow> t \<le> start h \<and> start h \<le> end_time h \<and> in_order (end_time h) hs"

section \<open>What the fixer does to a cluster\<close>

text \<open>
  On natural numbers, without overflow: a cluster before the last end observed is put a
  fixed gap behind it and sets the offset, any other is shifted by the offset.
\<close>

definition fixed_start :: "timecode_fixer \<Rightarrow> nat \<Rightarrow> nat" where
  "fixed_start f s =
    (if s < unat (last_observed_timecode f)
     then unat (last_observed_timecode f) + unat (assumed_duration f)
     else s + unat (current_offset f))"

definition cluster_length :: "cluster_head \<Rightarrow> nat" where
  "cluster_length h = unat (end_time h) - unat (start h)"

text \<open>What \<open>process\<close> does to a head when nothing overflows.\<close>

definition shifted :: "timecode_fixer \<Rightarrow> cluster_head \<Rightarrow> cluster_head" where
  "shifted f h =
    (let s = fixed_start f (unat (start h)) in
     h\<lparr>start := of_nat s, end_time := of_nat (s + cluster_length h), head_bytes := head_image (of_nat s)\<rparr>)"

definition advanced :: "timecode_fixer \<Rightarrow> cluster_head \<Rightarrow> timecode_fixer" where
  "advanced f h =
    (let s = fixed_start f (unat (start h)) in
     f\<lparr>current_offset := of_nat (s - unat (start h)),
       last_observed_timecode := of_nat (s + cluster_length h)\<rparr>)"

lemma unat_lt64: "unat (w :: u64) < 2 ^ 64"
  using unsigned_less [of w, where ?'a = nat] by simp

lemma add_u64_checked:
  "overflow_checks E \<Longrightarrow> add_u64 E a b = Ok c \<longleftrightarrow> unat a + unat b < 2 ^ 64 \<and> c = a + b"
  by (auto simp: add_u64_def)

lemma sub_u64_checked: "overflow_checks E \<Longrightarrow> sub_u64 E a b = Ok c \<longleftrightarrow> b \<le> a \<and> c = a - b"
  by (auto simp: sub_u64_def)

context big_endian
begin

lemma process_cluster:
  assumes span: "start h \<le> end_time h"
    and room: "fixed_start f (unat (start h)) + cluster_length h < 2 ^ 64"
  shows "process E f (ClusterChunk h body) = Ok (advanced f h, ClusterChunk (shifted f h) body)"
proof -
  let ?s = "fixed_start f (unat (start h))"
  have ge: "unat (start h) \<le> ?s" by (simp add: fixed_start_def)
  have s: "unat (of_nat ?s :: u64) = ?s" using room by (simp add: unat_of_nat)
  define g where "g = f\<lparr>current_offset := of_nat (?s - unat (start h))\<rparr>"
  have g: "(if start h < last_observed_timecode f
      then and_then (add_u64 E (last_observed_timecode f) (assumed_duration f)) (\<lambda>next_timecode.
           and_then (sub_u64 E next_timecode (start h)) (\<lambda>offset. Ok (f\<lparr>current_offset := offset\<rparr>)))
      else Ok f) = Ok g"
  proof (cases "start h < last_observed_timecode f")
    case True
    then have sum: "unat (last_observed_timecode f) + unat (assumed_duration f) = ?s"
      by (simp add: fixed_start_def word_less_nat_alt)
    then have next_tc: "last_observed_timecode f + assumed_duration f = of_nat ?s"
      by (simp flip: sum)
    have "start h \<le> of_nat ?s"
      using ge s by (simp add: word_le_nat_alt)
    with True sum next_tc room ge show ?thesis
      by (simp add: g_def add_u64_exact sub_u64_exact of_nat_diff)
  next
    case False
    then have "?s - unat (start h) = unat (current_offset f)"
      by (simp add: fixed_start_def word_less_nat_alt)
    with False show ?thesis by (simp add: g_def)
  qed
  have tc: "add_u64 E (start h) (current_offset g) = Ok (of_nat ?s)"
  proof -
    have "unat (of_nat (?s - unat (start h)) :: u64) = ?s - unat (start h)"
      using room by (subst unat_of_nat) simp
    then have "unat (start h) + unat (current_offset g) = ?s"
      unfolding g_def using ge by simp
    with room show ?thesis
      by (subst add_u64_exact) (simp_all add: g_def of_nat_diff ge)
  qed
  have len: "unat (end_time h - start h) = cluster_length h"
    using span by (simp add: unat_sub_u64 cluster_length_def)
  then have d: "end_time h - start h = of_nat (cluster_length h)"
    by (simp flip: len)
  have upd: "update_timecode E (of_nat ?s) h = Ok (shifted f h)"
    using span room s len
    by (simp add: update_timecode_eq sub_u64_exact add_u64_exact shifted_def Let_def d)
  have "end_time (shifted f h) = of_nat (?s + cluster_length h)"
    by (simp add: shifted_def Let_def)
  then show ?thesis
    unfolding process_def
    by (simp only: chunk.case Let_def g and_then.simps tc upd) (simp add: advanced_def Let_def g_def)
qed

text \<open>Where arithmetic is checked, a result is never the product of an overflow.\<close>

lemma process_checked:
  assumes "overflow_checks E" "process E f (ClusterChunk h body) = Ok (f', ch)"
  shows "start h \<le> end_time h \<and> fixed_start f (unat (start h)) + cluster_length h < 2 ^ 64"
proof -
  let ?s = "fixed_start f (unat (start h))"
  obtain g tc head where g: "(if start h < last_observed_timecode f
      then and_then (add_u64 E (last_observed_timecode f) (assumed_duration f)) (\<lambda>next_timecode.
           and_then (sub_u64 E next_timecode (start h)) (\<lambda>offset. Ok (f\<lparr>current_offset := offset\<rparr>)))
      else Ok f) = (Ok g :: (unit, timecode_fixer) outcome)"
    and tc: "add_u64 E (start h) (current_offset g) = (Ok tc :: (unit, u64) outcome)"
    and head: "update_timecode E tc h = (Ok head :: (unit, cluster_head) outcome)"
    using assms(2) by (auto simp: process_def Let_def and_then_Ok_iff simp del: if_split)
  have sum: "unat (start h) + unat (current_offset g) < 2 ^ 64" "unat tc = unat (start h) + unat (current_offset g)"
    using tc by (auto simp: add_u64_checked [OF assms(1)] unat_add_u64)
  have "unat tc = ?s"
  proof (cases "start h < last_observed_timecode f")
    case True
    with g have "unat (last_observed_timecode f) + unat (assumed_duration f) < 2 ^ 64"
      "current_offset g = last_observed_timecode f + assumed_duration f - start h"
      by (auto simp: and_then_Ok_iff add_u64_checked [OF assms(1)] sub_u64_checked [OF assms(1)])
    with True sum tc show ?thesis
      by (auto simp: fixed_start_def word_less_nat_alt add_u64_checked [OF assms(1)] unat_add_u64)
  next
    case False
    with g sum(2) show ?thesis by (simp add: fixed_start_def word_less_nat_alt)
  qed
  moreover have "start h \<le> end_time h" "unat tc + unat (end_time h - start h) < 2 ^ 64"
    using head by (auto simp: update_timecode_eq and_then_Ok_iff add_u64_checked [OF assms(1)]
        sub_u64_checked [OF assms(1)])
  ultimately show ?thesis
    by (simp add: cluster_length_def unat_sub_u64)
qed

end

section \<open>The fixed stream\<close>

text \<open>A chunk after retiming: only the position in time of a cluster changes.\<close>

fun retimed :: "chunk \<Rightarrow> chunk \<Rightarrow> bool" where
  "retimed (ClusterChunk h body) (ClusterChunk h' body') \<longleftrightarrow>
    body' = body \<and> keyframe h' = keyframe h \<and> cluster_length h' = cluster_length h \<and>
    head_bytes h' = head_image (start h')"
| "retimed ch ch' \<longleftrightarrow> ch' = ch"

text \<open>Every cluster begins exactly the gap behind the end of the one before.\<close>

fun spaced :: "nat \<Rightarrow> u64 \<Rightarrow> cluster_head list \<Rightarrow> bool" where
  "spaced gap t [] = True"
| "spaced gap t (h # hs) \<longleftrightarrow> unat (start h) = unat t + gap \<and> spaced gap (end_time h) hs"

lemma shifted_simps:
  assumes "fixed_start f (unat (start h)) + cluster_length h < 2 ^ 64"
  shows "unat (start (shifted f h)) = fixed_start f (unat (start h))"
    "unat (end_time (shifted f h)) = fixed_start f (unat (start h)) + cluster_length h"
    "start (shifted f h) \<le> end_time (shifted f h)"
    "cluster_length (shifted f h) = cluster_length h"
    "last_observed_timecode (advanced f h) = end_time (shifted f h)"
    "assumed_duration (advanced f h) = assumed_duration f"
proof -
  show eqs: "unat (start (shifted f h)) = fixed_start f (unat (start h))"
    "unat (end_time (shifted f h)) = fixed_start f (unat (start h)) + cluster_length h"
    using assms by (auto simp: shifted_def Let_def unat_of_nat simp del: of_nat_add)
  show "start (shifted f h) \<le> end_time (shifted f h)"
    by (simp add: word_le_nat_alt eqs)
  show "cluster_length (shifted f h) = cluster_length h"
    by (simp add: cluster_length_def [of "shifted f h"] eqs)
  show "last_observed_timecode (advanced f h) = end_time (shifted f h)"
    "assumed_duration (advanced f h) = assumed_duration f"
    by (simp_all add: advanced_def shifted_def Let_def)
qed

lemma fixed_start_ge: "unat (last_observed_timecode f) \<le> fixed_start f s" "s < unat (last_observed_timecode f) \<Longrightarrow> s \<le> fixed_start f s"
  by (auto simp: fixed_start_def)

lemma retimed_shifted:
  assumes "fixed_start f (unat (start h)) + cluster_length h < 2 ^ 64"
  shows "retimed (ClusterChunk h body) (ClusterChunk (shifted f h) body)"
  using shifted_simps(4) [OF assms] by (simp add: shifted_def Let_def)

lemma current_offset_advanced:
  assumes "fixed_start f (unat (start h)) + cluster_length h < 2 ^ 64"
  shows "unat (current_offset (advanced f h)) = fixed_start f (unat (start h)) - unat (start h)"
  using assms by (simp add: advanced_def Let_def unat_of_nat)

text \<open>One cluster of a restarted stream is put the gap behind the last end.\<close>

lemma spaced_step:
  assumes "start h < last_observed_timecode f" "fixed_start f (unat (start h)) + cluster_length h < 2 ^ 64"
  shows "spaced (unat (assumed_duration (advanced f h))) (last_observed_timecode (advanced f h)) hs \<Longrightarrow>
      spaced (unat (assumed_duration f)) (last_observed_timecode f) (shifted f h # hs)"
    and "last_observed_timecode f \<le> last_observed_timecode (advanced f h)"
proof -
  have "fixed_start f (unat (start h)) = unat (last_observed_timecode f) + unat (assumed_duration f)"
    using assms(1) by (simp add: fixed_start_def word_less_nat_alt)
  with assms(2) show "spaced (unat (assumed_duration f)) (last_observed_timecode f) (shifted f h # hs)"
    if "spaced (unat (assumed_duration (advanced f h))) (last_observed_timecode (advanced f h)) hs"
    using that by (simp add: shifted_simps)
qed (use assms(2) fixed_start_ge(1) [of f "unat (start h)"] in \<open>simp add: word_le_nat_alt shifted_simps\<close>)

text \<open>Clusters of at most \<open>D\<close>, and room for all of them behind the last end.\<close>

definition spacing_fits :: "timecode_fixer \<Rightarrow> nat \<Rightarrow> chunk list \<Rightarrow> bool" where
  "spacing_fits f D chs \<longleftrightarrow>
    (\<forall>h \<in> set (cluster_heads chs). start h \<le> end_time h \<and> cluster_length h \<le> D) \<and>
    unat (last_observed_timecode f) + length chs * (unat (assumed_duration f) + D) < 2 ^ 64"

context big_endian
begin

lemma process_all_in_order:
  assumes "overflow_checks E" "process_all E f chs = Ok chs'"
  shows "in_order (last_observed_timecode f) (cluster_heads chs')"
  using assms(2)
proof (induction chs arbitrary: f chs')
  case (Cons ch chs)
  obtain f1 ch1 chs1 where step: "process E f ch = (Ok (f1, ch1) :: (unit, timecode_fixer \<times> chunk) outcome)"
    "process_all E f1 chs = (Ok chs1 :: (unit, chunk list) outcome)" "chs' = ch1 # chs1"
    using Cons.prems by (auto simp: and_then_Ok_iff split: prod.splits)
  show ?case
  proof (cases ch)
    case (ClusterChunk h body)
    note fits = process_checked [OF assms(1) step(1) [unfolded ClusterChunk]]
    with step(1) ClusterChunk process_cluster [of h f body]
    have eq: "f1 = advanced f h" "ch1 = ClusterChunk (shifted f h) body" by auto
    have "last_observed_timecode f \<le> start (shifted f h)"
      using fixed_start_ge(1) fits by (simp add: word_le_nat_alt shifted_simps(1))
    with Cons.IH [OF step(2)] show ?thesis
      using eq step(3) fits by (simp add: shifted_simps)
  qed (use step Cons.IH in \<open>auto simp: process_def\<close>)
qed simp

lemma process_all_retimes:
  assumes "\<And>h. h \<in> set (cluster_heads chs) \<Longrightarrow>
      start h \<le> end_time h \<and> unat (start h) \<le> S \<and> cluster_length h \<le> D"
    and "unat (current_offset f) \<le> unat (last_observed_timecode f) + A"
    and "unat (assumed_duration f) = A"
    and "max (unat (last_observed_timecode f)) (2 * S) + length chs * (A + D) < 2 ^ 64"
  shows "\<exists>chs'. process_all E f chs = Ok chs' \<and> list_all2 retimed chs chs' \<and>
    in_order (last_observed_timecode f) (cluster_heads chs')"
  using assms
proof (induction chs arbitrary: f)
  case (Cons ch chs)
  consider (cluster) h body where "ch = ClusterChunk h body"
    | (other) "process E f ch = Ok (f, ch)" "retimed ch ch" "cluster_heads (ch # chs) = cluster_heads chs"
    by (cases ch) (auto simp: process_def)
  then show ?case
  proof cases
    case (cluster h body)
    let ?L = "unat (last_observed_timecode f)" and ?s = "fixed_start f (unat (start h))"
    have h: "start h \<le> end_time h" "unat (start h) \<le> S" "cluster_length h \<le> D"
      using Cons.prems(1) cluster by simp_all
    have s: "?s \<le> max ?L (2 * S) + A" "unat (start h) \<le> ?s"
      using h(2) Cons.prems(2,3) by (auto simp: fixed_start_def)
    have room: "max ?L (2 * S) + (A + D) + length chs * (A + D) < 2 ^ 64"
      using Cons.prems(4) by simp
    then have fits: "?s + cluster_length h < 2 ^ 64"
      using s h(3) by linarith
    note step = process_cluster [OF h(1) fits, of body]
    have L: "unat (last_observed_timecode (advanced f h)) = ?s + cluster_length h"
      by (simp add: shifted_simps [OF fits])
    have "?L \<le> ?s" by (rule fixed_start_ge)
    have "\<exists>chs'. process_all E (advanced f h) chs = Ok chs' \<and> list_all2 retimed chs chs' \<and>
        in_order (last_observed_timecode (advanced f h)) (cluster_heads chs')"
    proof (rule Cons.IH)
      show "max (unat (last_observed_timecode (advanced f h))) (2 * S) + length chs * (A + D) < 2 ^ 64"
        using room s h(3) L by linarith
      show "unat (current_offset (advanced f h)) \<le> unat (last_observed_timecode (advanced f h)) + A"
        by (simp add: current_offset_advanced [OF fits] L)
    qed (use Cons.prems(1,3) cluster shifted_simps(6) [OF fits] in auto)
    moreover have "last_observed_timecode f \<le> start (shifted f h)"
      using \<open>?L \<le> ?s\<close> by (simp add: word_le_nat_alt shifted_simps(1) [OF fits])
    ultimately show ?thesis
      using cluster step retimed_shifted [OF fits] shifted_simps [OF fits] by auto
  next
    case other
    have "max (unat (last_observed_timecode f)) (2 * S) + length chs * (A + D) < 2 ^ 64"
      using Cons.prems(4) by simp
    with Cons.prems(1-3) other(3) have "\<exists>chs'. process_all E f chs = Ok chs' \<and> list_all2 retimed chs chs' \<and>
        in_order (last_observed_timecode f) (cluster_heads chs')"
      by (intro Cons.IH) simp_all
    moreover have "cluster_heads (ch # chs') = cluster_heads chs'" for chs'
      using other(3) by (cases ch) auto
    ultimately show ?thesis
      using other(1,2) by auto
  qed
qed simp

text \<open>A stream that is in order already passes unchanged.\<close>

lemma process_all_idle:
  assumes "in_order (last_observed_timecode f) (cluster_heads chs)" "current_offset f = 0"
    "\<And>h. h \<in> set (cluster_heads chs) \<Longrightarrow> head_bytes h = head_image (start h)"
  shows "process_all E f chs = Ok chs"
  using assms
proof (induction chs arbitrary: f)
  case (Cons ch chs)
  show ?case
  proof (cases ch)
    case (ClusterChunk h body)
    have h: "last_observed_timecode f \<le> start h" "start h \<le> end_time h" "head_bytes h = head_image (start h)"
      using Cons.prems ClusterChunk by simp_all
    then have s: "fixed_start f (unat (start h)) = unat (start h)"
      using Cons.prems(2) by (simp add: fixed_start_def word_le_nat_alt)
    have e: "unat (start h) + cluster_length h = unat (end_time h)"
      using h(2) by (simp add: cluster_length_def word_le_nat_alt)
    then have fits: "fixed_start f (unat (start h)) + cluster_length h < 2 ^ 64"
      by (simp only: s) (simp add: unat_lt64 [simplified])
    have "of_nat (unat (start h) + cluster_length h) = end_time h"
      by (simp only: e) simp
    then have same: "shifted f h = h" "current_offset (advanced f h) = 0"
      "last_observed_timecode (advanced f h) = end_time h"
      using h(3) by (simp_all add: shifted_def advanced_def Let_def s)
    have "process_all E (advanced f h) chs = Ok chs"
      using Cons.prems ClusterChunk same by (intro Cons.IH) auto
    with ClusterChunk process_cluster [OF h(2) fits, of body] same(1) show ?thesis by simp
  qed (use Cons in \<open>auto simp: process_def\<close>)
qed simp

text \<open>
  As long as the clusters of a restarted stream carry timecodes below the last end
  observed, their own distances are not kept: each is put the fixed gap behind the one
  before. The comparison is between an original and a shifted timecode.
\<close>

lemma spacing_fits_step:
  assumes "spacing_fits f D (ClusterChunk h body # chs)" "start h < last_observed_timecode f"
  shows "start h \<le> end_time h" "fixed_start f (unat (start h)) + cluster_length h < 2 ^ 64"
    "spacing_fits (advanced f h) D chs"
proof -
  let ?L = "unat (last_observed_timecode f)" and ?A = "unat (assumed_duration f)"
  have h: "start h \<le> end_time h" "cluster_length h \<le> D" and room: "?L + (?A + D) + length chs * (?A + D) < 2 ^ 64"
    using assms(1) by (simp_all add: spacing_fits_def)
  have s: "fixed_start f (unat (start h)) = ?L + ?A"
    using assms(2) by (simp add: fixed_start_def word_less_nat_alt)
  show fits: "fixed_start f (unat (start h)) + cluster_length h < 2 ^ 64" using h(2) room s by linarith
  have "?L + ?A + cluster_length h + length chs * (?A + D) < 2 ^ 64" using h(2) room by linarith
  with assms(1) show "spacing_fits (advanced f h) D chs"
    by (simp add: spacing_fits_def shifted_simps(2,5,6) [OF fits] s)
qed (use assms(1) in \<open>simp add: spacing_fits_def\<close>)

lemma process_all_spaced:
  assumes "\<And>h. h \<in> set (cluster_heads chs) \<Longrightarrow> start h < last_observed_timecode f"
    and "overflow_checks E \<or> spacing_fits f D chs" "process_all E f chs = Ok chs'"
  shows "spaced (unat (assumed_duration f)) (last_observed_timecode f) (cluster_heads chs')"
  using assms
proof (induction chs arbitrary: f chs')
  case (Cons ch chs)
  obtain f1 ch1 chs1 where step: "process E f ch = (Ok (f1, ch1) :: (unit, timecode_fixer \<times> chunk) outcome)"
    "process_all E f1 chs = (Ok chs1 :: (unit, chunk list) outcome)" "chs' = ch1 # chs1"
    using Cons.prems by (auto simp: and_then_Ok_iff split: prod.splits)
  show ?case
  proof (cases ch)
    case (ClusterChunk h body)
    have h: "start h < last_observed_timecode f" using Cons.prems(1) ClusterChunk by simp
    have fits: "start h \<le> end_time h \<and> fixed_start f (unat (start h)) + cluster_length h < 2 ^ 64"
      "overflow_checks E \<or> spacing_fits (advanced f h) D chs"
      using Cons.prems(2) process_checked [OF _ step(1) [unfolded ClusterChunk]] spacing_fits_step [OF _ h]
      by (auto simp: ClusterChunk)
    with step(1) ClusterChunk process_cluster [of h f body]
    have eq: "f1 = advanced f h" "ch1 = ClusterChunk (shifted f h) body" by auto
    have "last_observed_timecode f \<le> last_observed_timecode (advanced f h)"
      using fits(1) by (intro spaced_step(2) [OF h]) simp
    then have "start h' < last_observed_timecode (advanced f h)" if "h' \<in> set (cluster_heads chs)" for h'
      using Cons.prems(1) [of h'] that ClusterChunk by simp
    then have "spaced (unat (assumed_duration (advanced f h))) (last_observed_timecode (advanced f h))
        (cluster_heads chs1)"
      by (rule Cons.IH [OF _ fits(2) step(2) [unfolded eq]])
    then show ?thesis
      using spaced_step(1) [OF h conjunct2 [OF fits(1)]] by (simp add: eq step(3))
  qed (use step Cons.IH Cons.prems in \<open>auto simp: process_def spacing_fits_def\<close>)
qed simp

end

end
