(* ===== verification/Starting_Point.thy ===== *)
theory Starting_Point
  imports Chunk
begin

text \<open>
  \<open>StartingPointFinder\<close> of \<open>src/fixers.rs\<close>, against a declarative account of which chunks
  it lets through.
\<close>

section \<open>The adapter\<close>

text \<open>
  The stream below is the script of its poll results; \<open>Ready None\<close> once it is used up.
\<close>

type_synonym 'e chunk_poll = "('e, chunk) outcome option poll"
type_synonym 'e chunk_script = "'e chunk_poll list"

fun poll_script :: "'e chunk_script \<Rightarrow> 'e chunk_poll \<times> 'e chunk_script" where
  "poll_script [] = (Ready None, [])"
| "poll_script (x # s) = (x, s)"

lemma poll_script_shorter: "(Ready (Some r), rest) = poll_script s \<Longrightarrow> length rest < length s"
  by (cases s) auto

record 'e starting_point_finder =
  inner :: "'e chunk_script"
  seen_header :: bool
  seen_keyframe :: bool

definition find_starting_point :: "'e chunk_script \<Rightarrow> 'e starting_point_finder" where
  "find_starting_point s = \<lparr>inner = s, seen_header = False, seen_keyframe = False\<rparr>"

function finder_poll_next :: "'e starting_point_finder \<Rightarrow> 'e starting_point_finder \<times> 'e chunk_poll" where
  "finder_poll_next f =
    (case poll_script (inner f) of (polled, rest) \<Rightarrow>
       let f' = f\<lparr>inner := rest\<rparr> in
       (case polled of
          Ready (Some (Ok (ClusterChunk cluster_head cluster_body))) \<Rightarrow>
            let f' = (if keyframe cluster_head then f'\<lparr>seen_keyframe := True\<rparr> else f') in
            if seen_keyframe f' then (f', Ready (Some (Ok (ClusterChunk cluster_head cluster_body))))
            else finder_poll_next f'
        | Ready (Some (Ok (Headers bytes))) \<Rightarrow>
            if seen_header f' then finder_poll_next (f'\<lparr>seen_keyframe := False\<rparr>)
            else (f'\<lparr>seen_header := True\<rparr>, Ready (Some (Ok (Headers bytes))))
        | chunk \<Rightarrow> (f', chunk)))"
  by pat_completeness auto
termination
  by (relation "measure (\<lambda>f. length (inner f))") (auto dest: poll_script_shorter)

declare finder_poll_next.simps [simp del]

text \<open>
  One turn of that loop, for callers that poll the stream below themselves: the two flags
  after a polled value, and what is returned, if the loop ends here.
\<close>

fun finder_turn :: "bool \<Rightarrow> bool \<Rightarrow> 'e chunk_poll \<Rightarrow> bool \<times> bool \<times> 'e chunk_poll option" where
  "finder_turn sh sk (Ready (Some (Ok (ClusterChunk h b)))) =
    (let sk = (keyframe h \<or> sk) in
     (sh, sk, if sk then Some (Ready (Some (Ok (ClusterChunk h b)))) else None))"
| "finder_turn sh sk (Ready (Some (Ok (Headers b)))) =
    (if sh then (sh, False, None) else (True, sk, Some (Ready (Some (Ok (Headers b))))))"
| "finder_turn sh sk polled = (sh, sk, Some polled)"

lemma finder_poll_next_turn:
  "finder_poll_next f =
    (case poll_script (inner f) of (polled, rest) \<Rightarrow>
       (case finder_turn (seen_header f) (seen_keyframe f) polled of (sh, sk, r) \<Rightarrow>
          let f' = f\<lparr>inner := rest, seen_header := sh, seen_keyframe := sk\<rparr> in
          (case r of Some r \<Rightarrow> (f', r) | None \<Rightarrow> finder_poll_next f')))"
proof (cases f)
  case (fields s sh sk)
  obtain polled rest where poll: "poll_script s = (polled, rest)"
    by (cases "poll_script s")
  show ?thesis
    unfolding fields
    by (subst finder_poll_next.simps, cases "(sh, sk, polled)" rule: finder_turn.cases)
      (simp_all add: poll Let_def)
qed

section \<open>What gets through\<close>

text \<open>The items of a stream up to its end, the waiting left out.\<close>

type_synonym 'e item = "('e, chunk) outcome"

fun script_items :: "'e chunk_script \<Rightarrow> 'e item list" where
  "script_items [] = []"
| "script_items (Ready (Some r) # s) = r # script_items s"
| "script_items (Pending # s) = script_items s"
| "script_items (Ready None # s) = []"

lemma finder_poll_next_shorter:
  "finder_poll_next f = (f', r) \<Longrightarrow> r \<noteq> Ready None \<Longrightarrow> length (inner f') < length (inner f)"
proof (induction f arbitrary: f' r rule: finder_poll_next.induct)
  case (1 f)
  then show ?case
    by (subst (asm) (3) finder_poll_next.simps; cases "inner f")
      (fastforce simp: Let_def split: poll.splits option.splits outcome.splits chunk.splits if_splits)+
qed

function finder_items :: "'e starting_point_finder \<Rightarrow> 'e item list" where
  "finder_items f =
    (case finder_poll_next f of
       (f', Ready (Some r)) \<Rightarrow> r # finder_items f'
     | (f', Pending) \<Rightarrow> finder_items f'
     | (f', Ready None) \<Rightarrow> [])"
  by pat_completeness auto
termination
  by (relation "measure (\<lambda>f. length (inner f))") (auto dest: finder_poll_next_shorter [OF sym])

declare finder_items.simps [simp del]

fun is_header :: "'e item \<Rightarrow> bool" where
  "is_header (Ok (Headers _)) = True"
| "is_header _ = False"

fun is_keyframe :: "'e item \<Rightarrow> bool" where
  "is_keyframe (Ok (ClusterChunk h _)) = keyframe h"
| "is_keyframe _ = False"

fun is_cluster :: "'e item \<Rightarrow> bool" where
  "is_cluster (Ok (ClusterChunk _ _)) = True"
| "is_cluster _ = False"

definition header_seen :: "'e item list \<Rightarrow> bool" where
  "header_seen items \<longleftrightarrow> (\<exists>x \<in> set items. is_header x)"

text \<open>A keyframe, and since then no further header that restarts the stream.\<close>

definition keyframe_open :: "'e item list \<Rightarrow> bool" where
  "keyframe_open items \<longleftrightarrow>
    (\<exists>j < length items. is_keyframe (items ! j) \<and>
      (\<forall>k < length items. j < k \<longrightarrow> \<not> (is_header (items ! k) \<and> header_seen (take k items))))"

definition gets_through :: "'e item list \<Rightarrow> nat \<Rightarrow> bool" where
  "gets_through items i =
    (if is_cluster (items ! i) then keyframe_open (take (Suc i) items)
     else if is_header (items ! i) then \<not> header_seen (take i items)
     else True)"

definition let_through :: "'e item list \<Rightarrow> 'e item list" where
  "let_through items = map ((!) items) (filter (gets_through items) [0..<length items])"

text \<open>The adapter as a pass over the items, with its two flags.\<close>

fun gate :: "bool \<Rightarrow> bool \<Rightarrow> 'e item list \<Rightarrow> 'e item list" where
  "gate sh sk [] = []"
| "gate sh sk (Ok (ClusterChunk h b) # is) =
    (if keyframe h \<or> sk then Ok (ClusterChunk h b) # gate sh True is else gate sh sk is)"
| "gate sh sk (Ok (Headers b) # is) =
    (if sh then gate sh False is else Ok (Headers b) # gate True sk is)"
| "gate sh sk (x # is) = x # gate sh sk is"

lemma finder_poll_next_gate:
  "finder_poll_next f = (f', r) \<Longrightarrow>
    gate (seen_header f) (seen_keyframe f) (script_items (inner f)) =
    (case r of
       Ready None \<Rightarrow> []
     | Pending \<Rightarrow> gate (seen_header f') (seen_keyframe f') (script_items (inner f'))
     | Ready (Some x) \<Rightarrow> x # gate (seen_header f') (seen_keyframe f') (script_items (inner f')))"
proof (induction "inner f" arbitrary: f f' r)
  case Nil
  from Nil(1) [symmetric] Nil(2) show ?case
    by (subst (asm) finder_poll_next.simps) (auto simp: Let_def)
next
  case (Cons x s)
  note step = Cons(3) [unfolded finder_poll_next.simps [of f] Cons(2) [symmetric] poll_script.simps prod.case Let_def]
  have IH: "inner g = s \<Longrightarrow> finder_poll_next g = (f', r) \<Longrightarrow>
      gate (seen_header g) (seen_keyframe g) (script_items s) =
      (case r of
         Ready None \<Rightarrow> []
       | Pending \<Rightarrow> gate (seen_header f') (seen_keyframe f') (script_items (inner f'))
       | Ready (Some x) \<Rightarrow> x # gate (seen_header f') (seen_keyframe f') (script_items (inner f')))" for g
    using Cons(1) [of g f' r] by simp
  show ?case
  proof (cases "\<exists>h b. x = Ready (Some (Ok (ClusterChunk h b)))")
    case True
    then obtain h b where x: "x = Ready (Some (Ok (ClusterChunk h b)))" by blast
    with Cons(2) [symmetric] step IH [of "f\<lparr>inner := s\<rparr>"] show ?thesis
      by (auto split: if_splits)
  next
    case False
    with Cons(2) [symmetric] step IH [of "f\<lparr>inner := s, seen_keyframe := False\<rparr>"] show ?thesis
      by (auto split: poll.splits option.splits outcome.splits chunk.splits if_splits)
  qed
qed

lemma finder_items_gate:
  "finder_items f = gate (seen_header f) (seen_keyframe f) (script_items (inner f))"
proof (induction f rule: finder_items.induct)
  case (1 f)
  obtain f' r where step: "finder_poll_next f = (f', r)" by (cases "finder_poll_next f")
  with 1 finder_poll_next_gate [OF step] show ?case
    by (subst finder_items.simps) (auto split: poll.splits option.splits)
qed

lemma header_seen_snoc [simp]: "header_seen (ps @ [x]) \<longleftrightarrow> is_header x \<or> header_seen ps"
  by (auto simp: header_seen_def)

lemma keyframe_open_snoc:
  "keyframe_open (ps @ [x]) \<longleftrightarrow>
    is_keyframe x \<or> (keyframe_open ps \<and> \<not> (is_header x \<and> header_seen ps))"
  (is "?l \<longleftrightarrow> ?r")
proof
  assume ?l
  then obtain j where j: "j < Suc (length ps)" "is_keyframe ((ps @ [x]) ! j)"
    "\<forall>k < Suc (length ps). j < k \<longrightarrow>
      \<not> (is_header ((ps @ [x]) ! k) \<and> header_seen (take k (ps @ [x])))"
    by (auto simp: keyframe_open_def)
  show ?r
  proof (cases "j = length ps")
    case True
    with j(2) show ?thesis by simp
  next
    case False
    with j(1) have "j < length ps" by simp
    moreover from this j(2) have "is_keyframe (ps ! j)" by (simp add: nth_append)
    moreover have "\<not> (is_header (ps ! k) \<and> header_seen (take k ps))" if "k < length ps" "j < k" for k
      using j(3) [rule_format, of k] that by (simp add: nth_append)
    moreover have "\<not> (is_header x \<and> header_seen ps)"
      using j(3) [rule_format, of "length ps"] \<open>j < length ps\<close> by simp
    ultimately show ?thesis by (auto simp: keyframe_open_def)
  qed
next
  assume ?r
  then show ?l
  proof
    assume "is_keyframe x"
    then show ?l by (auto simp: keyframe_open_def nth_append intro!: exI [of _ "length ps"])
  next
    assume r: "keyframe_open ps \<and> \<not> (is_header x \<and> header_seen ps)"
    then obtain j where j: "j < length ps" "is_keyframe (ps ! j)"
      "\<forall>k < length ps. j < k \<longrightarrow> \<not> (is_header (ps ! k) \<and> header_seen (take k ps))"
      by (auto simp: keyframe_open_def)
    have "\<not> (is_header ((ps @ [x]) ! k) \<and> header_seen (take k (ps @ [x])))"
      if "k < length (ps @ [x])" "j < k" for k
      using that j(3) r by (cases "k = length ps") (auto simp: nth_append)
    moreover have "j < length (ps @ [x])" "is_keyframe ((ps @ [x]) ! j)"
      using j(1,2) by (simp_all add: nth_append)
    ultimately show ?l
      unfolding keyframe_open_def by blast
  qed
qed

lemma gets_through_here:
  "gets_through (ps @ x # rest) (length ps) \<longleftrightarrow>
    (if is_cluster x then is_keyframe x \<or> keyframe_open ps
     else if is_header x then \<not> header_seen ps else True)"
proof -
  have "take (Suc (length ps)) (ps @ x # rest) = ps @ [x]" by simp
  moreover have "is_cluster x \<Longrightarrow> \<not> is_header x" by (cases x rule: is_cluster.cases) auto
  ultimately show ?thesis
    by (simp add: gets_through_def keyframe_open_snoc)
qed

lemma gate_let_through:
  "gate (header_seen ps) (keyframe_open ps) rest =
    map ((!) (ps @ rest)) (filter (gets_through (ps @ rest)) [length ps..<length (ps @ rest)])"
proof (induction rest arbitrary: ps)
  case Nil
  then show ?case by simp
next
  case (Cons x rest)
  let ?sh = "is_header x \<or> header_seen ps"
    and ?sk = "is_keyframe x \<or> (keyframe_open ps \<and> \<not> (is_header x \<and> header_seen ps))"
    and ?through = "gets_through (ps @ x # rest) (length ps)"
  have "gate (header_seen ps) (keyframe_open ps) (x # rest) =
      (if ?through then [x] else []) @ gate ?sh ?sk rest"
    by (cases "(header_seen ps, keyframe_open ps, x # rest)" rule: gate.cases)
      (auto simp: gets_through_here)
  moreover have "gate ?sh ?sk rest =
      map ((!) (ps @ x # rest)) (filter (gets_through (ps @ x # rest)) [Suc (length ps)..<length (ps @ x # rest)])"
    using Cons [of "ps @ [x]"] by (simp add: keyframe_open_snoc)
  moreover have "[length ps..<length (ps @ x # rest)] = length ps # [Suc (length ps)..<length (ps @ x # rest)]"
    by (rule upt_conv_Cons) simp
  ultimately show ?case by simp
qed

lemma finder_items_let_through:
  "finder_items (find_starting_point s) = let_through (script_items s)"
  using gate_let_through [of "[]" "script_items s"]
  by (simp add: finder_items_gate find_starting_point_def let_through_def header_seen_def keyframe_open_def)

end
