(* ===== verification/Channel.thy ===== *)
theory Channel
  imports Chunk "HOL-Library.Sublist"
begin

text \<open>
  The relay channel of \<open>src/channel.rs\<close>: transmitters and listeners share a \<open>Channel\<close>
  behind a mutex, and each listener has a bounded queue of the crate \<open>futures\<close>. Every
  operation runs under the lock, so a concurrent run is a sequence of whole operations.
\<close>

section \<open>Bounded queues\<close>

text \<open>
  The queues are third-party code: a record of the operations the channel calls, on an
  abstract queue state shared by its sender and its receiver. \<open>start_send\<close> returns
  \<open>is_ok()\<close> of its result.
\<close>

record 'q mpsc =
  mpsc_channel :: "nat \<Rightarrow> 'q"
  start_send :: "chunk \<Rightarrow> 'q \<Rightarrow> 'q \<times> bool"
  poll_receiver :: "'q \<Rightarrow> 'q \<times> chunk option poll"
  drop_sender :: "'q \<Rightarrow> 'q"
  drop_receiver :: "'q \<Rightarrow> 'q"

text \<open>
  What their documentation promises: first in, first out; a queue holds as many messages as
  its buffer size plus one for its sender; a send fails if it is full or the receiver gone.
\<close>

locale bounded_mpsc =
  fixes M :: "'q mpsc"
    and queued :: "'q \<Rightarrow> chunk list"
    and receiving :: "'q \<Rightarrow> bool"
    and capacity :: "'q \<Rightarrow> nat"
  assumes new_queue: "queued (mpsc_channel M n) = []" "receiving (mpsc_channel M n)"
      "capacity (mpsc_channel M n) = n + 1"
    and send_room: "receiving q \<Longrightarrow> length (queued q) < capacity q \<Longrightarrow>
      \<exists>q'. start_send M c q = (q', True) \<and> queued q' = queued q @ [c] \<and>
           receiving q' \<and> capacity q' = capacity q"
    and send_refused: "\<not> receiving q \<or> capacity q \<le> length (queued q) \<Longrightarrow>
      \<exists>q'. start_send M c q = (q', False) \<and> queued q' = queued q \<and>
           receiving q' = receiving q \<and> capacity q' = capacity q"
    and poll_queued: "queued q = c # cs \<Longrightarrow>
      \<exists>q'. poll_receiver M q = (q', Ready (Some c)) \<and> queued q' = cs \<and>
           receiving q' = receiving q \<and> capacity q' = capacity q"
    and poll_empty: "queued q = [] \<Longrightarrow>
      \<exists>q' r. poll_receiver M q = (q', r) \<and> (r = Pending \<or> r = Ready None) \<and> queued q' = [] \<and>
           receiving q' = receiving q \<and> capacity q' = capacity q"
    and drop_sender: "queued (drop_sender M q) = queued q" "receiving (drop_sender M q) = receiving q"
      "capacity (drop_sender M q) = capacity q"
    and drop_receiver: "queued (drop_receiver M q) = []" "\<not> receiving (drop_receiver M q)"
      "capacity (drop_receiver M q) = capacity q"

text \<open>A reference queue, to evaluate the model on concrete inputs.\<close>

record reference_queue =
  items :: "chunk list"
  size_limit :: nat
  receiver_alive :: bool
  sender_alive :: bool

definition reference_mpsc :: "reference_queue mpsc" where
  "reference_mpsc =
    \<lparr>mpsc_channel = (\<lambda>n. \<lparr>items = [], size_limit = n + 1, receiver_alive = True, sender_alive = True\<rparr>),
     start_send = (\<lambda>c q. if receiver_alive q \<and> length (items q) < size_limit q
                         then (q\<lparr>items := items q @ [c]\<rparr>, True) else (q, False)),
     poll_receiver = (\<lambda>q. case items q of
                        c # cs \<Rightarrow> (q\<lparr>items := cs\<rparr>, Ready (Some c))
                      | [] \<Rightarrow> (q, if sender_alive q then Pending else Ready None)),
     drop_sender = (\<lambda>q. q\<lparr>sender_alive := False\<rparr>),
     drop_receiver = (\<lambda>q. q\<lparr>items := [], receiver_alive := False\<rparr>)\<rparr>"

interpretation reference_queue: bounded_mpsc reference_mpsc items receiver_alive size_limit
  by unfold_locales (auto simp: reference_mpsc_def)

section \<open>The channel\<close>

text \<open>
  The queues are kept in the order their listeners joined; a \<open>Sender\<close> or \<open>Receiver\<close> is the
  index of its queue. \<open>poisoned\<close> is the mutex's flag for a panic under the lock.
\<close>

record 'q channel =
  name :: string
  header_chunk :: "chunk option"
  listeners :: "nat list"
  queues :: "'q list"
  poisoned :: bool

definition channel_new :: "string \<Rightarrow> 'q channel" where
  "channel_new n =
    \<lparr>name = n, header_chunk = None, listeners = [], queues = [], poisoned = False\<rparr>"

text \<open>
  \<open>retain_mut\<close> with \<open>start_send\<close>: the senders that took the chunk stay, the others are
  dropped.
\<close>

fun retain_send :: "'q mpsc \<Rightarrow> chunk \<Rightarrow> nat list \<Rightarrow> 'q list \<Rightarrow> nat list \<times> 'q list" where
  "retain_send M chunk [] qs = ([], qs)"
| "retain_send M chunk (l # ls) qs =
    (case start_send M chunk (qs ! l) of
       (q, ok) \<Rightarrow>
         (case retain_send M chunk ls (qs[l := if ok then q else drop_sender M q]) of
            (kept, qs') \<Rightarrow> (if ok then l # kept else kept, qs')))"

fun is_headers :: "chunk \<Rightarrow> bool" where
  "is_headers (Headers _) = True"
| "is_headers _ = False"

definition transmitter_send :: "'q mpsc \<Rightarrow> chunk \<Rightarrow> 'q channel \<Rightarrow> 'q channel \<times> (unit, unit) outcome" where
  "transmitter_send M chunk ch =
    (if poisoned ch then (ch, Panic)
     else
       let ch = (if is_headers chunk then ch\<lparr>header_chunk := Some chunk\<rparr> else ch) in
       (case retain_send M chunk (listeners ch) (queues ch) of
          (kept, qs) \<Rightarrow> (ch\<lparr>listeners := kept, queues := qs\<rparr>, Ok ())))"

lemma transmitter_send_eq:
  "transmitter_send M c ch =
    (if poisoned ch then (ch, Panic)
     else case retain_send M c (listeners ch) (queues ch) of
       (kept, qs) \<Rightarrow>
         (ch\<lparr>header_chunk := if is_headers c then Some c else header_chunk ch,
             listeners := kept, queues := qs\<rparr>, Ok ()))"
  by (simp add: transmitter_send_def Let_def split: prod.split)

definition transmitter_drop :: "'q channel \<Rightarrow> 'q channel" where
  "transmitter_drop ch = (if poisoned ch then ch else ch\<lparr>header_chunk := None\<rparr>)"

text \<open>\<open>Listener::new\<close> returns the listener, the index of its queue.\<close>

definition listener_new :: "'q mpsc \<Rightarrow> 'q channel \<Rightarrow> 'q channel \<times> (unit, nat) outcome" where
  "listener_new M ch =
    (let q = mpsc_channel M 5; i = length (queues ch) in
     if poisoned ch then (ch, Panic)
     else
       case header_chunk ch of
         Some chunk \<Rightarrow>
           (case start_send M chunk q of
              (q, True) \<Rightarrow> (ch\<lparr>listeners := listeners ch @ [i], queues := queues ch @ [q]\<rparr>, Ok i)
            | (q, False) \<Rightarrow> (ch\<lparr>poisoned := True\<rparr>, Panic))
       | None \<Rightarrow> (ch\<lparr>listeners := listeners ch @ [i], queues := queues ch @ [q]\<rparr>, Ok i))"

definition listener_poll_next :: "'q mpsc \<Rightarrow> nat \<Rightarrow> 'q channel \<Rightarrow> 'q channel \<times> chunk option poll" where
  "listener_poll_next M i ch =
    (case poll_receiver M (queues ch ! i) of (q, r) \<Rightarrow> (ch\<lparr>queues := (queues ch)[i := q]\<rparr>, r))"

definition listener_drop :: "'q mpsc \<Rightarrow> nat \<Rightarrow> 'q channel \<Rightarrow> 'q channel" where
  "listener_drop M i ch = ch\<lparr>queues := (queues ch)[i := drop_receiver M (queues ch ! i)]\<rparr>"

section \<open>Runs\<close>

text \<open>
  A run records what the clients see: the chunks sent so far, what each listener was given
  on joining (the header, if there was one), how many chunks had been sent then, and what
  it has received.
\<close>

record 'q run =
  chan :: "'q channel"
  sent :: "chunk list"
  greeting :: "chunk list list"
  joined_at :: "nat list"
  received :: "chunk list list"
  left :: "nat set"

definition run_start :: "string \<Rightarrow> 'q run" where
  "run_start n =
    \<lparr>chan = channel_new n, sent = [], greeting = [], joined_at = [], received = [], left = {}\<rparr>"

inductive run_step :: "'q mpsc \<Rightarrow> 'q run \<Rightarrow> 'q run \<Rightarrow> bool" for M where
  send: "transmitter_send M chunk (chan s) = (ch, Ok ()) \<Longrightarrow>
    run_step M s (s\<lparr>chan := ch, sent := sent s @ [chunk]\<rparr>)"
| send_panic: "transmitter_send M chunk (chan s) = (ch, Panic) \<Longrightarrow> run_step M s (s\<lparr>chan := ch\<rparr>)"
| disconnect: "run_step M s (s\<lparr>chan := transmitter_drop (chan s)\<rparr>)"
| join: "listener_new M (chan s) = (ch, Ok i) \<Longrightarrow>
    run_step M s (s\<lparr>chan := ch,
      greeting := greeting s @ [case header_chunk (chan s) of Some h \<Rightarrow> [h] | None \<Rightarrow> []],
      joined_at := joined_at s @ [length (sent s)], received := received s @ [[]]\<rparr>)"
| join_panic: "listener_new M (chan s) = (ch, Panic) \<Longrightarrow> run_step M s (s\<lparr>chan := ch\<rparr>)"
| poll: "i < length (received s) \<Longrightarrow> i \<notin> left s \<Longrightarrow> listener_poll_next M i (chan s) = (ch, r) \<Longrightarrow>
    run_step M s (s\<lparr>chan := ch,
      received := (received s)[i := received s ! i @ (case r of Ready (Some c) \<Rightarrow> [c] | _ \<Rightarrow> [])]\<rparr>)"
| leave: "i < length (received s) \<Longrightarrow> i \<notin> left s \<Longrightarrow>
    run_step M s (s\<lparr>chan := listener_drop M i (chan s), left := insert i (left s)\<rparr>)"

inductive reachable :: "'q mpsc \<Rightarrow> 'q run \<Rightarrow> bool" for M where
  start: "reachable M (run_start n)"
| step: "reachable M s \<Longrightarrow> run_step M s s' \<Longrightarrow> reachable M s'"

inductive_cases run_stepE: "run_step M s s'"

section \<open>What one operation does\<close>

context bounded_mpsc
begin

text \<open>A queue with room for one more message.\<close>

definition accepts :: "'q \<Rightarrow> bool" where
  "accepts q \<longleftrightarrow> receiving q \<and> length (queued q) < capacity q"

lemma start_send_cases:
  obtains (sent) q' where "accepts q" "start_send M c q = (q', True)" "queued q' = queued q @ [c]"
      "receiving q' = receiving q" "capacity q' = capacity q"
  | (refused) q' where "\<not> accepts q" "start_send M c q = (q', False)" "queued q' = queued q"
      "receiving q' = receiving q" "capacity q' = capacity q"
  using send_room [of q c] send_refused [of q c] by (fastforce simp: accepts_def)

text \<open>Sending gives the chunk to the listeners with room and drops the others.\<close>

lemma retain_send_spec:
  assumes "retain_send M c ls qs = (kept, qs')" "distinct ls" "set ls \<subseteq> {..<length qs}"
  shows "kept = filter (\<lambda>l. accepts (qs ! l)) ls \<and> length qs' = length qs \<and>
    (\<forall>i < length qs.
      queued (qs' ! i) = queued (qs ! i) @ (if i \<in> set kept then [c] else []) \<and>
      receiving (qs' ! i) = receiving (qs ! i) \<and> capacity (qs' ! i) = capacity (qs ! i))"
  using assms
proof (induction ls arbitrary: qs kept qs')
  case (Cons l ls)
  obtain q ok where send: "start_send M c (qs ! l) = (q, ok)" by (cases "start_send M c (qs ! l)")
  let ?qs = "qs[l := if ok then q else drop_sender M q]"
  obtain kept1 where rest: "retain_send M c ls ?qs = (kept1, qs')" "kept = (if ok then l # kept1 else kept1)"
    using Cons.prems(1) send by (auto split: prod.splits)
  have l: "l < length qs" "l \<notin> set ls" "distinct ls" "set ls \<subseteq> {..<length ?qs}"
    using Cons.prems(2,3) by auto
  note IH = Cons.IH [OF rest(1) l(3,4)]
  have same: "?qs ! i = qs ! i" if "i \<noteq> l" for i
    using that by simp
  have "accepts (?qs ! x) = accepts (qs ! x)" if "x \<in> set ls" for x
    using that l(2) same [of x] by metis
  then have kept1: "kept1 = filter (\<lambda>l. accepts (qs ! l)) ls"
    using IH by (simp cong: filter_cong)
  with l(2) have "l \<notin> set kept1" by simp
  have ok: "ok = accepts (qs ! l)" "receiving (?qs ! l) = receiving (qs ! l)"
    "capacity (?qs ! l) = capacity (qs ! l)"
    "queued (?qs ! l) = queued (qs ! l) @ (if ok then [c] else [])"
    using send l(1) by (cases c "qs ! l" rule: start_send_cases; simp add: drop_sender)+
  have "queued (qs' ! i) = queued (qs ! i) @ (if i \<in> set kept then [c] else []) \<and>
      receiving (qs' ! i) = receiving (qs ! i) \<and> capacity (qs' ! i) = capacity (qs ! i)"
    if "i < length qs" for i
    using IH that ok same [of i] \<open>l \<notin> set kept1\<close> rest(2) by (cases "i = l") auto
  with kept1 rest(2) ok(1) IH show ?case by auto
qed simp

end

section \<open>The invariant of runs\<close>

text \<open>What a listener is due: its greeting and everything sent since it joined.\<close>

definition due :: "'q run \<Rightarrow> nat \<Rightarrow> chunk list" where
  "due s i = greeting s ! i @ drop (joined_at s ! i) (sent s)"

context bounded_mpsc
begin

definition listener_ok :: "'q run \<Rightarrow> nat \<Rightarrow> bool" where
  "listener_ok s i \<longleftrightarrow>
    (let q = queues (chan s) ! i; got = received s ! i @ queued q in
     joined_at s ! i \<le> length (sent s) \<and> capacity q = 6 \<and> length (queued q) \<le> 6 \<and>
     receiving q = (i \<notin> left s) \<and> prefix got (due s i) \<and>
     (i \<in> set (listeners (chan s)) \<and> i \<notin> left s \<longrightarrow> got = due s i))"

definition run_ok :: "'q run \<Rightarrow> bool" where
  "run_ok s \<longleftrightarrow>
    \<not> poisoned (chan s) \<and> distinct (listeners (chan s)) \<and>
    set (listeners (chan s)) \<subseteq> {..<length (queues (chan s))} \<and>
    length (greeting s) = length (queues (chan s)) \<and>
    length (joined_at s) = length (queues (chan s)) \<and>
    length (received s) = length (queues (chan s)) \<and> left s \<subseteq> {..<length (queues (chan s))} \<and>
    (\<forall>i < length (queues (chan s)). listener_ok s i)"

lemma run_ok_start: "run_ok (run_start n)"
  by (simp add: run_ok_def run_start_def channel_new_def)

lemma run_ok_send:
  assumes "run_ok s" "transmitter_send M c (chan s) = (ch, Ok ())"
  shows "run_ok (s\<lparr>chan := ch, sent := sent s @ [c]\<rparr>)"
proof -
  let ?s = "s\<lparr>chan := ch, sent := sent s @ [c]\<rparr>"
  let ?ls = "listeners (chan s)" and ?qs = "queues (chan s)"
  obtain kept qs' where kept: "retain_send M c ?ls ?qs = (kept, qs')"
    by (cases "retain_send M c ?ls ?qs")
  have ch: "listeners ch = kept" "queues ch = qs'" "poisoned ch = poisoned (chan s)"
    using assms kept by (auto simp: transmitter_send_def run_ok_def Let_def split: if_splits)
  note spec = retain_send_spec [OF kept]
  have ok: "distinct ?ls" "set ?ls \<subseteq> {..<length ?qs}" "\<not> poisoned (chan s)"
    "length (greeting s) = length ?qs" "length (joined_at s) = length ?qs" "length (received s) = length ?qs"
    using assms(1) by (simp_all add: run_ok_def)
  have "listener_ok ?s i" if i: "i < length ?qs" for i
  proof -
    have lok: "listener_ok s i" using assms(1) i by (simp add: run_ok_def)
    then have due: "due ?s i = due s i @ [c]"
      by (simp add: due_def listener_ok_def Let_def)
    have q: "queued (qs' ! i) = queued (?qs ! i) @ (if i \<in> set kept then [c] else [])"
      "receiving (qs' ! i) = receiving (?qs ! i)" "capacity (qs' ! i) = capacity (?qs ! i)"
      "i \<in> set kept \<Longrightarrow> i \<in> set ?ls \<and> receiving (?qs ! i) \<and> length (queued (?qs ! i)) < capacity (?qs ! i)"
      using spec [OF ok(1,2)] i by (auto simp: accepts_def)
    show ?thesis
    proof (cases "i \<in> set kept")
      case True
      with lok q show ?thesis by (simp add: listener_ok_def Let_def ch due)
    next
      case False
      with lok q show ?thesis by (auto simp: listener_ok_def Let_def ch due intro: prefix_prefix)
    qed
  qed
  with spec [OF ok(1,2)] ok ch assms(1) show ?thesis
    by (auto simp: run_ok_def)
qed

lemma run_ok_join:
  assumes "run_ok s" "listener_new M (chan s) = (ch, r)"
  shows "r = Ok (length (queues (chan s))) \<and>
    run_ok (s\<lparr>chan := ch,
      greeting := greeting s @ [case header_chunk (chan s) of Some h \<Rightarrow> [h] | None \<Rightarrow> []],
      joined_at := joined_at s @ [length (sent s)], received := received s @ [[]]\<rparr>)"
proof -
  let ?g = "case header_chunk (chan s) of Some h \<Rightarrow> [h] | None \<Rightarrow> []"
  let ?i = "length (queues (chan s))"
  have "\<exists>q. ch = (chan s)\<lparr>listeners := listeners (chan s) @ [?i], queues := queues (chan s) @ [q]\<rparr> \<and>
      r = Ok ?i \<and> queued q = ?g \<and> receiving q \<and> capacity q = 6"
  proof (cases "header_chunk (chan s)")
    case None
    with assms show ?thesis
      using new_queue [of 5] by (auto simp: listener_new_def Let_def run_ok_def)
  next
    case (Some h)
    obtain q where "start_send M h (mpsc_channel M 5) = (q, True)" "queued q = [h]" "receiving q" "capacity q = 6"
      using send_room [of "mpsc_channel M 5" h] new_queue [of 5] by auto
    with Some assms show ?thesis
      by (auto simp: listener_new_def Let_def run_ok_def)
  qed
  then obtain q where q: "ch = (chan s)\<lparr>listeners := listeners (chan s) @ [?i], queues := queues (chan s) @ [q]\<rparr>"
      "r = Ok ?i" "queued q = ?g" "receiving q" "capacity q = 6" by blast
  let ?s = "s\<lparr>chan := ch, greeting := greeting s @ [?g], joined_at := joined_at s @ [length (sent s)],
    received := received s @ [[]]\<rparr>"
  have ok: "distinct (listeners (chan s))" "set (listeners (chan s)) \<subseteq> {..<?i}" "\<not> poisoned (chan s)"
    "length (greeting s) = ?i" "length (joined_at s) = ?i" "length (received s) = ?i" "left s \<subseteq> {..<?i}"
    using assms(1) by (simp_all add: run_ok_def)
  have "listener_ok ?s i" if "i < ?i" for i
  proof -
    have "listener_ok s i" using assms(1) that by (simp add: run_ok_def)
    moreover have "due ?s i = due s i"
      using that ok by (simp add: due_def nth_append)
    ultimately show ?thesis
      using that ok by (simp add: listener_ok_def Let_def q(1) nth_append)
  qed
  moreover have "listener_ok ?s ?i"
  proof -
    have "due ?s ?i = ?g" using ok by (simp add: due_def nth_append)
    moreover have "?i \<notin> left s" "length ?g \<le> 6" using ok by (auto split: option.split)
    ultimately show ?thesis
      using ok by (simp add: listener_ok_def Let_def q nth_append)
  qed
  ultimately show ?thesis
    using ok q(2) by (auto simp: run_ok_def q(1) less_Suc_eq)
qed

lemma run_ok_poll:
  assumes "run_ok s" "i < length (received s)" "listener_poll_next M i (chan s) = (ch, r)"
  shows "run_ok (s\<lparr>chan := ch,
    received := (received s)[i := received s ! i @ (case r of Ready (Some c) \<Rightarrow> [c] | _ \<Rightarrow> [])]\<rparr>)"
proof -
  let ?got = "case r of Ready (Some c) \<Rightarrow> [c] | _ \<Rightarrow> []"
  let ?s = "s\<lparr>chan := ch, received := (received s)[i := received s ! i @ ?got]\<rparr>"
  let ?q = "queues (chan s) ! i"
  have "\<exists>q. poll_receiver M ?q = (q, r) \<and> ch = (chan s)\<lparr>queues := (queues (chan s))[i := q]\<rparr>"
    using assms(3) by (auto simp: listener_poll_next_def split: prod.splits)
  then obtain q where q: "poll_receiver M ?q = (q, r)" "ch = (chan s)\<lparr>queues := (queues (chan s))[i := q]\<rparr>"
    by blast
  have q': "?got @ queued q = queued ?q \<and> receiving q = receiving ?q \<and> capacity q = capacity ?q"
  proof (cases "queued ?q")
    case Nil
    then show ?thesis using poll_empty [of ?q] q(1) by auto
  next
    case (Cons c cs)
    then show ?thesis using poll_queued [of ?q c cs] q(1) by auto
  qed
  then have "length (queued q) \<le> length (queued ?q)"
    by (metis le_add2 length_append)
  then have "listener_ok ?s j" if j: "j < length (queues (chan s))" for j
  proof -
    have "listener_ok s j" using assms(1) j by (simp add: run_ok_def)
    moreover have "due ?s j = due s j" by (simp add: due_def)
    ultimately show ?thesis
      using \<open>length (queued q) \<le> length (queued ?q)\<close> q' q(2) assms(2) j by (cases "j = i") (simp_all add: listener_ok_def Let_def)
  qed
  then show ?thesis
    using assms(1) q(2) by (simp add: run_ok_def)
qed

lemma run_ok_leave:
  assumes "run_ok s" "i < length (received s)" "i \<notin> left s"
  shows "run_ok (s\<lparr>chan := listener_drop M i (chan s), left := insert i (left s)\<rparr>)"
proof -
  let ?s = "s\<lparr>chan := listener_drop M i (chan s), left := insert i (left s)\<rparr>"
  have "listener_ok ?s j" if j: "j < length (queues (chan s))" for j
  proof -
    have "listener_ok s j" using assms(1) j by (simp add: run_ok_def)
    moreover have "due ?s j = due s j" by (simp add: due_def)
    ultimately show ?thesis
      using assms j by (cases "j = i")
        (auto simp: listener_ok_def Let_def listener_drop_def drop_receiver dest: append_prefixD)
  qed
  then show ?thesis
    using assms by (auto simp: run_ok_def listener_drop_def)
qed

lemma run_ok_no_panic:
  assumes "run_ok s"
  shows "snd (transmitter_send M c (chan s)) = Ok ()"
  using assms by (auto simp: run_ok_def transmitter_send_def Let_def split: prod.split)

lemma run_ok_step:
  assumes "run_ok s" "run_step M s s'"
  shows "run_ok s'"
  using assms(2)
proof (cases rule: run_step.cases)
  case (send_panic c ch)
  with run_ok_no_panic [OF assms(1), of c] show ?thesis by simp
next
  case disconnect
  then show ?thesis
    using assms(1) by (auto simp: run_ok_def listener_ok_def due_def transmitter_drop_def Let_def)
qed (use assms run_ok_send run_ok_join run_ok_poll run_ok_leave in \<open>auto dest: run_ok_join\<close>)

lemma reachable_ok: "reachable M s \<Longrightarrow> run_ok s"
  by (induction rule: reachable.induct) (auto intro: run_ok_start run_ok_step)

text \<open>What a send does to the listener list, in a run.\<close>

lemma reachable_send:
  assumes "reachable M s" "transmitter_send M c (chan s) = (ch, r)"
  shows "r = Ok ()"
    "listeners ch = filter (\<lambda>i. accepts (queues (chan s) ! i)) (listeners (chan s))"
    "i < length (queues (chan s)) \<Longrightarrow> queued (queues ch ! i) =
      queued (queues (chan s) ! i) @ (if i \<in> set (listeners ch) then [c] else [])"
proof -
  have ok: "\<not> poisoned (chan s)" "distinct (listeners (chan s))"
    "set (listeners (chan s)) \<subseteq> {..<length (queues (chan s))}"
    using reachable_ok [OF assms(1)] by (simp_all add: run_ok_def)
  obtain kept qs where kept: "retain_send M c (listeners (chan s)) (queues (chan s)) = (kept, qs)"
    by (cases "retain_send M c (listeners (chan s)) (queues (chan s))")
  then have "r = Ok () \<and> listeners ch = kept \<and> queues ch = qs"
    using assms(2) ok(1) by (auto simp: transmitter_send_eq)
  with retain_send_spec [OF kept ok(2,3)] show "r = Ok ()"
    "listeners ch = filter (\<lambda>i. accepts (queues (chan s) ! i)) (listeners (chan s))"
    "i < length (queues (chan s)) \<Longrightarrow> queued (queues ch ! i) =
      queued (queues (chan s) ! i) @ (if i \<in> set (listeners ch) then [c] else [])"
    by auto
qed

text \<open>A queue never holds more than its six messages.\<close>

lemma reachable_capacity:
  "reachable M s \<Longrightarrow> i < length (queues (chan s)) \<Longrightarrow>
    capacity (queues (chan s) ! i) = 6 \<and> length (queued (queues (chan s) ! i)) \<le> 6"
  using reachable_ok by (auto simp: run_ok_def listener_ok_def Let_def)

end

context bounded_mpsc
begin

lemma reachable_received:
  assumes "reachable M s" "i < length (received s)"
  shows "prefix (received s ! i) (due s i)"
    and "i \<in> set (listeners (chan s)) \<Longrightarrow> i \<notin> left s \<Longrightarrow>
      received s ! i @ queued (queues (chan s) ! i) = due s i"
  using reachable_ok [OF assms(1)] assms(2)
  by (auto simp: run_ok_def listener_ok_def Let_def dest: append_prefixD)

lemma reachable_no_panic:
  assumes "reachable M s"
  shows "\<not> poisoned (chan s)" "snd (transmitter_send M c (chan s)) = Ok ()"
    "snd (listener_new M (chan s)) = Ok (length (queues (chan s)))"
proof -
  show "\<not> poisoned (chan s)" using reachable_ok [OF assms] by (simp add: run_ok_def)
  show "snd (transmitter_send M c (chan s)) = Ok ()"
    using reachable_ok [OF assms] by (rule run_ok_no_panic)
  obtain ch r where "listener_new M (chan s) = (ch, r)" by (cases "listener_new M (chan s)")
  then show "snd (listener_new M (chan s)) = Ok (length (queues (chan s)))"
    using run_ok_join [OF reachable_ok [OF assms]] by simp
qed

text \<open>Sending in terms of the six messages a queue holds.\<close>

lemma reachable_send_listeners:
  assumes "reachable M s" "transmitter_send M c (chan s) = (ch, r)"
  shows "listeners ch = filter (\<lambda>i. receiving (queues (chan s) ! i) \<and>
      length (queued (queues (chan s) ! i)) < 6) (listeners (chan s))"
proof -
  have "i < length (queues (chan s))" if "i \<in> set (listeners (chan s))" for i
    using reachable_ok [OF assms(1)] that by (auto simp: run_ok_def)
  then show ?thesis
    using reachable_send(2) [OF assms] reachable_capacity [OF assms(1)]
    by (auto simp: accepts_def intro!: filter_cong)
qed

end

section \<open>The header for late listeners\<close>

lemma transmitter_send_header:
  "header_chunk (fst (transmitter_send M c ch)) =
    (if \<not> poisoned ch \<and> is_headers c then Some c else header_chunk ch)"
  by (simp add: transmitter_send_eq split: prod.split)

lemma listener_new_header: "header_chunk (fst (listener_new M ch)) = header_chunk ch"
  by (auto simp: listener_new_def Let_def split: option.split prod.split bool.split)

lemma listener_poll_header: "header_chunk (fst (listener_poll_next M i ch)) = header_chunk ch"
  by (simp add: listener_poll_next_def split: prod.split)

lemma transmitter_drop_header: "header_chunk (transmitter_drop ch) = (if poisoned ch then header_chunk ch else None)"
  by (simp add: transmitter_drop_def)

lemma listener_drop_header: "header_chunk (listener_drop M i ch) = header_chunk ch"
  by (simp add: listener_drop_def)

definition headers_only :: "'q run \<Rightarrow> bool" where
  "headers_only s \<longleftrightarrow>
    (\<forall>h. header_chunk (chan s) = Some h \<longrightarrow> is_headers h) \<and>
    (\<forall>g \<in> set (greeting s). \<forall>h \<in> set g. is_headers h)"

lemma run_step_header:
  assumes "run_step M s s'" "headers_only s"
  shows "headers_only s'"
  using assms(1)
proof (cases rule: run_step.cases)
  case (send c ch)
  with assms(2) transmitter_send_header [of M c "chan s"] show ?thesis
    by (auto simp: headers_only_def split: if_splits)
next
  case (send_panic c ch)
  with assms(2) transmitter_send_header [of M c "chan s"] show ?thesis
    by (auto simp: headers_only_def split: if_splits)
next
  case disconnect
  with assms(2) show ?thesis
    by (auto simp: headers_only_def transmitter_drop_header split: if_splits)
next
  case (join ch i)
  with assms(2) listener_new_header [of M "chan s"] show ?thesis
    by (auto simp: headers_only_def split: option.splits)
next
  case (join_panic ch)
  with assms(2) listener_new_header [of M "chan s"] show ?thesis by (auto simp: headers_only_def)
next
  case (poll i ch r)
  with assms(2) listener_poll_header [of M i "chan s"] show ?thesis by (auto simp: headers_only_def)
next
  case (leave i)
  with assms(2) show ?thesis by (auto simp: headers_only_def listener_drop_header)
qed

lemma reachable_headers: "reachable M s \<Longrightarrow> headers_only s"
proof (induction rule: reachable.induct)
  case (start n)
  show ?case by (simp add: headers_only_def run_start_def channel_new_def)
qed (rule run_step_header)

text \<open>A greeting is an initialization segment.\<close>

lemma reachable_greeting: "reachable M s \<Longrightarrow> g \<in> set (greeting s) \<Longrightarrow> h \<in> set g \<Longrightarrow> is_headers h"
  by (drule reachable_headers) (auto simp: headers_only_def)

section \<open>What is kept was sent\<close>

definition headers_sent :: "'q run \<Rightarrow> bool" where
  "headers_sent s \<longleftrightarrow>
    (\<forall>h. header_chunk (chan s) = Some h \<longrightarrow> h \<in> set (sent s)) \<and>
    (\<forall>g \<in> set (greeting s). set g \<subseteq> set (sent s))"

context bounded_mpsc
begin

lemma reachable_headers_sent: "reachable M s \<Longrightarrow> headers_sent s"
proof (induction rule: reachable.induct)
  case (start n)
  show ?case by (simp add: headers_sent_def run_start_def channel_new_def)
next
  case (step s s')
  from step.hyps(2) show ?case
  proof (cases rule: run_step.cases)
    case (send c ch)
    with step.IH transmitter_send_header [of M c "chan s"] show ?thesis
      by (auto simp: headers_sent_def split: if_splits)
  next
    case (send_panic c ch)
    with reachable_no_panic(2) [OF step.hyps(1), of c] show ?thesis by simp
  next
    case disconnect
    with step.IH show ?thesis by (auto simp: headers_sent_def transmitter_drop_header split: if_splits)
  next
    case (join ch i)
    with step.IH listener_new_header [of M "chan s"] show ?thesis
      by (auto simp: headers_sent_def split: option.splits)
  next
    case (join_panic ch)
    with step.IH listener_new_header [of M "chan s"] show ?thesis by (auto simp: headers_sent_def)
  next
    case (poll i ch r)
    with step.IH listener_poll_header [of M i "chan s"] show ?thesis by (auto simp: headers_sent_def)
  next
    case (leave i)
    with step.IH show ?thesis by (auto simp: headers_sent_def listener_drop_header)
  qed
qed

text \<open>All a listener is due, and the header that is kept, was sent.\<close>

lemma reachable_due_sent:
  assumes "reachable M s" "i < length (queues (chan s))"
  shows "set (due s i) \<subseteq> set (sent s)"
proof -
  have "greeting s ! i \<in> set (greeting s)"
    using reachable_ok [OF assms(1)] assms(2) by (auto simp: run_ok_def)
  with reachable_headers_sent [OF assms(1)] show ?thesis
    by (auto simp: headers_sent_def due_def dest: in_set_dropD)
qed

lemma reachable_header_sent: "reachable M s \<Longrightarrow> header_chunk (chan s) = Some h \<Longrightarrow> h \<in> set (sent s)"
  using reachable_headers_sent by (auto simp: headers_sent_def)

text \<open>The chunks in a queue were sent, and so was the one a listener takes.\<close>

lemma reachable_queued_sent:
  assumes "reachable M s" "i < length (queues (chan s))"
  shows "set (queued (queues (chan s) ! i)) \<subseteq> set (sent s)"
proof -
  have "listener_ok s i" using reachable_ok [OF assms(1)] assms(2) by (simp add: run_ok_def)
  then have "prefix (received s ! i @ queued (queues (chan s) ! i)) (due s i)"
    by (simp add: listener_ok_def Let_def)
  from set_mono_prefix [OF this] have "set (queued (queues (chan s) ! i)) \<subseteq> set (due s i)" by simp
  with reachable_due_sent [OF assms] show ?thesis by blast
qed

lemma reachable_polled_sent:
  assumes "reachable M s" "i < length (received s)" "i \<notin> left s"
    and "listener_poll_next M i (chan s) = (ch, Ready (Some c))"
  shows "c \<in> set (sent s)"
proof -
  let ?s = "s\<lparr>chan := ch, received := (received s)[i := received s ! i @ [c]]\<rparr>"
  have i: "i < length (queues (chan s))" using reachable_ok [OF assms(1)] assms(2) by (simp add: run_ok_def)
  have "reachable M ?s" using reachable.step [OF assms(1) run_step.poll [OF assms(2-4)]] by simp
  then have "prefix (received ?s ! i) (due ?s i)" by (rule reachable_received(1)) (use assms(2) in simp)
  from set_mono_prefix [OF this] have "c \<in> set (due s i)" using assms(2) by (auto simp: due_def)
  with reachable_due_sent [OF assms(1) i] show ?thesis by blast
qed

end

section \<open>After a transmitter was dropped\<close>

text \<open>
  From a state \<open>s\<close> without a header on, as long as no header is sent: the header stays
  forgotten, and those who join are greeted with nothing.
\<close>

definition no_header_since :: "'q run \<Rightarrow> 'q run \<Rightarrow> bool" where
  "no_header_since s s' \<longleftrightarrow>
    prefix (sent s) (sent s') \<and> length (greeting s) \<le> length (greeting s') \<and>
    length (joined_at s') = length (greeting s') \<and>
    (\<not> list_ex is_headers (drop (length (sent s)) (sent s')) \<longrightarrow>
      header_chunk (chan s') = None \<and>
      (\<forall>i. length (greeting s) \<le> i \<and> i < length (greeting s') \<longrightarrow>
        greeting s' ! i = [] \<and> length (sent s) \<le> joined_at s' ! i))"

lemma no_header_since_frame:
  assumes "no_header_since s s1" "sent s2 = sent s1" "greeting s2 = greeting s1" "joined_at s2 = joined_at s1"
    and "header_chunk (chan s1) = None \<Longrightarrow> header_chunk (chan s2) = None"
  shows "no_header_since s s2"
  using assms by (simp add: no_header_since_def)

lemma no_header_since_step:
  assumes "run_step M s1 s2" "no_header_since s s1"
  shows "no_header_since s s2"
  using assms(1)
proof (cases rule: run_step.cases)
  case (send c ch)
  have "length (sent s) \<le> length (sent s1)" using assms(2) by (auto simp: no_header_since_def dest: prefix_length_le)
  then have "drop (length (sent s)) (sent s1 @ [c]) = drop (length (sent s)) (sent s1) @ [c]" by simp
  moreover have "header_chunk ch = (if is_headers c then Some c else header_chunk (chan s1))"
    using transmitter_send_header [of M c "chan s1"] send by (auto simp: transmitter_send_def split: if_splits)
  ultimately show ?thesis
    using assms(2) send by (auto simp: no_header_since_def)
next
  case (send_panic c ch)
  have "poisoned (chan s1)" using send_panic by (auto simp: transmitter_send_eq split: if_splits prod.splits)
  with assms(2) send_panic transmitter_send_header [of M c "chan s1"] show ?thesis
    by (intro no_header_since_frame [OF assms(2)]) (auto split: if_splits)
next
  case disconnect
  then show ?thesis
    by (intro no_header_since_frame [OF assms(2)]) (simp_all add: transmitter_drop_header)
next
  case (join ch i)
  have "length (sent s) \<le> length (sent s1)" using assms(2) by (auto simp: no_header_since_def dest: prefix_length_le)
  with assms(2) join listener_new_header [of M "chan s1"] show ?thesis
    by (auto simp: no_header_since_def nth_append less_Suc_eq)
next
  case (join_panic ch)
  with listener_new_header [of M "chan s1"] show ?thesis
    by (intro no_header_since_frame [OF assms(2)]) auto
next
  case (poll i ch r)
  with listener_poll_header [of M i "chan s1"] show ?thesis
    by (intro no_header_since_frame [OF assms(2)]) auto
next
  case (leave i)
  then show ?thesis
    by (intro no_header_since_frame [OF assms(2)]) (simp_all add: listener_drop_header)
qed

lemma reachable_steps: "(run_step M)\<^sup>*\<^sup>* s s' \<Longrightarrow> reachable M s \<Longrightarrow> reachable M s'"
  by (induction rule: rtranclp_induct) (auto intro: reachable.step)

context bounded_mpsc
begin

lemma joined_without_header:
  assumes "reachable M s" "header_chunk (chan s) = None" "(run_step M)\<^sup>*\<^sup>* s s'"
    and "\<not> list_ex is_headers (drop (length (sent s)) (sent s'))"
  shows "header_chunk (chan s') = None"
    and "length (received s) \<le> i \<Longrightarrow> i < length (received s') \<Longrightarrow>
      prefix (received s' ! i) (drop (joined_at s' ! i) (sent s')) \<and> length (sent s) \<le> joined_at s' ! i \<and>
      \<not> list_ex is_headers (received s' ! i)"
proof -
  have r': "reachable M s'" using reachable_steps [OF assms(3,1)] .
  have "no_header_since s s"
    using reachable_ok [OF assms(1)] assms(2) by (auto simp: no_header_since_def run_ok_def)
  with assms(3) have since: "no_header_since s s'"
    by (induction rule: rtranclp_induct) (auto intro: no_header_since_step)
  then show "header_chunk (chan s') = None" using assms(4) by (simp add: no_header_since_def)
  assume i: "length (received s) \<le> i" "i < length (received s')"
  have "length (received s) = length (greeting s)" "length (received s') = length (greeting s')"
    using reachable_ok [OF assms(1)] reachable_ok [OF r'] by (simp_all add: run_ok_def)
  then have g: "greeting s' ! i = []" "length (sent s) \<le> joined_at s' ! i"
    using since assms(4) i by (simp_all add: no_header_since_def)
  then have p: "prefix (received s' ! i) (drop (joined_at s' ! i) (sent s'))"
    using reachable_received(1) [OF r' i(2)] by (simp add: due_def)
  have "set (received s' ! i) \<subseteq> set (drop (joined_at s' ! i) (sent s'))" using p by (rule set_mono_prefix)
  also have "\<dots> \<subseteq> set (drop (length (sent s)) (sent s'))" using g(2) by (rule set_drop_subset_set_drop)
  finally show "prefix (received s' ! i) (drop (joined_at s' ! i) (sent s')) \<and> length (sent s) \<le> joined_at s' ! i \<and>
      \<not> list_ex is_headers (received s' ! i)"
    using p g(2) assms(4) by (auto simp: list_ex_iff)
qed

text \<open>Such a state is the one after any transmitter was dropped.\<close>

lemma disconnected:
  assumes "reachable M s"
  shows "reachable M (s\<lparr>chan := transmitter_drop (chan s)\<rparr>)" "header_chunk (transmitter_drop (chan s)) = None"
  using reachable.step [OF assms run_step.disconnect] reachable_no_panic(1) [OF assms]
  by (simp_all add: transmitter_drop_def)

end

end
