(* ===== verification/Viewer.thy ===== *)
theory Viewer
  imports Fixers Starting_Point Channel
begin

text \<open>
  The stream a viewer is answered with, \<open>get_stream\<close> of \<open>src/commands/relay.rs\<close>: a listener,
  the timecode fixer, the starting point finder, and the pieces of the chunks they let
  through. A poll takes turns; between two turns other tasks may use the channel, so a turn
  is the step that is modelled. The combinators \<open>map\<close>, \<open>map_ok\<close> and \<open>try_flatten\<close> of the
  crate \<open>futures\<close> have their documented meaning: \<open>try_flatten\<close> runs through the current inner
  stream before it polls for the next one.
\<close>

section \<open>The stream\<close>

text \<open>
  \<open>tuned\<close> is the index of the listener's queue, \<open>got_header\<close> and \<open>got_keyframe\<close> are the two
  flags of the finder, \<open>unread\<close> is the chunk that is being run through.
\<close>

record viewer =
  tuned :: nat
  fixer :: timecode_fixer
  got_header :: bool
  got_keyframe :: bool
  unread :: "chunk option"

definition viewer_new :: "nat \<Rightarrow> viewer" where
  "viewer_new i =
    \<lparr>tuned = i, fixer = fixer_new, got_header = False, got_keyframe = False, unread = None\<rparr>"

text \<open>A turn either goes on within the same poll or is what the poll returns.\<close>

datatype 'a step = Again | Yield 'a

type_synonym piece_poll = "(unit, bytes) outcome option poll"

text \<open>What the adapters make of a chunk the listener delivers.\<close>

definition viewer_accept :: "rt \<Rightarrow> chunk \<Rightarrow> viewer \<Rightarrow> viewer \<times> piece_poll step" where
  "viewer_accept E chunk v =
    (case process E (fixer v) chunk of
       Ok (f, fixed) \<Rightarrow>
         (case finder_turn (got_header v) (got_keyframe v) (Ready (Some (Ok fixed)) :: unit chunk_poll) of
            (gh, gk, found) \<Rightarrow>
              (v\<lparr>fixer := f, got_header := gh, got_keyframe := gk,
                 unread := (case found of Some _ \<Rightarrow> Some fixed | None \<Rightarrow> None)\<rparr>, Again))
     | Err e \<Rightarrow> (v, Yield (Ready (Some (Err e))))
     | Panic \<Rightarrow> (v, Yield (Ready (Some Panic))))"

definition viewer_turn :: "rt \<Rightarrow> 'q mpsc \<Rightarrow> viewer \<Rightarrow> 'q channel \<Rightarrow> viewer \<times> 'q channel \<times> piece_poll step" where
  "viewer_turn E M v ch =
    (case unread v of
       Some c \<Rightarrow>
         (case chunk_next c of
            (c', Some piece) \<Rightarrow> (v\<lparr>unread := Some c'\<rparr>, ch, Yield (Ready (Some (Ok piece))))
          | (_, None) \<Rightarrow> (v\<lparr>unread := None\<rparr>, ch, Again))
     | None \<Rightarrow>
         (case listener_poll_next M (tuned v) ch of
            (ch, Ready (Some chunk)) \<Rightarrow>
              (case viewer_accept E chunk v of (v, r) \<Rightarrow> (v, ch, r))
          | (ch, Ready None) \<Rightarrow> (v, ch, Yield (Ready None))
          | (ch, Pending) \<Rightarrow> (v, ch, Yield Pending)))"

section \<open>A pass over chunks\<close>

text \<open>
  The adapters as one pass over the chunks delivered so far: the state they are left in, and
  the chunks let through, retimed.
\<close>

type_synonym adapters = "timecode_fixer \<times> bool \<times> bool"

definition fresh_adapters :: adapters where
  "fresh_adapters = (fixer_new, False, False)"

fun adapt :: "rt \<Rightarrow> adapters \<Rightarrow> chunk \<Rightarrow> (unit, adapters \<times> chunk list) outcome" where
  "adapt E (f, gh, gk) c =
    and_then (process E f c) (\<lambda>(f', fixed).
      case finder_turn gh gk (Ready (Some (Ok fixed)) :: unit chunk_poll) of
        (gh', gk', found) \<Rightarrow>
          Ok ((f', gh', gk'), case found of Some _ \<Rightarrow> [fixed] | None \<Rightarrow> []))"

fun adapt_all :: "rt \<Rightarrow> adapters \<Rightarrow> chunk list \<Rightarrow> (unit, adapters \<times> chunk list) outcome" where
  "adapt_all E s [] = Ok (s, [])"
| "adapt_all E s (c # cs) =
    and_then (adapt E s c) (\<lambda>(s', out).
    and_then (adapt_all E s' cs) (\<lambda>(s'', out'). Ok (s'', out @ out')))"

definition pieces :: "chunk list \<Rightarrow> bytes list" where
  "pieces cs = concat (map chunk_pieces cs)"

lemma pieces_simps [simp]:
  "pieces [] = []" "pieces (c # cs) = chunk_pieces c @ pieces cs" "pieces (cs @ ds) = pieces cs @ pieces ds"
  by (simp_all add: pieces_def)

definition adapters_of :: "viewer \<Rightarrow> adapters" where
  "adapters_of v = (fixer v, got_header v, got_keyframe v)"

definition unread_pieces :: "viewer \<Rightarrow> bytes list" where
  "unread_pieces v = (case unread v of Some c \<Rightarrow> chunk_pieces c | None \<Rightarrow> [])"

lemma adapt_all_snoc:
  "adapt_all E s (cs @ [c]) =
    and_then (adapt_all E s cs) (\<lambda>(s', out).
    and_then (adapt E s' c) (\<lambda>(s'', out'). Ok (s'', out @ out')))"
proof (induction cs arbitrary: s)
  case Nil
  show ?case by (cases "adapt E s c") auto
next
  case (Cons d cs)
  show ?case by (cases "adapt E s d") (auto simp: Cons.IH and_then_assoc split_beta)
qed

text \<open>The pass with \<open>process_all\<close> and the finder one after the other.\<close>

lemma adapt_all_gate:
  "adapt_all E (f, gh, gk) cs = Ok (s, out) \<Longrightarrow>
    \<exists>fixed. process_all E f cs = Ok fixed \<and>
      map Ok out = gate gh gk (map Ok fixed :: unit item list)"
proof (induction cs arbitrary: f gh gk s out)
  case (Cons c cs)
  obtain f1 fixed where p: "process E f c = (Ok (f1, fixed) :: (unit, _) outcome)"
    using Cons.prems by (cases "process E f c :: (unit, timecode_fixer \<times> chunk) outcome") auto
  obtain gh1 gk1 found where turn:
    "finder_turn gh gk (Ready (Some (Ok fixed)) :: unit chunk_poll) = (gh1, gk1, found)"
    by (cases "finder_turn gh gk (Ready (Some (Ok fixed)) :: unit chunk_poll)")
  obtain s1 out1 where rest: "adapt_all E (f1, gh1, gk1) cs = Ok (s1, out1)"
      "out = (case found of Some _ \<Rightarrow> [fixed] | None \<Rightarrow> []) @ out1"
    using Cons.prems p turn by (auto simp: and_then_Ok_iff)
  obtain fs where fs: "process_all E f1 cs = (Ok fs :: (unit, _) outcome)"
      "map Ok out1 = gate gh1 gk1 (map Ok fs :: unit item list)"
    using Cons.IH [OF rest(1)] by blast
  from turn have "gate gh gk (Ok fixed # map Ok fs :: unit item list) =
      (case found of Some _ \<Rightarrow> [Ok fixed] | None \<Rightarrow> []) @ gate gh1 gk1 (map Ok fs)"
    by (cases fixed) (auto simp: Let_def split: if_splits)
  with p fs rest(2) show ?case by (cases found) auto
qed simp

lemma script_items_Ok [simp]: "script_items (map (\<lambda>c. Ready (Some (Ok c))) cs) = map Ok cs"
  by (induction cs) simp_all

lemma pieces_found:
  "concat (map (\<lambda>r. case r of Ok c \<Rightarrow> chunk_pieces c | _ \<Rightarrow> []) (map Ok out :: unit item list)) = pieces out"
  by (simp add: pieces_def comp_def)

text \<open>The pieces as a whole, on a list of chunks.\<close>

definition get_stream :: "rt \<Rightarrow> chunk list \<Rightarrow> (unit, bytes list) outcome" where
  "get_stream E chs =
    and_then (process_all E fixer_new chs) (\<lambda>chs'.
      let found = finder_items (find_starting_point (map (\<lambda>ch. Ready (Some (Ok ch))) chs' :: unit chunk_script))
      in Ok (concat (map (\<lambda>r. case r of Ok ch \<Rightarrow> chunk_pieces ch | _ \<Rightarrow> []) found)))"

lemma adapt_all_get_stream:
  assumes "adapt_all E fresh_adapters chs = Ok (s, out)"
  shows "get_stream E chs = Ok (pieces out)"
proof -
  obtain fixed where fixed: "process_all E fixer_new chs = (Ok fixed :: (unit, _) outcome)"
    "map Ok out = gate False False (map Ok fixed :: unit item list)"
    using adapt_all_gate [OF assms [unfolded fresh_adapters_def]] by blast
  have "finder_items (find_starting_point (map (\<lambda>c. Ready (Some (Ok c))) fixed :: unit chunk_script)) =
      map Ok out"
    by (simp add: finder_items_gate find_starting_point_def fixed(2))
  with fixed(1) show ?thesis
    by (simp only: get_stream_def and_then.simps Let_def pieces_found)
qed

section \<open>What a viewer has been sent\<close>

text \<open>
  After the chunks \<open>got\<close>, a viewer that was sent the pieces \<open>out\<close> has the adapters in the state
  the pass leaves them in, and is still due the unread pieces of the last chunk.
\<close>

definition viewed :: "rt \<Rightarrow> viewer \<Rightarrow> chunk list \<Rightarrow> bytes list \<Rightarrow> bool" where
  "viewed E v got out \<longleftrightarrow>
    (\<exists>found. adapt_all E fresh_adapters got = Ok (adapters_of v, found) \<and>
      pieces found = out @ unread_pieces v)"

lemma viewed_new: "viewed E (viewer_new i) [] []"
  by (simp add: viewed_def viewer_new_def fresh_adapters_def adapters_of_def unread_pieces_def)

text \<open>The chunk a turn takes from the queue and the piece it hands on.\<close>

definition taken :: "'q mpsc \<Rightarrow> viewer \<Rightarrow> 'q channel \<Rightarrow> chunk list" where
  "taken M v ch =
    (case (unread v, listener_poll_next M (tuned v) ch) of
       (None, _, Ready (Some c)) \<Rightarrow> [c]
     | _ \<Rightarrow> [])"

fun yielded :: "piece_poll step \<Rightarrow> bytes list" where
  "yielded (Yield (Ready (Some (Ok piece)))) = [piece]"
| "yielded _ = []"

text \<open>An error or a panic ends the stream.\<close>

fun failed :: "piece_poll step \<Rightarrow> bool" where
  "failed (Yield (Ready (Some (Ok _)))) = False"
| "failed (Yield (Ready (Some _))) = True"
| "failed _ = False"

lemma viewed_accept:
  assumes "viewed E v got out" "unread v = None" "viewer_accept E c v = (v', r)" "\<not> failed r"
  shows "viewed E v' (got @ [c]) out \<and> r = Again \<and> tuned v' = tuned v"
proof -
  obtain f fixed where p: "process E (fixer v) c = (Ok (f, fixed) :: (unit, _) outcome)"
    using assms(3,4) by (cases "process E (fixer v) c :: (unit, timecode_fixer \<times> chunk) outcome")
      (auto simp: viewer_accept_def)
  obtain gh gk found where turn: "finder_turn (got_header v) (got_keyframe v)
      (Ready (Some (Ok fixed)) :: unit chunk_poll) = (gh, gk, found)"
    by (cases "finder_turn (got_header v) (got_keyframe v) (Ready (Some (Ok fixed)) :: unit chunk_poll)")
  obtain lets where pass: "adapt_all E fresh_adapters got = Ok (adapters_of v, lets)" "pieces lets = out"
    using assms(1,2) by (auto simp: viewed_def unread_pieces_def)
  have v': "v' = v\<lparr>fixer := f, got_header := gh, got_keyframe := gk,
      unread := (case found of Some _ \<Rightarrow> Some fixed | None \<Rightarrow> None)\<rparr>" "r = Again"
    using assms(3) p turn by (auto simp: viewer_accept_def)
  have "adapt_all E fresh_adapters (got @ [c]) =
      Ok (adapters_of v', lets @ (case found of Some _ \<Rightarrow> [fixed] | None \<Rightarrow> []))"
    using pass(1) p turn by (simp add: adapt_all_snoc adapters_of_def v')
  moreover have "unread_pieces v' = pieces (case found of Some _ \<Rightarrow> [fixed] | None \<Rightarrow> [])"
    by (simp add: unread_pieces_def v' split: option.split)
  ultimately show ?thesis
    using pass(2) v' by (auto simp: viewed_def)
qed

lemma chunk_pieces_next:
  "chunk_next c = (c', Some piece) \<Longrightarrow> chunk_pieces c = piece # chunk_pieces c'"
  "chunk_next c = (c', None) \<Longrightarrow> chunk_pieces c = []"
  by (subst chunk_pieces.simps, simp)+

lemma viewed_turn:
  assumes "viewed E v got out" "viewer_turn E M v ch = (v', ch', r)" "\<not> failed r"
  shows "viewed E v' (got @ taken M v ch) (out @ yielded r) \<and> tuned v' = tuned v"
proof (cases "unread v")
  case (Some c)
  obtain c' p where "chunk_next c = (c', p)" by (cases "chunk_next c")
  with Some assms chunk_pieces_next [of c c'] show ?thesis
    by (cases p) (auto simp: viewer_turn_def viewed_def taken_def unread_pieces_def adapters_of_def)
next
  case None
  obtain ch1 polled where poll: "listener_poll_next M (tuned v) ch = (ch1, polled)"
    by (cases "listener_poll_next M (tuned v) ch")
  show ?thesis
  proof (cases polled)
    case (Ready o')
    show ?thesis
    proof (cases o')
      case (Some c)
      obtain v1 r1 where acc: "viewer_accept E c v = (v1, r1)" by (cases "viewer_accept E c v")
      with viewed_accept [OF assms(1) None acc] assms(2,3) None poll Ready Some show ?thesis
        by (auto simp: viewer_turn_def taken_def)
    qed (use assms None poll Ready in \<open>auto simp: viewer_turn_def taken_def\<close>)
  qed (use assms None poll in \<open>auto simp: viewer_turn_def taken_def\<close>)
qed

text \<open>A turn does not fail if the stream of the chunks up to the one it takes does not.\<close>

lemma adapt_all_process:
  "adapt_all E (f, gh, gk) cs = Ok ((f', gh', gk'), out) \<Longrightarrow>
    process_all E f (cs @ ds) = (Ok all :: (unit, _) outcome) \<Longrightarrow>
    \<exists>ds'. process_all E f' ds = (Ok ds' :: (unit, _) outcome)"
proof (induction cs arbitrary: f gh gk out all)
  case (Cons c cs)
  then show ?case
    by (fastforce simp: and_then_Ok_iff split_beta)
qed auto

lemma get_stream_Ok_iff:
  "(\<exists>out. get_stream E cs = Ok out) \<longleftrightarrow> (\<exists>fixed. process_all E fixer_new cs = (Ok fixed :: (unit, _) outcome))"
  by (auto simp: get_stream_def and_then_Ok_iff Let_def)

lemma viewer_turn_fine:
  assumes "viewed E v got out" "viewer_turn E M v ch = (v', ch', y)"
    and "get_stream E (got @ taken M v ch @ rest) = Ok all"
  shows "\<not> failed y"
proof (cases "taken M v ch")
  case Nil
  then show ?thesis
    using assms(2) by (auto simp: viewer_turn_def taken_def split: option.splits prod.splits poll.splits)
next
  case (Cons c cs)
  obtain f gh gk lets where pass: "adapt_all E fresh_adapters got = Ok ((f, gh, gk), lets)" "f = fixer v"
    using assms(1) by (auto simp: viewed_def adapters_of_def)
  obtain fixed where "process_all E fixer_new (got @ taken M v ch @ rest) = (Ok fixed :: (unit, _) outcome)"
    using assms(3) get_stream_Ok_iff by blast
  from adapt_all_process [OF pass(1) [unfolded fresh_adapters_def] this] Cons pass(2)
  obtain x where "process E (fixer v) c = (Ok x :: (unit, _) outcome)"
    by (auto simp: and_then_Ok_iff)
  then have "\<not> failed r" if "viewer_accept E c v = (w, r)" for w r
    using that by (auto simp: viewer_accept_def split: prod.splits)
  with assms(2) Cons show ?thesis
    by (auto simp: viewer_turn_def taken_def split: option.splits prod.splits poll.splits)
qed

text \<open>The channel after a turn: as it was, or as the listener's poll leaves it.\<close>

lemma viewer_turn_channel:
  "viewer_turn E M v ch = (v', ch', r) \<Longrightarrow>
    ch' = (if unread v = None then fst (listener_poll_next M (tuned v) ch) else ch)"
  by (auto simp: viewer_turn_def split: option.splits prod.splits poll.splits)

end
