(* ===== verification/Upload.thy ===== *)
theory Upload
  imports Chunk_Bounds Channel
begin

text \<open>
  The stream an upload is answered with, \<open>post_stream\<close> of \<open>src/commands/relay.rs\<close>: the body of
  the request is parsed and chunked under soft limits, and each chunk goes to the channel.
\<close>

section \<open>The stream\<close>

definition BUFFER_LIMIT :: nat where "BUFFER_LIMIT = 2 * 1024 * 1024"

definition relay_chunker :: "'e source \<Rightarrow> 'e chunker" where
  "relay_chunker body =
    chunker_with_soft_limit (chunk_webm (with_soft_limit (parse_ebml body) BUFFER_LIMIT)) BUFFER_LIMIT"

text \<open>One poll of the stream an upload is answered with: chunks go to the channel.\<close>

definition post_poll ::
    "rt \<Rightarrow> ('e \<Rightarrow> 'x webmetro_error) \<Rightarrow> 'q mpsc \<Rightarrow> 'e chunker \<times> 'q channel \<Rightarrow>
     ('e chunker \<times> 'q channel) \<times> ('x webmetro_error, bytes) outcome option poll" where
  "post_poll E cv M st =
    (case st of (c, ch) \<Rightarrow>
       (case poll_next E cv c of
          (c', Ready (Some (Ok chunk))) \<Rightarrow>
            (case transmitter_send M chunk ch of
               (ch', Ok _) \<Rightarrow> ((c', ch'), Ready (Some (Ok [])))
             | (ch', _) \<Rightarrow> ((c', ch'), Ready (Some Panic)))
        | (c', Ready (Some (Err e))) \<Rightarrow> ((c', ch), Ready (Some (Err e)))
        | (c', Ready (Some Panic)) \<Rightarrow> ((c', ch), Ready (Some Panic))
        | (c', Ready None) \<Rightarrow> ((c', ch), Ready None)
        | (c', Pending) \<Rightarrow> ((c', ch), Pending)))"

section \<open>The chunks of an upload are bounded\<close>

text \<open>By the limits and the largest piece of input.\<close>

context big_endian
begin

lemma relay_chunks_sized:
  fixes cv :: "'e \<Rightarrow> 'x webmetro_error"
  assumes "\<And>d. SourceData d \<in> set body \<Longrightarrow> length d \<le> m" "m < 2 ^ 60"
    "ch \<in> set (fst (all_chunks E cv (relay_chunker body)))"
  shows "chunk_sized (2 * BUFFER_LIMIT + m) ch"
proof -
  let ?c = "relay_chunker body"
  have max: "max (BUFFER_LIMIT + m) 15 = BUFFER_LIMIT + m"
    by (simp add: BUFFER_LIMIT_def)
  have "chunk_sized (BUFFER_LIMIT + max (BUFFER_LIMIT + m) 15) ch"
  proof (rule all_chunks_sized [OF _ _ _ _ assms(3)])
    show "chunk_size_limit ?c = Some BUFFER_LIMIT"
      by (simp add: relay_chunker_def chunker_with_soft_limit_def)
    show "parser_sized BUFFER_LIMIT m (source ?c)"
      using assms(1) by (simp add: relay_chunker_def chunker_with_soft_limit_def chunk_webm_def
          with_soft_limit_def parse_ebml_def parser_sized_def)
    show "state_sized (BUFFER_LIMIT + max (BUFFER_LIMIT + m) 15) (chunk_state ?c)"
      by (simp add: relay_chunker_def chunker_with_soft_limit_def chunk_webm_def)
    show "BUFFER_LIMIT + max (BUFFER_LIMIT + m) 15 < 2 ^ 64"
      using assms(2) max by (simp add: BUFFER_LIMIT_def)
  qed
  then show ?thesis by (simp add: max mult_2 add.assoc)
qed

end

end
