(* ===== verification/Relay.thy ===== *)
theory Relay
  imports Viewer Upload
begin

text \<open>
  The relay server, \<open>run\<close> of \<open>src/commands/relay.rs\<close>: its registry of channels, the handlers
  of requests, and the connections they leave behind, an upload being polled and a viewer
  being served. Binding sockets and the HTTP protocol are left to the crates \<open>warp\<close> and \<open>hyper\<close>.
\<close>

section \<open>Operations on a channel, with their history\<close>

text \<open>
  Each channel is kept with the history of its clients (the record \<open>run\<close>). What an
  operation does to the channel is the code's; the rest records it.
\<close>

definition run_update :: "'q run \<Rightarrow> 'q channel \<Rightarrow> chunk list \<Rightarrow> 'q run" where
  "run_update s ch uploaded = s\<lparr>chan := ch, sent := sent s @ uploaded\<rparr>"

definition run_join :: "'q mpsc \<Rightarrow> 'q run \<Rightarrow> 'q run \<times> (unit, nat) outcome" where
  "run_join M s =
    (case listener_new M (chan s) of
       (ch, Ok i) \<Rightarrow>
         (s\<lparr>chan := ch,
            greeting := greeting s @ [case header_chunk (chan s) of Some h \<Rightarrow> [h] | None \<Rightarrow> []],
            joined_at := joined_at s @ [length (sent s)], received := received s @ [[]]\<rparr>, Ok i)
     | (ch, r) \<Rightarrow> (s\<lparr>chan := ch\<rparr>, r))"

definition run_disconnect :: "'q run \<Rightarrow> 'q run" where
  "run_disconnect s = s\<lparr>chan := transmitter_drop (chan s)\<rparr>"

definition run_leave :: "'q mpsc \<Rightarrow> nat \<Rightarrow> 'q run \<Rightarrow> 'q run" where
  "run_leave M i s = s\<lparr>chan := listener_drop M i (chan s), left := insert i (left s)\<rparr>"

definition run_receive :: "nat \<Rightarrow> 'q channel \<Rightarrow> chunk list \<Rightarrow> 'q run \<Rightarrow> 'q run" where
  "run_receive i ch got s = s\<lparr>chan := ch, received := (received s)[i := received s ! i @ got]\<rparr>"

section \<open>The registry of channels\<close>

text \<open>
  \<open>WeakValueHashMap\<close> is third-party code, so the registry is a parameter. A channel is an
  address; whether one is still alive, because a handle to it exists, is what a weak pointer
  tells. \<open>or_insert_with\<close> is given the address the new channel would have and returns the
  address found.
\<close>

record 'm weak_map =
  weak_new :: 'm
  or_insert_with :: "(nat \<Rightarrow> bool) \<Rightarrow> string \<Rightarrow> nat \<Rightarrow> 'm \<Rightarrow> 'm \<times> nat"

text \<open>
  The documented behaviour: an entry whose pointer can be upgraded is occupied, any other is
  vacant and filled; other entries stay, but expired ones may be removed.
\<close>

locale weak_registry =
  fixes W :: "'m weak_map"
    and entry :: "'m \<Rightarrow> string \<Rightarrow> nat option"
  assumes new_map: "entry (weak_new W) k = None"
    and occupied: "entry m k = Some a \<Longrightarrow> alive a \<Longrightarrow>
      \<exists>m'. or_insert_with W alive k new m = (m', a) \<and> entry m' k = Some a"
    and vacant: "(\<And>a. entry m k = Some a \<Longrightarrow> \<not> alive a) \<Longrightarrow>
      \<exists>m'. or_insert_with W alive k new m = (m', new) \<and> entry m' k = Some new"
    and other_entries: "or_insert_with W alive k new m = (m', a) \<Longrightarrow> k' \<noteq> k \<Longrightarrow>
      entry m' k' = entry m k' \<or> entry m' k' = None \<and> (\<forall>b. entry m k' = Some b \<longrightarrow> \<not> alive b)"

text \<open>A reference registry, to evaluate the model on concrete inputs: a list of entries.\<close>

definition reference_map :: "(string \<times> nat) list weak_map" where
  "reference_map =
    \<lparr>weak_new = [],
     or_insert_with = (\<lambda>alive k new m.
       case map_of m k of
         Some a \<Rightarrow> if alive a then (m, a) else ((k, new) # m, new)
       | None \<Rightarrow> ((k, new) # m, new))\<rparr>"

interpretation reference_map: weak_registry reference_map map_of
  by unfold_locales (auto simp: reference_map_def split: option.splits if_splits)

context weak_registry
begin

lemma or_insert_with_cases:
  assumes "or_insert_with W alive k new m = (m', a)"
  obtains (found) "entry m k = Some a" "alive a" "entry m' k = Some a"
  | (inserted) "a = new" "entry m' k = Some new" "\<And>b. entry m k = Some b \<Longrightarrow> \<not> alive b"
proof (cases "\<exists>b. entry m k = Some b \<and> alive b")
  case True
  then obtain b where "entry m k = Some b" "alive b" by blast
  with occupied [of m k b alive new] assms show ?thesis by (auto intro: found)
next
  case False
  then show ?thesis
    using vacant [of m k alive new] assms by (auto intro: inserted)
qed

end

section \<open>Connections and the server\<close>

text \<open>An upload holds a \<open>Transmitter\<close>, a viewer a \<open>Listener\<close>; both hold a handle to the channel.\<close>

record 'e upload =
  up_channel :: nat
  up_name :: string
  up_chunker :: "'e chunker"
  up_open :: bool

record viewing =
  view_channel :: nat
  view_name :: string
  view_state :: viewer
  view_open :: bool
  view_out :: "bytes list"

record ('q, 'm, 'e) server =
  channel_map :: 'm
  channel_runs :: "'q run list"
  uploads :: "'e upload list"
  viewings :: "viewing list"

definition server_start :: "'m weak_map \<Rightarrow> ('q, 'm, 'e) server" where
  "server_start W =
    \<lparr>channel_map = weak_new W, channel_runs = [], uploads = [], viewings = []\<rparr>"

text \<open>A channel is alive as long as a connection holds a handle to it.\<close>

definition has_handle :: "('q, 'm, 'e) server \<Rightarrow> nat \<Rightarrow> bool" where
  "has_handle s a \<longleftrightarrow>
    (\<exists>u \<in> set (uploads s). up_open u \<and> up_channel u = a) \<or>
    (\<exists>v \<in> set (viewings s). view_open v \<and> view_channel v = a)"

text \<open>The closure of the filter \<open>channel\<close>: find the channel of that name or create it.\<close>

definition channel_of :: "'m weak_map \<Rightarrow> string \<Rightarrow> ('q, 'm, 'e) server \<Rightarrow> ('q, 'm, 'e) server \<times> nat" where
  "channel_of W nm s =
    (let new = length (channel_runs s) in
     case or_insert_with W (has_handle s) nm new (channel_map s) of
       (m, a) \<Rightarrow>
         (s\<lparr>channel_map := m,
            channel_runs := (if a = new then channel_runs s @ [run_start nm] else channel_runs s)\<rparr>, a))"

section \<open>Requests and responses\<close>

datatype http_method = MethodHead | MethodGet | MethodPost | MethodPut | OtherMethod

record 'e request =
  req_method :: http_method
  req_path :: "string list"
  req_body :: "'e source"

datatype response_body = EmptyBody | ViewerBody nat | UploadBody nat

record response =
  resp_headers :: "(string \<times> string) list"
  resp_body :: response_body

definition media_response :: "response_body \<Rightarrow> response" where
  "media_response b =
    \<lparr>resp_headers = [(''content-type'', ''video/webm''), (''X-Accel-Buffering'', ''no''),
                     (''cache-control'', ''no-cache, no-store'')],
     resp_body = b\<rparr>"

text \<open>What a filter makes of a request: it is rejected, answered, or the handler panics.\<close>

datatype reply = Rejected | Reply response | HandlerPanic

definition head_handler :: "nat \<Rightarrow> string \<Rightarrow> ('q, 'm, 'e) server \<Rightarrow> ('q, 'm, 'e) server \<times> reply" where
  "head_handler a nm s = (s, Reply (media_response EmptyBody))"

definition get_handler ::
    "'q mpsc \<Rightarrow> nat \<Rightarrow> string \<Rightarrow> ('q, 'm, 'e) server \<Rightarrow> ('q, 'm, 'e) server \<times> reply" where
  "get_handler M a nm s =
    (case run_join M (channel_runs s ! a) of
       (r, Ok i) \<Rightarrow>
         (s\<lparr>channel_runs := (channel_runs s)[a := r],
            viewings := viewings s @ [\<lparr>view_channel = a, view_name = nm, view_state = viewer_new i,
              view_open = True, view_out = []\<rparr>]\<rparr>,
          Reply (media_response (ViewerBody (length (viewings s)))))
     | (r, _) \<Rightarrow> (s\<lparr>channel_runs := (channel_runs s)[a := r]\<rparr>, HandlerPanic))"

definition post_handler ::
    "'e source \<Rightarrow> nat \<Rightarrow> string \<Rightarrow> ('q, 'm, 'e) server \<Rightarrow> ('q, 'm, 'e) server \<times> reply" where
  "post_handler bdy a nm s =
    (s\<lparr>uploads := uploads s @ [\<lparr>up_channel = a, up_name = nm, up_chunker = relay_chunker bdy,
        up_open = True\<rparr>]\<rparr>,
     Reply \<lparr>resp_headers = [], resp_body = UploadBody (length (uploads s))\<rparr>)"

text \<open>
  A route is \<open>channel.and(..).map(..)\<close>: a path \<open>live/name\<close>, whose name is not empty (\<open>path!\<close>
  rejects an empty segment), looks the channel up, and only then the method is matched. \<open>or\<close> goes on with the next route if one rejects.
\<close>

definition route ::
    "'m weak_map \<Rightarrow> (http_method \<Rightarrow> bool) \<Rightarrow>
     ('e request \<Rightarrow> nat \<Rightarrow> string \<Rightarrow> ('q, 'm, 'e) server \<Rightarrow> ('q, 'm, 'e) server \<times> reply) \<Rightarrow>
     'e request \<Rightarrow> ('q, 'm, 'e) server \<Rightarrow> ('q, 'm, 'e) server \<times> reply" where
  "route W accepted handler req s =
    (case req_path req of
       [segment, nm] \<Rightarrow>
         if segment = ''live'' \<and> nm \<noteq> '''' then
           (case channel_of W nm s of
              (s, a) \<Rightarrow> if accepted (req_method req) then handler req a nm s else (s, Rejected))
         else (s, Rejected)
     | _ \<Rightarrow> (s, Rejected))"

definition or_route ::
    "('e request \<Rightarrow> 's \<Rightarrow> 's \<times> reply) \<Rightarrow> ('e request \<Rightarrow> 's \<Rightarrow> 's \<times> reply) \<Rightarrow> 'e request \<Rightarrow> 's \<Rightarrow> 's \<times> reply" where
  "or_route f g req s = (case f req s of (s, Rejected) \<Rightarrow> g req s | r \<Rightarrow> r)"

definition routes ::
    "'q mpsc \<Rightarrow> 'm weak_map \<Rightarrow> 'e request \<Rightarrow> ('q, 'm, 'e) server \<Rightarrow> ('q, 'm, 'e) server \<times> reply" where
  "routes M W =
    or_route (or_route
      (route W (\<lambda>m. m = MethodHead) (\<lambda>req. head_handler))
      (route W (\<lambda>m. m = MethodGet) (\<lambda>req. get_handler M)))
      (route W (\<lambda>m. m = MethodPost \<or> m = MethodPut) (\<lambda>req. post_handler (req_body req)))"

section \<open>Connections\<close>

text \<open>
  The end of a connection, however it comes about, drops its stream: an upload drops its
  transmitter, a viewer its receiver.
\<close>

definition close_upload :: "nat \<Rightarrow> ('q, 'm, 'e) server \<Rightarrow> ('q, 'm, 'e) server" where
  "close_upload j s =
    (let u = uploads s ! j; a = up_channel u in
     s\<lparr>uploads := (uploads s)[j := u\<lparr>up_open := False\<rparr>],
       channel_runs := (channel_runs s)[a := run_disconnect (channel_runs s ! a)]\<rparr>)"

definition close_viewing :: "'q mpsc \<Rightarrow> nat \<Rightarrow> ('q, 'm, 'e) server \<Rightarrow> ('q, 'm, 'e) server" where
  "close_viewing M j s =
    (let v = viewings s ! j; a = view_channel v in
     s\<lparr>viewings := (viewings s)[j := v\<lparr>view_open := False\<rparr>],
       channel_runs := (channel_runs s)[a := run_leave M (tuned (view_state v)) (channel_runs s ! a)]\<rparr>)"

text \<open>
  A body whose stream fails or panics is dropped by the crate \<open>hyper\<close>, which ends the
  connection; the drop is that of the transmitter.
\<close>

fun upload_failed :: "('x, bytes) outcome option poll \<Rightarrow> bool" where
  "upload_failed (Ready (Some (Ok _))) = False"
| "upload_failed (Ready (Some _)) = True"
| "upload_failed _ = False"

text \<open>A poll of an upload. The chunk it sends, if any, goes into the history.\<close>

definition sent_by :: "rt \<Rightarrow> ('e \<Rightarrow> 'e webmetro_error) \<Rightarrow> 'e chunker \<Rightarrow> chunk list" where
  "sent_by E cv c = (case poll_next E cv c of (_, Ready (Some (Ok chunk))) \<Rightarrow> [chunk] | _ \<Rightarrow> [])"

definition poll_upload :: "rt \<Rightarrow> 'q mpsc \<Rightarrow> nat \<Rightarrow> ('q, 'm, 'e) server \<Rightarrow> ('q, 'm, 'e) server" where
  "poll_upload E M j s =
    (let u = uploads s ! j; a = up_channel u; r = channel_runs s ! a in
     case post_poll E WarpError M (up_chunker u, chan r) of
       ((c, ch), polled) \<Rightarrow>
         let s' = s\<lparr>uploads := (uploads s)[j := u\<lparr>up_chunker := c\<rparr>],
                    channel_runs := (channel_runs s)[a := run_update r ch (sent_by E WarpError (up_chunker u))]\<rparr>
         in if upload_failed polled then close_upload j s' else s')"

text \<open>A turn of a viewer.\<close>

definition turn_viewing :: "rt \<Rightarrow> 'q mpsc \<Rightarrow> nat \<Rightarrow> ('q, 'm, 'e) server \<Rightarrow> ('q, 'm, 'e) server" where
  "turn_viewing E M j s =
    (let v = viewings s ! j; a = view_channel v; r = channel_runs s ! a in
     case viewer_turn E M (view_state v) (chan r) of
       (w, ch, y) \<Rightarrow>
         let got = taken M (view_state v) (chan r);
             s' = s\<lparr>viewings := (viewings s)[j := v\<lparr>view_state := w, view_out := view_out v @ yielded y\<rparr>],
                    channel_runs := (channel_runs s)[a := run_receive (tuned (view_state v)) ch got r]\<rparr>
         in if failed y then close_viewing M j s' else s')"

section \<open>Runs of the server\<close>

inductive server_step ::
    "rt \<Rightarrow> 'q mpsc \<Rightarrow> 'm weak_map \<Rightarrow> ('q, 'm, 'e) server \<Rightarrow> ('q, 'm, 'e) server \<Rightarrow> bool" for E M W where
  request: "routes M W req s = (s', r) \<Longrightarrow> server_step E M W s s'"
| upload_polled: "j < length (uploads s) \<Longrightarrow> up_open (uploads s ! j) \<Longrightarrow>
    server_step E M W s (poll_upload E M j s)"
| upload_closed: "j < length (uploads s) \<Longrightarrow> up_open (uploads s ! j) \<Longrightarrow>
    server_step E M W s (close_upload j s)"
| viewing_turned: "j < length (viewings s) \<Longrightarrow> view_open (viewings s ! j) \<Longrightarrow>
    server_step E M W s (turn_viewing E M j s)"
| viewing_closed: "j < length (viewings s) \<Longrightarrow> view_open (viewings s ! j) \<Longrightarrow>
    server_step E M W s (close_viewing M j s)"

inductive serving ::
    "rt \<Rightarrow> 'q mpsc \<Rightarrow> 'm weak_map \<Rightarrow> ('q, 'm, 'e) server \<Rightarrow> bool" for E M W where
  initial: "serving E M W (server_start W)"
| step: "serving E M W s \<Longrightarrow> server_step E M W s s' \<Longrightarrow> serving E M W s'"

inductive_cases server_stepE: "server_step E M W s s'"

lemma viewings_poll [simp]: "viewings (poll_upload E M j s) = viewings s"
  by (simp add: poll_upload_def close_upload_def Let_def split: prod.split)

text \<open>What holds after each of the three routes holds after all.\<close>

lemma routes_invariant:
  fixes P :: "('q, 'm, 'e) server \<Rightarrow> bool"
  assumes "P s"
    and found: "\<And>s nm s' a. P s \<Longrightarrow> channel_of W nm s = (s', a) \<Longrightarrow>
      P s' \<and> P (fst (get_handler M a nm s')) \<and> P (fst (post_handler (req_body req) a nm s'))"
  shows "P (fst (routes M W req s))"
proof -
  have route: "P (fst (route W p h req s))"
    if "\<And>nm s' a. channel_of W nm s = (s', a) \<Longrightarrow> P s' \<and> P (fst (h req a nm s'))" "P s" for p h s
  proof (cases "\<exists>nm. nm \<noteq> '''' \<and> req_path req = [''live'', nm]")
    case True
    then obtain nm where nm: "nm \<noteq> ''''" "req_path req = [''live'', nm]" by blast
    obtain s' a where lookup: "channel_of W nm s = (s', a)" by (cases "channel_of W nm s")
    with that(1) [OF lookup] nm show ?thesis by (simp add: route_def)
  qed (use that(2) in \<open>auto simp: route_def split: list.splits\<close>)
  have or: "P (fst (or_route f g req s))"
    if "P (fst (f req s))" "\<And>s. P s \<Longrightarrow> P (fst (g req s))" for f g and s :: "('q, 'm, 'e) server"
    using that by (auto simp: or_route_def split: prod.split reply.split)
  have "P (fst (route W (\<lambda>m. m = MethodHead) (\<lambda>req. head_handler) req s))"
    using assms(1) found by (intro route) (simp_all add: head_handler_def)
  moreover have "P (fst (route W (\<lambda>m. m = MethodGet) (\<lambda>req. get_handler M) req s))" if "P s" for s
    using that found by (intro route) simp_all
  moreover have "P (fst (route W (\<lambda>m. m = MethodPost \<or> m = MethodPut) (\<lambda>req. post_handler (req_body req)) req s))"
    if "P s" for s
    using that found by (intro route) simp_all
  ultimately show ?thesis
    unfolding routes_def by (intro or)
qed

end
