(* ===== verification/Relay_Runs.thy ===== *)
theory Relay_Runs
  imports Relay
begin

text \<open>
  The invariant of the relay server: every channel behaves as a channel on its own does,
  a name has one live channel that all its connections share, and a viewer was sent what
  its adapters make of the chunks its listener has received.
\<close>

section \<open>What the operations do to a channel and its history\<close>

text \<open>Another listener is not affected: the same chunks received, gone or not as before.\<close>

definition keeps_listener :: "nat \<Rightarrow> 'q run \<Rightarrow> 'q run \<Rightarrow> bool" where
  "keeps_listener i r r' \<longleftrightarrow>
    i < length (received r') \<and> received r' ! i = received r ! i \<and> (i \<in> left r' \<longleftrightarrow> i \<in> left r)"

lemma keeps_listener_simps [simp]:
  "i < length (received r) \<Longrightarrow> keeps_listener i r (run_update r ch cs)"
  "i < length (received r) \<Longrightarrow> keeps_listener i r (run_disconnect r)"
  "i < length (received r) \<Longrightarrow> i \<noteq> k \<Longrightarrow> keeps_listener i r (run_leave M k r)"
  "i < length (received r) \<Longrightarrow> i \<noteq> k \<Longrightarrow> keeps_listener i r (run_receive k ch cs r)"
  "i < length (received r) \<Longrightarrow> keeps_listener i r (fst (run_join M r))"
  by (auto simp: keeps_listener_def run_update_def run_disconnect_def run_leave_def run_receive_def
      run_join_def nth_append split: prod.split outcome.split)

lemma transmitter_send_name: "transmitter_send M c ch = (ch', r) \<Longrightarrow> name ch' = name ch"
  by (auto simp: transmitter_send_eq split: prod.splits if_splits)

lemma post_poll_name: "post_poll E cv M (c, ch) = ((c', ch'), r) \<Longrightarrow> name ch' = name ch"
  by (auto simp: post_poll_def dest: transmitter_send_name
      split: prod.splits poll.splits option.splits outcome.splits)

lemma run_names [simp]:
  "name (chan (run_update r ch cs)) = name ch"
  "name (chan (run_disconnect r)) = name (chan r)"
  "name (chan (run_leave M i r)) = name (chan r)"
  "name (chan (run_receive i ch cs r)) = name ch"
  "name (chan (run_start nm)) = nm"
  by (simp_all add: run_update_def run_disconnect_def run_leave_def run_receive_def run_start_def
      channel_new_def transmitter_drop_def listener_drop_def)

lemma run_join_name [simp]: "name (chan (fst (run_join M r))) = name (chan r)"
  by (auto simp: run_join_def listener_new_def Let_def split: option.split prod.split bool.split)

lemma listener_poll_next_name [simp]: "name (fst (listener_poll_next M i ch)) = name ch"
  by (simp add: listener_poll_next_def split: prod.split)

lemma sent_operations [simp]:
  "sent (fst (run_join M r)) = sent r" "sent (run_disconnect r) = sent r"
  "sent (run_leave M i r) = sent r" "sent (run_receive i ch cs r) = sent r" "sent (run_start nm) = []"
  "sent (run_update r ch cs) = sent r @ cs"
  by (auto simp: run_join_def run_disconnect_def run_leave_def run_receive_def run_start_def run_update_def
      split: prod.split outcome.split)

text \<open>Each operation is a step of a run, or leaves it as it is.\<close>

lemma reachable_disconnect: "reachable M r \<Longrightarrow> reachable M (run_disconnect r)"
  unfolding run_disconnect_def by (rule reachable.step [OF _ run_step.disconnect])

lemma reachable_leave:
  "reachable M r \<Longrightarrow> i < length (received r) \<Longrightarrow> i \<notin> left r \<Longrightarrow> reachable M (run_leave M i r)"
  unfolding run_leave_def by (rule reachable.step [OF _ run_step.leave])

lemma transmitter_send_result: "snd (transmitter_send M c ch) = Ok () \<or> snd (transmitter_send M c ch) = Panic"
  by (simp add: transmitter_send_eq split: prod.split)

lemma listener_new_result: "(\<exists>i. snd (listener_new M ch) = Ok i) \<or> snd (listener_new M ch) = Panic"
  by (auto simp: listener_new_def Let_def split: option.split prod.split bool.split)

lemma reachable_join: "reachable M r \<Longrightarrow> reachable M (fst (run_join M r))"
  using listener_new_result [of M "chan r"]
  by (cases "listener_new M (chan r)")
    (auto simp: run_join_def intro: reachable.step [OF _ run_step.join] reachable.step [OF _ run_step.join_panic])

lemma run_update_idle [simp]: "run_update r (chan r) [] = r"
  by (simp add: run_update_def)

lemma run_receive_idle [simp]: "run_receive i (chan r) [] r = r"
  by (simp add: run_receive_def)

lemma reachable_receive:
  assumes "reachable M r" "i < length (received r)" "i \<notin> left r"
    "listener_poll_next M i (chan r) = (ch, polled)"
  shows "reachable M (run_receive i ch (case polled of Ready (Some c) \<Rightarrow> [c] | _ \<Rightarrow> []) r)"
  unfolding run_receive_def
  by (rule reachable.step [OF assms(1) run_step.poll [where M = M and s = r and r = polled, OF assms(2,3,4)]])

lemma viewer_turn_run:
  assumes "reachable M r" "tuned v < length (received r)" "tuned v \<notin> left r"
    "viewer_turn E M v (chan r) = (v', ch, y)"
  shows "reachable M (run_receive (tuned v) ch (taken M v (chan r)) r)" "name ch = name (chan r)"
proof -
  obtain ch1 polled where poll: "listener_poll_next M (tuned v) (chan r) = (ch1, polled)"
    by (cases "listener_poll_next M (tuned v) (chan r)")
  note ch = viewer_turn_channel [OF assms(4)]
  have "taken M v (chan r) =
      (if unread v = None then case polled of Ready (Some c) \<Rightarrow> [c] | _ \<Rightarrow> [] else [])"
    by (auto simp: taken_def poll split: option.split poll.split)
  with ch poll reachable_receive [OF assms(1-3) poll] assms(1)
  show "reachable M (run_receive (tuned v) ch (taken M v (chan r)) r)"
    by (cases "unread v") auto
  show "name ch = name (chan r)"
    using ch by simp
qed

lemma viewer_turn_tuned: "viewer_turn E M v ch = (v', ch', y) \<Longrightarrow> tuned v' = tuned v"
  by (auto simp: viewer_turn_def viewer_accept_def split: option.splits prod.splits poll.splits outcome.splits)

text \<open>
  Polling an upload sends a chunk or does not touch the channel; a panic under the lock
  leaves the channel of a failed send.
\<close>

lemma post_poll_run:
  assumes "reachable M r" "post_poll E cv M (c, chan r) = ((c', ch), polled)"
    and "\<And>chunk. snd (transmitter_send M chunk (chan r)) = Ok ()"
  shows "reachable M (run_update r ch (sent_by E cv c))"
proof (cases "\<exists>c1 chunk. poll_next E cv c = (c1, Ready (Some (Ok chunk)))")
  case True
  then obtain c1 chunk where nxt: "poll_next E cv c = (c1, Ready (Some (Ok chunk)))" by blast
  obtain ch1 where send: "transmitter_send M chunk (chan r) = (ch1, Ok ())"
    using assms(3) [of chunk] by (cases "transmitter_send M chunk (chan r)") simp
  then have "ch = ch1" using assms(2) nxt by (simp add: post_poll_def)
  with nxt show ?thesis
    using reachable.step [OF assms(1) run_step.send [where M = M, OF send]]
    by (simp add: sent_by_def run_update_def)
next
  case False
  then have "ch = chan r" "sent_by E cv c = []"
    using assms(2) by (auto simp: post_poll_def sent_by_def
        split: prod.splits poll.splits option.splits outcome.splits)
  with assms(1) show ?thesis by simp
qed

section \<open>The invariant\<close>

text \<open>A relay: the contracts of the two third-party components together.\<close>

locale relay = bounded_mpsc M queued receiving capacity + weak_registry W entry
  for M :: "'q mpsc" and queued receiving capacity and W :: "'m weak_map" and entry
begin

text \<open>A handle to a channel under a name: the registry has that channel for it.\<close>

definition upload_ok :: "('q, 'm, 'e) server \<Rightarrow> 'e upload \<Rightarrow> bool" where
  "upload_ok s u \<longleftrightarrow>
    up_channel u < length (channel_runs s) \<and>
    (up_open u \<longrightarrow> entry (channel_map s) (up_name u) = Some (up_channel u))"

definition viewing_ok :: "rt \<Rightarrow> ('q, 'm, 'e) server \<Rightarrow> viewing \<Rightarrow> bool" where
  "viewing_ok E s v \<longleftrightarrow>
    (let r = channel_runs s ! view_channel v; i = tuned (view_state v) in
     view_channel v < length (channel_runs s) \<and> i < length (received r) \<and>
     (view_open v \<longrightarrow>
       entry (channel_map s) (view_name v) = Some (view_channel v) \<and> i \<notin> left r \<and>
       viewed E (view_state v) (received r ! i) (view_out v)))"

definition tuned_in :: "viewing \<Rightarrow> nat \<times> nat" where
  "tuned_in v = (view_channel v, tuned (view_state v))"

definition server_ok :: "rt \<Rightarrow> ('q, 'm, 'e) server \<Rightarrow> bool" where
  "server_ok E s \<longleftrightarrow>
    (\<forall>r \<in> set (channel_runs s). reachable M r) \<and>
    (\<forall>nm a. entry (channel_map s) nm = Some a \<longrightarrow>
      a < length (channel_runs s) \<and> name (chan (channel_runs s ! a)) = nm) \<and>
    (\<forall>u \<in> set (uploads s). upload_ok s u) \<and>
    (\<forall>v \<in> set (viewings s). viewing_ok E s v) \<and>
    distinct (map tuned_in (viewings s))"

lemma server_okD:
  assumes "server_ok E s"
  shows "a < length (channel_runs s) \<Longrightarrow> reachable M (channel_runs s ! a)"
    "entry (channel_map s) nm = Some a \<Longrightarrow>
      a < length (channel_runs s) \<and> name (chan (channel_runs s ! a)) = nm"
    "u \<in> set (uploads s) \<Longrightarrow> upload_ok s u"
    "v \<in> set (viewings s) \<Longrightarrow> viewing_ok E s v"
    "distinct (map tuned_in (viewings s))"
  using assms by (auto simp: server_ok_def)

lemma viewing_okD:
  assumes "viewing_ok E s v"
  shows "view_channel v < length (channel_runs s)"
    "tuned (view_state v) < length (received (channel_runs s ! view_channel v))"
    "view_open v \<Longrightarrow> tuned (view_state v) \<notin> left (channel_runs s ! view_channel v)"
    "view_open v \<Longrightarrow> entry (channel_map s) (view_name v) = Some (view_channel v)"
    "view_open v \<Longrightarrow> viewed E (view_state v)
      (received (channel_runs s ! view_channel v) ! tuned (view_state v)) (view_out v)"
  using assms by (auto simp: viewing_ok_def Let_def)

lemma server_ok_start: "server_ok E (server_start W)"
  by (simp add: server_ok_def server_start_def new_map)

text \<open>
  What every step but a lookup does: it replaces one channel's run by a later one and one
  connection by its next state.
\<close>

lemma viewing_ok_update:
  assumes "viewing_ok E s v" "a < length (channel_runs s)"
    "view_channel v = a \<Longrightarrow> keeps_listener (tuned (view_state v)) (channel_runs s ! a) r'"
    "channel_runs s' = (channel_runs s)[a := r']" "channel_map s' = channel_map s"
  shows "viewing_ok E s' v"
  using assms by (cases "view_channel v = a") (auto simp: viewing_ok_def Let_def keeps_listener_def)

lemma server_ok_update:
  assumes ok: "server_ok E s" and a: "a < length (channel_runs s)"
    and run: "reachable M r'" "name (chan r') = name (chan (channel_runs s ! a))"
    and runs: "channel_runs s' = (channel_runs s)[a := r']" and map: "channel_map s' = channel_map s"
    and us: "\<forall>u \<in> set (uploads s'). upload_ok s u"
    and vs: "\<forall>v \<in> set (viewings s'). viewing_ok E s' v" "distinct (map tuned_in (viewings s'))"
  shows "server_ok E s'"
proof -
  have "reachable M r" if "r \<in> set (channel_runs s')" for r
    using that run(1) server_okD(1) [OF ok] set_update_subset_insert [of "channel_runs s" a r']
    by (fastforce simp: runs in_set_conv_nth)
  moreover have "b < length (channel_runs s') \<and> name (chan (channel_runs s' ! b)) = nm"
    if "entry (channel_map s') nm = Some b" for nm b
    using server_okD(2) [OF ok, of nm b] that run(2) a by (cases "b = a") (simp_all add: runs map)
  moreover have "upload_ok s' u" if "u \<in> set (uploads s')" for u
    using us that by (simp add: upload_ok_def runs map)
  ultimately show ?thesis
    using vs by (simp add: server_ok_def)
qed

section \<open>Every step keeps the invariant\<close>

text \<open>Looking a channel up does not separate a connection from its channel.\<close>

lemma channel_of_ok:
  assumes ok: "server_ok E s" and "channel_of W nm s = (s', a)"
  shows "server_ok E s'" "entry (channel_map s') nm = Some a" "a < length (channel_runs s')"
    "uploads s' = uploads s" "viewings s' = viewings s"
proof -
  let ?new = "length (channel_runs s)"
  obtain m where ins: "or_insert_with W (has_handle s) nm ?new (channel_map s) = (m, a)"
    and s': "s' = s\<lparr>channel_map := m,
      channel_runs := (if a = ?new then channel_runs s @ [run_start nm] else channel_runs s)\<rparr>"
    using assms(2) by (auto simp: channel_of_def Let_def split: prod.splits)
  show "uploads s' = uploads s" "viewings s' = viewings s" by (simp_all add: s')
  have nm: "entry m nm = Some a \<and> (a = ?new \<or> entry (channel_map s) nm = Some a)"
    using ins by (auto elim: or_insert_with_cases)
  then show "entry (channel_map s') nm = Some a" by (simp add: s')
  have a: "a = ?new \<or> a < ?new \<and> name (chan (channel_runs s ! a)) = nm"
    using nm server_okD(2) [OF ok, of nm a] by blast
  then show "a < length (channel_runs s')" by (auto simp: s')
  have nth: "channel_runs s' ! b = channel_runs s ! b" if "b < ?new" for b
    using that by (simp add: s' nth_append)
  have stays: "entry m k = Some b" if "entry (channel_map s) k = Some b" "has_handle s b" for k b
  proof (cases "k = nm")
    case True
    with ins that nm show ?thesis by (auto elim: or_insert_with_cases)
  next
    case False
    with other_entries [OF ins False] that show ?thesis by auto
  qed
  have "reachable M r" if "r \<in> set (channel_runs s')" for r
    using that ok by (auto simp: s' server_ok_def intro: reachable.start split: if_splits)
  moreover have "b < length (channel_runs s') \<and> name (chan (channel_runs s' ! b)) = k"
    if e: "entry (channel_map s') k = Some b" for k b
  proof (cases "k = nm")
    case True
    with e nm a show ?thesis by (auto simp: s' nth_append)
  next
    case False
    with e other_entries [OF ins False] have "entry (channel_map s) k = Some b" by (auto simp: s')
    from server_okD(2) [OF ok this] nth show ?thesis by (simp add: s')
  qed
  moreover have "upload_ok s' u" if "u \<in> set (uploads s')" for u
    using server_okD(3) [OF ok, of u] that stays
    by (auto simp: upload_ok_def s' has_handle_def)
  moreover have "viewing_ok E s' v" if "v \<in> set (viewings s')" for v
  proof -
    have v: "viewing_ok E s v" "view_open v \<longrightarrow> has_handle s (view_channel v)"
      using server_okD(4) [OF ok] that by (auto simp: s' has_handle_def)
    then have "channel_runs s' ! view_channel v = channel_runs s ! view_channel v"
      by (simp add: nth viewing_ok_def Let_def)
    with v stays show ?thesis
      by (auto simp: viewing_ok_def Let_def s')
  qed
  moreover have "distinct (map tuned_in (viewings s'))"
    using server_okD(5) [OF ok] by (simp add: s')
  ultimately show "server_ok E s'"
    by (simp add: server_ok_def)
qed

text \<open>A listener that joins has the next index of its channel.\<close>

lemma run_join_Ok:
  assumes "reachable M r" "run_join M r = (r', res)"
  shows "res = Ok (length (received r))" "received r' = received r @ [[]]" "left r' = left r"
    "length (received r) \<notin> left r"
proof -
  have ok: "run_ok r" using assms(1) by (rule reachable_ok)
  obtain ch x where new: "listener_new M (chan r) = (ch, x)" by (cases "listener_new M (chan r)")
  with run_ok_join [OF ok new] have "x = Ok (length (queues (chan r)))" by simp
  with new assms(2) ok show "res = Ok (length (received r))" "received r' = received r @ [[]]" "left r' = left r"
    by (auto simp: run_join_def run_ok_def)
  show "length (received r) \<notin> left r" using ok by (auto simp: run_ok_def)
qed

lemma get_handler_ok:
  assumes ok: "server_ok E s" and a: "a < length (channel_runs s)" "entry (channel_map s) nm = Some a"
    and step: "get_handler M a nm s = (s', r)"
  shows "server_ok E s'" "r = Reply (media_response (ViewerBody (length (viewings s))))"
proof -
  let ?r = "channel_runs s ! a" and ?i = "length (received (channel_runs s ! a))"
  obtain r' res where join: "run_join M ?r = (r', res)" by (cases "run_join M ?r")
  have reach: "reachable M ?r" using server_okD(1) [OF ok a(1)] .
  note joined = run_join_Ok [OF reach join]
  let ?v = "\<lparr>view_channel = a, view_name = nm, view_state = viewer_new ?i, view_open = True, view_out = []\<rparr>"
  have s': "s' = s\<lparr>channel_runs := (channel_runs s)[a := r'], viewings := viewings s @ [?v]\<rparr>"
    "r = Reply (media_response (ViewerBody (length (viewings s))))"
    using step join joined(1) by (auto simp: get_handler_def)
  show "r = Reply (media_response (ViewerBody (length (viewings s))))" by (rule s'(2))
  have r': "r' = fst (run_join M ?r)" using join by simp
  show "server_ok E s'"
  proof (rule server_ok_update [OF ok a(1), of r'])
    show "reachable M r'" "name (chan r') = name (chan ?r)"
      using reachable_join [OF reach] by (simp_all add: r')
    show "\<forall>u \<in> set (uploads s'). upload_ok s u" using server_okD(3) [OF ok] by (simp add: s')
    have "viewing_ok E s' ?v"
      using a joined by (simp add: viewing_ok_def s' viewer_new_def viewed_new [unfolded viewer_new_def])
    moreover have "viewing_ok E s' v" if "v \<in> set (viewings s)" for v
    proof (rule viewing_ok_update [OF server_okD(4) [OF ok that] a(1)])
      show "keeps_listener (tuned (view_state v)) ?r r'" if "view_channel v = a"
        using viewing_okD(2) [OF server_okD(4) [OF ok \<open>v \<in> set (viewings s)\<close>]] that by (simp add: r')
    qed (simp_all add: s')
    ultimately show "\<forall>v \<in> set (viewings s'). viewing_ok E s' v" by (simp add: s')
    have "tuned_in v \<noteq> (a, ?i)" if "v \<in> set (viewings s)" for v
      using viewing_okD(2) [OF server_okD(4) [OF ok that]] by (auto simp: tuned_in_def)
    then show "distinct (map tuned_in (viewings s'))"
      using server_okD(5) [OF ok] by (force simp: s' tuned_in_def viewer_new_def)
  qed (simp_all add: s')
qed

lemma post_handler_ok:
  assumes "server_ok E s" "a < length (channel_runs s)" "entry (channel_map s) nm = Some a"
  shows "server_ok E (fst (post_handler bdy a nm s))"
  using assms by (auto simp: post_handler_def server_ok_def upload_ok_def viewing_ok_def)

text \<open>A step of one viewer, or of one upload.\<close>

lemma viewing_step_ok:
  fixes s :: "('q, 'm, 'e) server"
  assumes ok: "server_ok E s" and j: "j < length (viewings s)"
    and a: "a = view_channel (viewings s ! j)" and i: "i = tuned (view_state (viewings s ! j))"
    and run: "reachable M r'" "name (chan r') = name (chan (channel_runs s ! a))"
    and others: "\<And>k. k < length (received (channel_runs s ! a)) \<Longrightarrow> k \<noteq> i \<Longrightarrow>
      keeps_listener k (channel_runs s ! a) r'"
    and v': "tuned_in v' = (a, i)"
      "viewing_ok E (s\<lparr>viewings := (viewings s)[j := v'], channel_runs := (channel_runs s)[a := r']\<rparr>) v'"
  shows "server_ok E (s\<lparr>viewings := (viewings s)[j := v'], channel_runs := (channel_runs s)[a := r']\<rparr>)"
proof -
  let ?s = "s\<lparr>viewings := (viewings s)[j := v'], channel_runs := (channel_runs s)[a := r']\<rparr>"
  have tuned: "tuned_in (viewings s ! j) = (a, i)" by (simp add: tuned_in_def a i)
  have "map tuned_in (viewings ?s) = map tuned_in (viewings s)"
    using j tuned v'(1) by (intro nth_equalityI) (auto simp: nth_list_update)
  moreover have a_less: "a < length (channel_runs s)"
    using viewing_okD(1) [OF server_okD(4) [OF ok nth_mem [OF j]]] by (simp add: a)
  moreover have "viewing_ok E ?s v" if v_in: "v \<in> set (viewings ?s)" for v
  proof -
    obtain k where k: "k < length (viewings s)" "v = (viewings s)[j := v'] ! k"
      using v_in by (auto simp: in_set_conv_nth)
    show ?thesis
    proof (cases "k = j")
      case False
      then have v: "v = viewings s ! k" using k by simp
      then have mem: "v \<in> set (viewings s)" using k(1) by simp
      have "map tuned_in (viewings s) ! k \<noteq> map tuned_in (viewings s) ! j"
        using server_okD(5) [OF ok] k(1) j False by (subst nth_eq_iff_index_eq) simp_all
      then have "tuned_in v \<noteq> (a, i)" using k(1) j v tuned by simp
      then show ?thesis
        using viewing_okD(2) [OF server_okD(4) [OF ok mem]] others
        by (intro viewing_ok_update [OF server_okD(4) [OF ok mem] a_less]) (auto simp: tuned_in_def)
    qed (use k v'(2) in simp)
  qed
  ultimately show ?thesis
    using server_okD(3,5) [OF ok] by (intro server_ok_update [OF ok a_less run]) simp_all
qed

lemma upload_step_ok:
  fixes s :: "('q, 'm, 'e) server"
  assumes ok: "server_ok E s" and j: "j < length (uploads s)" and a: "a = up_channel (uploads s ! j)"
    and run: "reachable M r'" "name (chan r') = name (chan (channel_runs s ! a))"
      "\<And>k. k < length (received (channel_runs s ! a)) \<Longrightarrow> keeps_listener k (channel_runs s ! a) r'"
    and u': "upload_ok s u'"
  shows "server_ok E (s\<lparr>uploads := (uploads s)[j := u'], channel_runs := (channel_runs s)[a := r']\<rparr>)"
proof -
  have a_less: "a < length (channel_runs s)"
    using server_okD(3) [OF ok nth_mem [OF j]] by (simp add: upload_ok_def a)
  let ?s = "s\<lparr>uploads := (uploads s)[j := u'], channel_runs := (channel_runs s)[a := r']\<rparr>"
  have "viewing_ok E ?s v" if "v \<in> set (viewings s)" for v
    using viewing_okD(2) [OF server_okD(4) [OF ok that]] run(3)
    by (intro viewing_ok_update [OF server_okD(4) [OF ok that] a_less]) auto
  moreover have "upload_ok s u" if "u \<in> set ((uploads s)[j := u'])" for u
    using that u' server_okD(3) [OF ok] set_update_subset_insert [of "uploads s" j u'] by blast
  ultimately show ?thesis
    using server_okD(5) [OF ok] by (intro server_ok_update [OF ok a_less run(1,2)]) simp_all
qed

lemma close_viewing_ok:
  assumes ok: "server_ok E s" and j: "j < length (viewings s)" "view_open (viewings s ! j)"
  shows "server_ok E (close_viewing M j s)"
proof -
  let ?v = "viewings s ! j"
  let ?a = "view_channel ?v" and ?i = "tuned (view_state ?v)"
  have v: "viewing_ok E s ?v" using server_okD(4) [OF ok] j(1) by simp
  note vD = viewing_okD [OF v]
  have reach: "reachable M (run_leave M ?i (channel_runs s ! ?a))"
    using server_okD(1) [OF ok vD(1)] vD(2,3) j(2) by (intro reachable_leave) simp_all
  show ?thesis
    unfolding close_viewing_def Let_def
  proof (rule viewing_step_ok [OF ok j(1) refl refl reach])
    show "viewing_ok E (s\<lparr>viewings := (viewings s)[j := ?v\<lparr>view_open := False\<rparr>],
        channel_runs := (channel_runs s)[?a := run_leave M ?i (channel_runs s ! ?a)]\<rparr>) (?v\<lparr>view_open := False\<rparr>)"
      using vD(1,2) by (simp add: viewing_ok_def Let_def run_leave_def)
  qed (simp_all add: tuned_in_def)
qed

lemma close_upload_ok:
  assumes "server_ok E s" "j < length (uploads s)"
  shows "server_ok E (close_upload j s)"
proof -
  let ?u = "uploads s ! j"
  have "upload_ok s ?u" using server_okD(3) [OF assms(1)] assms(2) by simp
  then have a: "up_channel ?u < length (channel_runs s)" "upload_ok s (?u\<lparr>up_open := False\<rparr>)"
    by (simp_all add: upload_ok_def)
  show ?thesis
    unfolding close_upload_def Let_def
    by (rule upload_step_ok [OF assms refl reachable_disconnect [OF server_okD(1) [OF assms(1) a(1)]] _ _ a(2)])
      simp_all
qed

lemma poll_upload_ok:
  assumes ok: "server_ok E s" and j: "j < length (uploads s)"
  shows "server_ok E (poll_upload E' M j s)"
proof -
  let ?u = "uploads s ! j"
  let ?a = "up_channel ?u"
  let ?r = "channel_runs s ! ?a"
  have u: "upload_ok s ?u" using server_okD(3) [OF ok] j by simp
  then have reach: "reachable M ?r" using server_okD(1) [OF ok] by (simp add: upload_ok_def)
  obtain c ch polled where poll: "post_poll E' WarpError M (up_chunker ?u, chan ?r) = ((c, ch), polled)"
    by (metis prod.collapse)
  let ?r' = "run_update ?r ch (sent_by E' WarpError (up_chunker ?u))"
  let ?s = "s\<lparr>uploads := (uploads s)[j := ?u\<lparr>up_chunker := c\<rparr>], channel_runs := (channel_runs s)[?a := ?r']\<rparr>"
  have "reachable M ?r'"
    using poll reachable_no_panic(2) [OF reach] by (intro post_poll_run [OF reach]) simp_all
  then have "server_ok E ?s"
    using u by (intro upload_step_ok [OF ok j refl]) (simp_all add: post_poll_name [OF poll] upload_ok_def)
  moreover from this have "server_ok E (close_upload j ?s)"
    using j by (intro close_upload_ok) simp_all
  ultimately show ?thesis
    by (simp add: poll_upload_def Let_def poll)
qed

lemma turn_viewing_ok:
  assumes ok: "server_ok E s" and j: "j < length (viewings s)" "view_open (viewings s ! j)"
  shows "server_ok E (turn_viewing E M j s)"
proof -
  let ?v = "viewings s ! j"
  let ?a = "view_channel ?v" and ?i = "tuned (view_state ?v)"
  let ?r = "channel_runs s ! ?a"
  note vD = viewing_okD [OF server_okD(4) [OF ok nth_mem [OF j(1)]]]
  obtain w ch y where turn: "viewer_turn E M (view_state ?v) (chan ?r) = (w, ch, y)"
    by (metis prod.collapse)
  let ?got = "taken M (view_state ?v) (chan ?r)"
  let ?r' = "run_receive ?i ch ?got ?r" and ?v' = "?v\<lparr>view_state := w, view_out := view_out ?v @ yielded y\<rparr>"
  let ?s = "\<lambda>v. s\<lparr>viewings := (viewings s)[j := v], channel_runs := (channel_runs s)[?a := ?r']\<rparr>"
  have reach: "reachable M ?r" using server_okD(1) [OF ok vD(1)] .
  note run = viewer_turn_run [OF reach vD(2) vD(3) [OF j(2)] turn]
  have w: "tuned w = ?i" by (rule viewer_turn_tuned [OF turn])
  have step: "server_ok E (?s v)" if "tuned_in v = (?a, ?i)" "viewing_ok E (?s v) v" for v
    using that run by (intro viewing_step_ok [OF ok j(1) refl refl]) simp_all
  show ?thesis
  proof (cases "failed y")
    case False
    have "viewed E w (received ?r ! ?i @ ?got) (view_out ?v @ yielded y)"
      using viewed_turn [OF vD(5) [OF j(2)] turn False] by simp
    then have "viewing_ok E (?s ?v') ?v'"
      using vD(1-4) j(2) w by (simp add: viewing_ok_def Let_def run_receive_def)
    then have "server_ok E (?s ?v')" by (intro step) (simp_all add: tuned_in_def w)
    with False turn show ?thesis by (simp add: turn_viewing_def Let_def)
  next
    case True
    let ?c = "?v'\<lparr>view_open := False\<rparr>"
    have "close_viewing M j (?s ?v') =
        s\<lparr>viewings := (viewings s)[j := ?c],
          channel_runs := (channel_runs s)[?a := run_leave M ?i ?r']\<rparr>"
      using j(1) vD(1) w by (simp add: close_viewing_def Let_def)
    moreover have "server_ok E \<dots>"
    proof (rule viewing_step_ok [OF ok j(1) refl refl])
      show "reachable M (run_leave M ?i ?r')"
        using run(1) vD(2) vD(3) [OF j(2)] by (intro reachable_leave) (simp_all add: run_receive_def)
      show "viewing_ok E (s\<lparr>viewings := (viewings s)[j := ?c],
          channel_runs := (channel_runs s)[?a := run_leave M ?i ?r']\<rparr>) ?c"
        using vD(1,2) w by (simp add: viewing_ok_def Let_def run_receive_def run_leave_def)
    qed (use w run(2) in \<open>auto simp: tuned_in_def keeps_listener_def run_receive_def run_leave_def listener_drop_def\<close>)
    ultimately show ?thesis
      using True turn by (simp add: turn_viewing_def Let_def)
  qed
qed

section \<open>Every reachable state\<close>

lemma routes_ok:
  assumes "server_ok E s" "routes M W req s = (s', r)"
  shows "server_ok E s'"
proof -
  have "server_ok E (fst (routes M W req s))"
  proof (rule routes_invariant [where P = "server_ok E"])
    show "server_ok E s" by (rule assms(1))
  next
    fix s s' :: "('q, 'm, 'e) server" and nm a b
    assume s: "server_ok E s" "channel_of W nm s = (s', a)"
    note ok = channel_of_ok(1-3) [OF s]
    show "server_ok E s' \<and> server_ok E (fst (get_handler M a nm s')) \<and> server_ok E (fst (post_handler b a nm s'))"
      using get_handler_ok(1) [OF ok(1,3,2)] post_handler_ok [OF ok(1,3,2)] ok(1)
      by (cases "get_handler M a nm s'") simp
  qed
  with assms(2) show ?thesis by simp
qed

lemma server_step_ok: "server_step E M W s s' \<Longrightarrow> server_ok E s \<Longrightarrow> server_ok E s'"
  by (induction rule: server_step.induct)
    (auto intro: routes_ok poll_upload_ok close_upload_ok turn_viewing_ok close_viewing_ok)

lemma serving_ok: "serving E M W s \<Longrightarrow> server_ok E s"
  by (induction rule: serving.induct) (auto intro: server_ok_start server_step_ok)

end

end
