(* ===== verification/Commands.thy ===== *)
theory Commands
  imports Fixers
begin

text \<open>
  The pipelines of the commands under \<open>src/commands\<close>: what they make of the stages modelled
  in the other theories. Reading standard input, writing standard output, HTTP and the
  command line itself are I/O and left out; an input is the script of a byte stream.
\<close>

section \<open>parse_time\<close>

text \<open>
  \<open>str::parse\<close> for \<open>u64\<close>: an optional plus sign and decimal digits, read from the left; the
  error strings are those of \<open>ParseIntError\<close>.
\<close>

definition digit_value :: "char \<Rightarrow> nat option" where
  "digit_value c =
    (let n = of_char c :: nat in if 48 \<le> n \<and> n \<le> 57 then Some (n - 48) else None)"

fun parse_digits :: "nat \<Rightarrow> string \<Rightarrow> (string, nat) outcome" where
  "parse_digits acc [] = Ok acc"
| "parse_digits acc (c # cs) =
    (case digit_value c of
       None \<Rightarrow> Err ''invalid digit found in string''
     | Some d \<Rightarrow>
         if acc * 10 + d < 2 ^ 64 then parse_digits (acc * 10 + d) cs
         else Err ''number too large to fit in target type'')"

definition parse_u64 :: "string \<Rightarrow> (string, nat) outcome" where
  "parse_u64 s =
    (case s of
       [] \<Rightarrow> Err ''cannot parse integer from empty string''
     | c # cs \<Rightarrow>
         if c = CHR ''+'' \<and> cs \<noteq> [] then parse_digits 0 cs
         else parse_digits 0 s)"

text \<open>The result is a duration in seconds.\<close>

definition parse_time :: "string \<Rightarrow> ('x webmetro_error, nat) outcome" where
  "parse_time arg =
    (case parse_u64 arg of
       Ok secs \<Rightarrow> Ok secs
     | Err err \<Rightarrow> Err (ApplicationError err)
     | Panic \<Rightarrow> Panic)"

lemma parse_digits_bound: "parse_digits acc s = Ok n \<Longrightarrow> acc < 2 ^ 64 \<Longrightarrow> n < 2 ^ 64"
  by (induction acc s rule: parse_digits.induct) (auto split: option.splits if_splits)

text \<open>What digits denote, without a bound.\<close>

definition decimal :: "nat list \<Rightarrow> nat" where
  "decimal ds = foldl (\<lambda>a d. a * 10 + d) 0 ds"

definition digit_char :: "nat \<Rightarrow> char" where
  "digit_char d = char_of (48 + d)"

lemma digit_value_char: "d < 10 \<Longrightarrow> digit_value (digit_char d) = Some d"
  by (simp add: digit_value_def digit_char_def Let_def)

lemma foldl_decimal_mono: "(a::nat) \<le> foldl (\<lambda>a d. a * 10 + d) a ds"
proof (induction ds arbitrary: a)
  case (Cons d ds)
  have "a \<le> a * 10 + d" by simp
  also have "\<dots> \<le> foldl (\<lambda>a d. a * 10 + d) (a * 10 + d) ds" by (rule Cons)
  finally show ?case by simp
qed simp

lemma parse_digits_decimal:
  "\<forall>d \<in> set ds. d < 10 \<Longrightarrow>
    parse_digits acc (map digit_char ds) =
    (if foldl (\<lambda>a d. a * 10 + d) acc ds < 2 ^ 64 \<or> ds = [] then Ok (foldl (\<lambda>a d. a * 10 + d) acc ds)
     else Err ''number too large to fit in target type'')"
proof (induction ds arbitrary: acc)
  case (Cons d ds)
  have "acc * 10 + d \<le> foldl (\<lambda>a d. a * 10 + d) (acc * 10 + d) ds"
    by (rule foldl_decimal_mono)
  with Cons show ?case by (auto simp: digit_value_char)
qed simp

lemma parse_time_decimal:
  assumes "ds \<noteq> []" "\<forall>d \<in> set ds. d < 10"
  shows "parse_time (map digit_char ds) =
    (if decimal ds < 2 ^ 64 then Ok (decimal ds)
     else Err (ApplicationError ''number too large to fit in target type''))"
proof -
  obtain d ds' where ds: "ds = d # ds'" using assms(1) by (cases ds) auto
  have "digit_value (CHR ''+'') = None" by (simp add: digit_value_def)
  then have "digit_char d \<noteq> CHR ''+''"
    using digit_value_char [of d] assms(2) ds by auto
  then have "parse_u64 (map digit_char ds) = parse_digits 0 (map digit_char ds)"
    by (simp add: parse_u64_def ds)
  with parse_digits_decimal [OF assms(2), of 0] assms(1) show ?thesis
    by (simp add: parse_time_def decimal_def)
qed

section \<open>The window and the stages of filter\<close>

definition as_millis :: "nat \<Rightarrow> 128 word" where
  "as_millis secs = of_nat (secs * 1000)"

definition time_window :: "nat option \<Rightarrow> nat option \<Rightarrow> 128 word \<times> 128 word" where
  "time_window skip taken =
    (let first = (case skip of None \<Rightarrow> 0 | Some s \<Rightarrow> as_millis s);
         stop = (case taken of None \<Rightarrow> - 1 | Some t \<Rightarrow> as_millis t + first)
     in (first, stop))"

text \<open>
  \<open>map_ok\<close> with the fixer, then \<open>try_filter\<close> with the window: what comes out before a panic
  ends the stream, if one does.
\<close>

fun fix_and_select ::
    "rt \<Rightarrow> 128 word \<times> 128 word \<Rightarrow> timecode_fixer \<Rightarrow> chunk list \<Rightarrow> chunk list \<times> (unit, unit) outcome" where
  "fix_and_select E w f [] = ([], Ok ())"
| "fix_and_select E w f (ch # chs) =
    (case process E f ch of
       Ok (f', ch') \<Rightarrow>
         (case fix_and_select E w f' chs of
            (out, r) \<Rightarrow> (if overlaps ch' (fst w) (snd w) then ch' # out else out, r))
     | Err e \<Rightarrow> ([], Err e)
     | Panic \<Rightarrow> ([], Panic))"

text \<open>
  What \<open>filter\<close> writes without throttle, and its result, in one piece: a specification. The
  command itself is \<open>filter_command\<close> in \<open>Program\<close>, which is proved to agree with it.
\<close>

definition filter_run ::
    "rt \<Rightarrow> ('e \<Rightarrow> 'x webmetro_error) \<Rightarrow> nat option \<Rightarrow> nat option \<Rightarrow> 'e source \<Rightarrow>
     bytes \<times> ('x webmetro_error, unit) outcome" where
  "filter_run E cv skip taken stdin =
    (case all_chunks E cv (chunk_webm (parse_ebml stdin)) of
       (chs, r) \<Rightarrow>
         (case fix_and_select E (time_window skip taken) fixer_new chs of
            (out, Ok _) \<Rightarrow> (chunks_bytes out, r)
          | (out, _) \<Rightarrow> (chunks_bytes out, Panic)))"

lemma fix_and_select_Ok:
  "process_all E f chs = Ok chs' \<Longrightarrow>
    fix_and_select E w f chs = (filter (\<lambda>ch. overlaps ch (fst w) (snd w)) chs', Ok ())"
  by (induction chs arbitrary: f chs') (auto simp: and_then_Ok_iff split: prod.splits)

lemma overlaps_whole [simp]: "overlaps ch 0 (- 1)"
  by (cases ch) (simp_all)

lemma fix_and_select_whole:
  "process_all E f chs = Ok chs' \<Longrightarrow> fix_and_select E (time_window None None) f chs = (chs', Ok ())"
  by (simp add: fix_and_select_Ok time_window_def)

section \<open>dump\<close>

datatype dump_line = TracksLine nat | SimpleBlockLine i16 | DebugLine webm_element

fun dump_line_of :: "webm_element \<Rightarrow> dump_line" where
  "dump_line_of (Tracks bytes) = TracksLine (length bytes)"
| "dump_line_of (SimpleBlock block) = SimpleBlockLine (timecode block)"
| "dump_line_of other = DebugLine other"

definition dump_run ::
    "rt \<Rightarrow> ('e \<Rightarrow> 'x webmetro_error) \<Rightarrow> 'e source \<Rightarrow> dump_line list \<times> ('x webmetro_error, unit) outcome" where
  "dump_run E cv stdin =
    (case all_events (webm_from_ebml E) cv (parse_ebml stdin) of
       (els, r) \<Rightarrow> (map dump_line_of els, r))"

section \<open>filter without a window\<close>

context big_endian
begin

text \<open>
  Without a window, an input whose clusters are in order comes out of \<open>filter\<close> as its own
  chunks, which read back as its events.
\<close>

lemma chunk_webm_groups:
  fixes cv :: "'e \<Rightarrow> 'x webmetro_error"
  assumes "\<And>e. SourceErr e \<notin> set stdin"
    and "whole_events (webm_from_ebml E) (source_bytes stdin) = (els, r)"
    and "well_timed els" "length (written_bytes els) < 2 ^ 64"
  shows "all_chunks E cv (chunk_webm (parse_ebml stdin)) =
    (case groups (InHeader []) els of (gs, b) \<Rightarrow>
       (map realize (gs @ (if r = Ok () then last_group b else [])), map_err EbmlError r))"
  using assms
  by (intro all_chunks_groups [where b = "InHeader []"])
    (simp_all add: stands_at_def chunk_webm_def parse_ebml_def input_def well_timed_def)

text \<open>A block of a track above 31 ends the stream of chunks.\<close>

lemma chunk_webm_refused:
  fixes cv :: "'e \<Rightarrow> 'x webmetro_error"
  assumes "\<And>e. SourceErr e \<notin> set stdin"
    and "whole_events (webm_from_ebml E) (source_bytes stdin) = (els @ SimpleBlock blk # rest, r)"
    and "well_timed els" "length (written_bytes els) < 2 ^ 64" "groups (InHeader []) els = (gs, b)"
    and "31 < track blk" "0 \<le> sint (timecode blk)"
  shows "all_chunks E cv (chunk_webm (parse_ebml stdin)) = (map realize gs, Err (IoError out_of_range))"
  using assms
  by (intro all_chunks_refused [where b = "InHeader []" and els = els])
    (simp_all add: stands_at_def chunk_webm_def parse_ebml_def input_def well_timed_def)

lemma realize_head_bytes:
  "h \<in> set (cluster_heads (map realize gs)) \<Longrightarrow> head_bytes h = head_image (start h)"
proof (induction gs)
  case (Cons g gs)
  then show ?case by (cases g) (auto simp: group_head_def)
qed simp

lemma filter_run_in_order:
  fixes cv :: "'e \<Rightarrow> 'x webmetro_error"
  assumes "\<And>e. SourceErr e \<notin> set stdin"
    and "whole_events (webm_from_ebml E) (source_bytes stdin) = (els, Ok ())"
    and "well_timed els" "length (written_bytes els) < 2 ^ 64"
    and "groups (InHeader []) els = (gs, b)"
    and "in_order 0 (cluster_heads (map realize (gs @ last_group b)))"
  shows "filter_run E cv None None stdin = (chunks_bytes (map realize (gs @ last_group b)), Ok ())"
    "whole_events (webm_from_ebml E) (fst (filter_run E cv None None stdin)) =
      (concat (map group_events (gs @ last_group b)), Ok ())"
proof -
  let ?gs = "gs @ last_group b"
  have chunks: "all_chunks E cv (chunk_webm (parse_ebml stdin)) = (map realize ?gs, Ok ())"
    using chunk_webm_groups [OF assms(1-4)] assms(5) by simp
  have "process_all E fixer_new (map realize ?gs) = Ok (map realize ?gs)"
    using assms(6) realize_head_bytes [of _ ?gs]
    by (intro process_all_idle) (simp_all add: fixer_new_def del: map_append)
  from fix_and_select_whole [OF this] chunks
  show run: "filter_run E cv None None stdin = (chunks_bytes (map realize ?gs), Ok ())"
    by (simp add: filter_run_def)
  have "well_timed (group_elements g)" if "g \<in> set ?gs" for g
    using groups_well_timed [OF assms(5) _ _ that] assms(3) by (simp add: well_timed_def)
  then show "whole_events (webm_from_ebml E) (fst (filter_run E cv None None stdin)) =
      (concat (map group_events ?gs), Ok ())"
    by (simp only: run fst_conv groups_read_back)
qed

end

end
