(* ===== verification/Regroup.thy ===== *)
theory Regroup
  imports Commands
begin

text \<open>
  The output of the chunker is a fixed point: grouping the events it reads back as gives the
  same chunks again, so \<open>filter\<close> applied to its own output changes nothing, and a stream that
  went through \<open>send\<close> is chunked alike by the relay.
\<close>

section \<open>The shape of a list of groups\<close>

definition starts_header :: "webm_element \<Rightarrow> bool" where
  "starts_header el \<longleftrightarrow> el = EbmlHead \<or> el = Segment"

definition in_header :: "webm_element list \<Rightarrow> bool" where
  "in_header els \<longleftrightarrow> Cluster \<notin> set els"

definition in_cluster :: "webm_element list \<Rightarrow> bool" where
  "in_cluster els \<longleftrightarrow> (\<forall>el \<in> set els. el \<noteq> Cluster \<and> \<not> starts_header el)"

text \<open>A header is followed by a cluster, and one behind a cluster starts with an EBML head or a Segment.\<close>

fun after_cluster :: "group list \<Rightarrow> bool" and after_header :: "group list \<Rightarrow> bool" where
  "after_cluster [] = True"
| "after_cluster (ClusterGroup els # gs) \<longleftrightarrow> in_cluster els \<and> after_cluster gs"
| "after_cluster (HeaderGroup (el # els) # gs) \<longleftrightarrow> starts_header el \<and> in_header els \<and> after_header gs"
| "after_cluster (HeaderGroup [] # gs) = False"
| "after_header (ClusterGroup els # gs) \<longleftrightarrow> in_cluster els \<and> after_cluster gs"
| "after_header _ = False"

fun group_sequence :: "building \<Rightarrow> group list \<Rightarrow> bool" where
  "group_sequence (InHeader els) gs \<longleftrightarrow>
    gs = [] \<or> (\<exists>els' gs'. gs = HeaderGroup (els @ els') # gs' \<and> in_header els' \<and> after_header gs')"
| "group_sequence (InCluster els) gs \<longleftrightarrow>
    (\<exists>els' gs'. gs = ClusterGroup (els @ els') # gs' \<and> in_cluster els' \<and> after_cluster gs')"

lemma group_sequence_Nil: "group_sequence b (last_group b)"
  by (cases b) (auto simp: in_cluster_def)

lemma in_simps [simp]:
  "in_header []" "in_cluster []"
  "in_header (el # els) \<longleftrightarrow> el \<noteq> Cluster \<and> in_header els"
  "in_cluster (el # els) \<longleftrightarrow> el \<noteq> Cluster \<and> \<not> starts_header el \<and> in_cluster els"
  by (auto simp: in_header_def in_cluster_def)

lemma group_sequence_step:
  assumes "feed b el = (b', g)" "group_sequence b' gs" "g = None \<longrightarrow> True"
  shows "group_sequence b (case g of None \<Rightarrow> gs | Some g \<Rightarrow> g # gs)"
proof (cases b)
  case (InHeader els)
  show ?thesis
  proof (cases "el = Cluster")
    case True
    with InHeader assms show ?thesis by (auto simp: in_header_def)
  next
    case False
    then have "b' = InHeader (els @ [el])" "g = None"
      using assms(1) InHeader by (cases el; simp)+
    with assms(2) InHeader False show ?thesis by fastforce
  qed
next
  case (InCluster els)
  consider "el = Cluster" | "starts_header el" | "el \<noteq> Cluster" "\<not> starts_header el" by blast
  then show ?thesis
  proof cases
    case 2
    then have "b' = InHeader [el]" "g = Some (ClusterGroup els)"
      using assms(1) InCluster by (auto simp: starts_header_def)
    with assms(2) InCluster 2 show ?thesis by fastforce
  next
    case 3
    then have "b' = InCluster (els @ [el])" "g = None"
      using assms(1) InCluster by (cases el; simp add: starts_header_def)+
    with assms(2) InCluster 3 show ?thesis by fastforce
  qed (use InCluster assms in auto)
qed

lemma groups_sequence: "groups b els = (gs, b') \<Longrightarrow> group_sequence b (gs @ last_group b')"
proof (induction b els arbitrary: gs rule: groups.induct)
  case (1 b)
  then show ?case using group_sequence_Nil by simp
next
  case (2 b el els)
  obtain b1 g where feed: "feed b el = (b1, g)" by (cases "feed b el")
  obtain gs1 where rest: "groups b1 els = (gs1, b')" "gs = (case g of None \<Rightarrow> gs1 | Some g \<Rightarrow> g # gs1)"
    using "2.prems" feed by (cases g) (auto split: prod.splits)
  have "group_sequence b1 (gs1 @ last_group b')"
    using "2.IH" feed rest(1) by (cases g) auto
  from group_sequence_step [OF feed this] rest(2) show ?case by (cases g) auto
qed

section \<open>Grouping what a list of groups reads back as\<close>

fun normal :: "group \<Rightarrow> group" where
  "normal (HeaderGroup els) = HeaderGroup (kept els)"
| "normal (ClusterGroup els) = ClusterGroup (Timecode (group_start els) # kept (body_elements els))"

lemma groups_in_header:
  "in_header els \<Longrightarrow> groups (InHeader hs) (els @ es) = groups (InHeader (hs @ els)) es"
proof (induction els arbitrary: hs)
  case (Cons el els)
  then show ?case by (cases el) simp_all
qed simp

lemma groups_in_cluster:
  "in_cluster els \<Longrightarrow> groups (InCluster cs) (els @ es) = groups (InCluster (cs @ els)) es"
proof (induction els arbitrary: cs)
  case (Cons el els)
  then show ?case by (cases el) (simp_all add: starts_header_def)
qed simp

lemma in_kept: "in_header els \<Longrightarrow> in_header (kept els)" "in_cluster els \<Longrightarrow> in_cluster (kept (body_elements els))"
  by (auto simp: in_header_def in_cluster_def kept_def body_elements_def)

abbreviation regroup :: "building \<Rightarrow> webm_element list \<Rightarrow> group list" where
  "regroup b els \<equiv> (case groups b els of (gs, b') \<Rightarrow> gs @ last_group b')"

lemma regroup_cluster:
  "in_cluster els \<Longrightarrow> regroup (InCluster []) (Timecode t # kept (body_elements els) @ es) =
    regroup (InCluster (Timecode t # kept (body_elements els))) es"
  using groups_in_cluster [of "Timecode t # kept (body_elements els)" "[]" es]
  by (simp add: in_kept starts_header_def)

lemma kept_starts_header: "starts_header el \<Longrightarrow> kept (el # els) = el # kept els"
proof -
  assume "starts_header el"
  then have "0 < length (webm_bytes el)"
    unfolding starts_header_def by (elim disjE; simp only: length_fixed_bytes; simp)
  then have "webm_bytes el \<noteq> []" by (rule length_greater_0_conv [THEN iffD1])
  then show ?thesis by (simp only: kept_simps if_False)
qed

lemma regroup_events:
  "after_cluster gs \<Longrightarrow> regroup (InCluster cs) (concat (map group_events gs)) = ClusterGroup cs # map normal gs"
  "after_header gs \<Longrightarrow> regroup (InHeader hs) (concat (map group_events gs)) = HeaderGroup hs # map normal gs"
proof (induction gs and gs arbitrary: cs and hs rule: after_cluster_after_header.induct)
  case (2 els gs)
  then show ?case
    using regroup_cluster [of els "group_start els" "concat (map group_events gs)"]
    by (auto split: prod.splits)
next
  case (3 el els gs)
  let ?es = "concat (map group_events gs)"
  have el: "starts_header el" "in_header els" "after_header gs" using "3.prems" by simp_all
  then have "feed (InCluster cs) el = (InHeader [el], Some (ClusterGroup cs))"
    by (auto simp: starts_header_def)
  then have "regroup (InCluster cs) (el # kept els @ ?es) = ClusterGroup cs # regroup (InHeader (el # kept els)) ?es"
    using groups_in_header [OF in_kept(1) [OF el(2)], of "[el]" ?es] by (simp split: prod.split)
  with "3.IH" [OF el(3)] show ?case
    by (simp add: kept_starts_header [OF el(1)] del: kept_simps)
next
  case (5 els gs)
  then show ?case
    using regroup_cluster [of els "group_start els" "concat (map group_events gs)"]
    by (auto split: prod.splits)
qed simp_all

text \<open>The same chunks come out again.\<close>

lemma regroup_fixed_point:
  assumes "groups (InHeader []) els = (gs, b)"
  shows "regroup (InHeader []) (concat (map group_events (gs @ last_group b))) = map normal (gs @ last_group b)"
proof -
  let ?gs = "gs @ last_group b"
  have "group_sequence (InHeader []) ?gs" using assms by (rule groups_sequence)
  then consider "?gs = []" | els' gs' where "?gs = HeaderGroup els' # gs'" "in_header els'" "after_header gs'"
    by auto
  then show ?thesis
  proof cases
    case 2
    show ?thesis
      unfolding 2(1)
      using regroup_events(2) [OF 2(3)] groups_in_header [OF in_kept(1) [OF 2(2)], of "[]"] by simp
  qed simp
qed

section \<open>A normal group is realised alike\<close>

lemma written_kept [simp]: "written_bytes (kept els) = written_bytes els"
  by (induction els) simp_all

lemma kept_timecodes:
  "concat (map timecode_of (kept (body_elements els))) = []"
  by (induction els) (auto split: webm_element.splits elim: is_timecode.elims)

lemma simple_block_kept: "webm_bytes (SimpleBlock b) \<noteq> []"
  by (simp add: element_bytes_def tag_header_bytes_def block_bytes_def)

lemma kept_blocks:
  "concat (map offset_of (kept (body_elements els))) = concat (map offset_of els)"
  "list_ex keyframe_block (kept (body_elements els)) = list_ex keyframe_block els"
proof -
  have other: "offset_of el = [] \<and> \<not> keyframe_block el" if "\<nexists>b. el = SimpleBlock b" for el
    using that by (cases el) simp_all
  have drop: "offset_of el = [] \<and> \<not> keyframe_block el" if "is_timecode el \<or> webm_bytes el = []" for el
    using other [of el] that simple_block_kept by (cases "\<exists>b. el = SimpleBlock b") auto
  show "concat (map offset_of (kept (body_elements els))) = concat (map offset_of els)"
    by (induction els) (simp_all add: drop)
  show "list_ex keyframe_block (kept (body_elements els)) = list_ex keyframe_block els"
    by (induction els) (auto simp: drop)
qed

lemma body_kept: "body_elements (kept (body_elements els)) = kept (body_elements els)"
  by (induction els) simp_all

lemma realize_normal: "realize (normal g) = realize g"
proof (cases g)
  case (ClusterGroup els)
  have "group_head (Timecode (group_start els) # kept (body_elements els)) = group_head els"
    by (simp add: group_head_def group_start_def [of "_ # _"] group_length_def kept_timecodes kept_blocks)
  with ClusterGroup show ?thesis by (simp add: body_kept)
qed simp

lemma written_group_events: "written_bytes (group_events g) = concat (chunk_pieces (realize g))"
  by (cases g) (simp_all add: group_head_def head_image_def del: webm_bytes.simps)

lemma written_groups_events:
  "written_bytes (concat (map group_events gs)) = chunks_bytes (map realize gs)"
  by (induction gs) (simp_all add: written_group_events)

lemma well_timed_group_events:
  assumes "well_timed (group_elements g)"
  shows "well_timed (group_events g)"
proof (cases g)
  case (HeaderGroup els)
  with assms show ?thesis by (auto simp: well_timed_def kept_def)
next
  case (ClusterGroup els)
  then have "unat (group_start els) < 2 ^ 63"
    using assms group_start_bound [of els] by simp
  with assms ClusterGroup show ?thesis by (auto simp: well_timed_def kept_def body_elements_def)
qed

section \<open>filter is idempotent\<close>

context big_endian
begin

text \<open>Chunking the bytes of the chunks of an input gives the same chunks, however they are cut.\<close>

lemma rechunk:
  fixes cv :: "'e \<Rightarrow> 'x webmetro_error"
  assumes "groups (InHeader []) els = (gs, b)" "well_timed els"
    and "\<And>e. SourceErr e \<notin> set stdin"
    and "source_bytes stdin = chunks_bytes (map realize (gs @ last_group b))"
    and "length (source_bytes stdin) < 2 ^ 64"
  shows "all_chunks E cv (chunk_webm (parse_ebml stdin)) = (map realize (gs @ last_group b), Ok ())"
    "whole_events (webm_from_ebml E) (source_bytes stdin) =
      (concat (map group_events (gs @ last_group b)), Ok ())"
    "well_timed (concat (map group_events (gs @ last_group b)))"
proof -
  let ?gs = "gs @ last_group b"
  let ?es = "concat (map group_events ?gs)"
  have timed: "well_timed (group_elements g)" if "g \<in> set ?gs" for g
    using groups_well_timed [OF assms(1) _ assms(2) that] by (simp add: well_timed_def)
  then show es: "whole_events (webm_from_ebml E) (source_bytes stdin) = (?es, Ok ())"
    unfolding assms(4) by (rule groups_read_back)
  show es_timed: "well_timed ?es"
    using well_timed_group_events [OF timed] by (auto simp: well_timed_def)
  have "length (written_bytes ?es) < 2 ^ 64"
    using assms(5) by (simp only: written_groups_events assms(4))
  from chunk_webm_groups [OF assms(3) es es_timed this, where cv = cv] regroup_fixed_point [OF assms(1)]
  show "all_chunks E cv (chunk_webm (parse_ebml stdin)) = (map realize ?gs, Ok ())"
    by (simp add: realize_normal split: prod.splits del: map_append flip: map_append)
qed

lemma filter_run_again:
  fixes cv :: "'e \<Rightarrow> 'x webmetro_error"
  assumes "\<And>e. SourceErr e \<notin> set stdin"
    and "whole_events (webm_from_ebml E) (source_bytes stdin) = (els, Ok ())"
    and "well_timed els" "length (written_bytes els) < 2 ^ 64"
    and "groups (InHeader []) els = (gs, b)"
    and "in_order 0 (cluster_heads (map realize (gs @ last_group b)))"
    and "\<And>e. SourceErr e \<notin> set again"
    and "source_bytes again = fst (filter_run E cv None None stdin)" "length (source_bytes again) < 2 ^ 64"
  shows "filter_run E cv None None again = filter_run E cv None None stdin"
proof -
  let ?gs = "gs @ last_group b"
  let ?es = "concat (map group_events ?gs)"
  note run = filter_run_in_order(1) [OF assms(1-6), where cv = cv]
  then have bytes: "source_bytes again = chunks_bytes (map realize ?gs)"
    using assms(8) by simp
  note es = rechunk(2,3) [OF assms(5,3,7) bytes assms(9)]
  have size: "length (written_bytes ?es) < 2 ^ 64"
    using assms(9) by (simp only: written_groups_events bytes)
  obtain gs' b' where again: "groups (InHeader []) ?es = (gs', b')" by (cases "groups (InHeader []) ?es")
  then have "gs' @ last_group b' = map normal ?gs"
    using regroup_fixed_point [OF assms(5)] by simp
  then have same: "map realize (gs' @ last_group b') = map realize ?gs"
    by (simp add: realize_normal del: map_append)
  have ordered: "in_order 0 (cluster_heads (map realize (gs' @ last_group b')))"
    using assms(6) unfolding same .
  show ?thesis
    using filter_run_in_order(1) [OF assms(7) es size again ordered, where cv = cv] run
    unfolding same by simp
qed

end

end
