(* ===== verification/Within_Limits.thy ===== *)
theory Within_Limits
  imports Upload Regroup
begin

text \<open>
  The soft limits of the relay only refuse: on an input whose elements and chunks stay below
  them, parser and chunker do what they do without a limit.
\<close>

section \<open>The parser\<close>

text \<open>Every beginning of the input that is still incomplete is below the limit.\<close>

definition patient :: "'a from_ebml \<Rightarrow> nat \<Rightarrow> bytes \<Rightarrow> bool" where
  "patient F l bs \<longleftrightarrow> (\<forall>k \<le> length bs. check_space F (take k bs) = Ok None \<longrightarrow> k < l)"

text \<open>The same for each element of the input.\<close>

function all_patient :: "'a from_ebml \<Rightarrow> nat \<Rightarrow> bytes \<Rightarrow> bool" where
  "all_patient F l bs \<longleftrightarrow>
    patient F l bs \<and>
    (case decode_element F bs of Ok (Some (_, n)) \<Rightarrow> all_patient F l (drop n bs) | _ \<Rightarrow> True)"
  by pat_completeness auto
termination
  by (relation "measure (\<lambda>(F, l, bs). length bs)") (auto dest: decode_element_shorter)

declare all_patient.simps [simp del]

definition unlimited :: "'e parser \<Rightarrow> 'e parser" where
  "unlimited p = p\<lparr>buffer_size_limit := None\<rparr>"

lemma unlimited_simps [simp]:
  "stream (unlimited p) = stream p" "buffer (unlimited p) = buffer p" "input (unlimited p) = input p"
  "buffer_size_limit (unlimited p) = None" "\<not> limit_reached (unlimited p)"
  by (simp_all add: unlimited_def input_def limit_reached_def)

lemma poll_event_limit:
  assumes "buffer_size_limit p = Some l" "patient F l (input p)" "poll_event F cv p = (p', r)"
  shows "poll_event F cv (unlimited p) = (unlimited p', r)"
  using assms
proof (induction F cv p arbitrary: p' r rule: poll_event.induct)
  case (1 F cv p)
  show ?case
  proof (cases "check_space F (buffer p) = Ok None")
    case False
    with "1.prems" show ?thesis
      unfolding poll_event.simps [of F cv "unlimited p"]
      by (auto simp: poll_event.simps [of F cv p] take_element_eq unlimited_def
          split: outcome.splits option.splits)
  next
    case True
    have "take (length (buffer p)) (input p) = buffer p" by (simp add: input_def)
    then have "length (buffer p) < l"
      using "1.prems"(2) True by (fastforce simp: patient_def input_def)
    then have below: "\<not> limit_reached p"
      using "1.prems"(1) by (simp add: limit_reached_def)
    show ?thesis
    proof (cases "stream p" rule: poll_source_cases)
      case (data d s')
      let ?q = "p\<lparr>stream := s', buffer := buffer p @ d\<rparr>"
      have "poll_event F cv ?q = (p', r)"
        using True below "1.prems"(3) data by (simp add: poll_event.simps [of F cv p])
      moreover have "input ?q = input p" using data(1) by (simp add: input_def)
      ultimately have "poll_event F cv (unlimited ?q) = (unlimited p', r)"
        using "1.IH" True below data "1.prems"(1,2) by simp
      moreover have "unlimited ?q = (unlimited p)\<lparr>stream := s', buffer := buffer p @ d\<rparr>"
        by (simp add: unlimited_def)
      ultimately show ?thesis
        using True data by (simp add: poll_event.simps [of F cv "unlimited p"])
    qed (use True below "1.prems"(3) in \<open>unfold poll_event.simps [of F cv "unlimited p"],
        auto simp: poll_event.simps [of F cv p] unlimited_def limit_reached_def\<close>)
  qed
qed

section \<open>The chunker\<close>

fun state_length :: "chunker_state \<Rightarrow> nat" where
  "state_length (BuildingHeader buf) = length (get_ref buf)"
| "state_length (BuildingCluster _ buf) = length (get_ref buf)"
| "state_length End = 0"

lemma encode_limited_below:
  "length (get_ref buf) < l \<Longrightarrow> encode_limited E (Some l) el buf = encode_limited E None el buf"
  by (simp add: encode_limited_def)

lemma element_turn_limit:
  assumes "state_length st < l"
  shows "element_turn E (Some l) st el = element_turn E None st el"
  using assms
  by (cases st) (auto simp: header_turn_def cluster_turn_def new_header_turn_def block_turn_def liberate_def
      encode_limited_below Let_def split: webm_element.split outcome.split)

text \<open>Every piece under construction is below the limit when an event comes.\<close>

fun below_limit :: "nat \<Rightarrow> building \<Rightarrow> webm_element list \<Rightarrow> bool" where
  "below_limit l b [] = True"
| "below_limit l b (el # els) \<longleftrightarrow> length (building_bytes b) < l \<and> below_limit l (fst (feed b el)) els"

lemma state_length_building: "state_length (building_state b) = length (building_bytes b)"
  by (cases b) simp_all

definition without_limits :: "'e chunker \<Rightarrow> 'e chunker" where
  "without_limits c = c\<lparr>source := unlimited (source c), chunk_size_limit := None\<rparr>"

lemma without_limits_simps [simp]:
  "source (without_limits c) = unlimited (source c)" "chunk_size_limit (without_limits c) = None"
  "chunk_state (without_limits c) = chunk_state c" "work_left (without_limits c) = work_left c"
  by (simp_all add: without_limits_def work_left_def)

text \<open>A run below the limits is the run without them.\<close>

lemma all_chunks_End_limits:
  fixes cv :: "'e \<Rightarrow> 'x webmetro_error"
  assumes "poll_event (webm_from_ebml E) cv (source c) = (s, r)" "chunk_state c \<noteq> End"
    and "(\<exists>e. r = Ready (Some (Err e))) \<or> r = Ready (Some Panic)"
  shows "all_chunks E cv c = ([], case r of Ready (Some (Err e)) \<Rightarrow> Err e | _ \<Rightarrow> Panic)"
  using assms poll_next_other(1,2) [OF assms(1,2)]
  by (subst all_chunks.simps) auto

context big_endian
begin

lemma all_chunks_limits:
  fixes cv :: "'e \<Rightarrow> 'x webmetro_error"
  assumes limits: "chunk_size_limit c = Some k" "buffer_size_limit (source c) = Some l"
    and patient: "all_patient (webm_from_ebml E) l (input (source c))"
    and state: "chunk_state c = building_state b"
    and events: "whole_events (webm_from_ebml E) (input (source c)) = (els, r)"
    and timed: "well_timed (elements_of b)" "well_timed els"
    and room: "length (building_bytes b) + length (written_bytes els) < 2 ^ 64"
    and below: "below_limit k b els"
  shows "all_chunks E cv c = all_chunks E cv (without_limits c)"
  using assms
proof (induction "work_left c" arbitrary: c b els rule: less_induct)
  case (less c)
  note limits = less.prems(1,2) and state = less.prems(4)
  let ?F = "webm_from_ebml E" and ?d = "without_limits c"
  obtain s x where poll: "poll_event ?F cv (source c) = (s, x)"
    by (cases "poll_event ?F cv (source c)")
  have "patient ?F l (input (source c))"
    using less.prems(3) by (subst (asm) all_patient.simps) simp
  from poll_event_limit [OF limits(2) this poll]
  have poll': "poll_event ?F cv (source ?d) = (unlimited s, x)" by simp
  have busy: "chunk_state c \<noteq> End" "chunk_state ?d \<noteq> End" using state by simp_all
  note sound = poll_event_sound [OF poll] and frame = poll_event_frame [OF poll]
  note events = less.prems(5) [unfolded whole_events.simps [of ?F "input (source c)"]]
  consider "x = Pending" | "x = Ready None" | "(\<exists>e. x = Ready (Some (Err e))) \<or> x = Ready (Some Panic)"
    | el where "x = Ready (Some (Ok el))"
    by (metis not_None_eq outcome.exhaust poll.exhaust)
  then show ?case
  proof cases
    case 1
    let ?c = "c\<lparr>source := s\<rparr>"
    have "poll_next E cv c = (?c, Pending)" "poll_next E cv ?d = (without_limits ?c, Pending)"
      using poll_next_other(3) [OF poll busy(1) 1] poll_next_other(3) [OF poll' busy(2) 1]
      by (simp_all add: without_limits_def)
    moreover from this(1) have "work_left ?c < work_left c" by (rule poll_next_work) simp
    moreover have "input s = input (source c)"
      using poll 1 poll_event_input(1) by blast
    ultimately show ?thesis
      using less.hyps [of ?c b els] less.prems frame by (subst (1 2) all_chunks.simps) simp
  next
    case 2
    then show ?thesis
      using all_chunks_ended [of cv c s b] all_chunks_ended [of cv ?d "unlimited s" b] poll poll' state by simp
  next
    case 3
    then show ?thesis
      using all_chunks_End_limits [OF poll busy(1) 3] all_chunks_End_limits [OF poll' busy(2) 3] by simp
  next
    case (4 el)
    with poll poll' have ev: "poll_event ?F cv (source c) = (s, Ready (Some (Ok el)))"
      "poll_event ?F cv (source ?d) = (unlimited s, Ready (Some (Ok el)))" by simp_all
    obtain n where n: "decode_element ?F (input (source c)) = Ok (Some (el, n))"
      "input s = drop n (input (source c))"
      using poll_event_sound [OF ev(1)] by (auto simp: event_sound_def)
    obtain els' where els: "els = el # els'" "whole_events ?F (input s) = (els', r)"
      using events n by (auto split: prod.splits)
    have el: "forwardable el" "well_timed els'"
      using less.prems(7) els(1) by (simp_all add: well_timed_def)
    have patient': "all_patient ?F l (input s)"
      using less.prems(3) n by (subst (asm) all_patient.simps) simp
    obtain b' g where feed: "feed b el = (b', g)" by (cases "feed b el")
    note keeps = feed_keeps [OF feed less.prems(6) el(1)]
    let ?c = "c\<lparr>source := s, chunk_state := building_state b'\<rparr>"
    have "work_left ?c < work_left c"
      using poll_event_element_decreases [OF ev(1)] poll_event_stream [OF ev(1)] busy(1)
      by (simp add: work_left_def)
    then have rest: "all_chunks E cv ?c = all_chunks E cv (without_limits ?c)"
      using less.hyps [of ?c b' els'] less.prems frame keeps els el patient' feed by auto
    have d: "without_limits ?c = ?d\<lparr>source := unlimited s, chunk_state := building_state b'\<rparr>"
      by (simp add: without_limits_def)
    have turn: "element_turn E None (building_state b) el =
        ((case g of None \<Rightarrow> Continue (building_state b')
          | Some g \<Rightarrow> Return (building_state b') (Ok (realize g))) :: 'x turn)"
      using element_turn_refines [OF less.prems(6) el(1)] less.prems(8) els feed by simp
    moreover have "element_turn E (Some k) (building_state b) el = (element_turn E None (building_state b) el :: 'x turn)"
      using less.prems(9) els by (intro element_turn_limit) (simp add: state_length_building)
    ultimately show ?thesis
      using all_chunks_element [OF ev(1) busy(1)] all_chunks_element [OF ev(2) busy(2)] rest state limits
      by (cases g) (simp_all add: d)
  qed
qed

text \<open>Inputs smaller than the limits are below them throughout.\<close>

lemma all_patient_small: "length bs < l \<Longrightarrow> all_patient F l bs"
proof (induction F l bs rule: all_patient.induct)
  case (1 F l bs)
  have "patient F l bs" using "1.prems" by (auto simp: patient_def)
  moreover have "all_patient F l (drop n bs)" if "decode_element F bs = Ok (Some (el, n))" for el n
    using "1.IH" that "1.prems" by simp
  ultimately show ?case
    by (subst all_patient.simps) (auto split: outcome.split option.split)
qed

lemma feed_length: "length (building_bytes (fst (feed b el))) \<le> length (building_bytes b) + length (webm_bytes el)"
  by (induction b el rule: feed.induct) auto

lemma below_limit_small:
  "length (building_bytes b) + length (written_bytes els) < l \<Longrightarrow> below_limit l b els"
proof (induction l b els rule: below_limit.induct)
  case (2 l b el els)
  have "length (building_bytes (fst (feed b el))) + length (written_bytes els) < l"
    using feed_length [of b el] "2.prems" by simp
  with 2 show ?case by simp
qed simp

text \<open>The relay chunks such an upload as if there were no limits: into the groups of its events.\<close>

lemma relay_chunks_unlimited:
  fixes cv :: "'e \<Rightarrow> 'x webmetro_error"
  assumes "whole_events (webm_from_ebml E) (source_bytes bdy) = (els, r)"
    and "well_timed els" "length (written_bytes els) < 2 ^ 64"
    and "all_patient (webm_from_ebml E) BUFFER_LIMIT (source_bytes bdy)"
    and "below_limit BUFFER_LIMIT (InHeader []) els"
  shows "all_chunks E cv (relay_chunker bdy) = all_chunks E cv (chunk_webm (parse_ebml bdy))"
proof -
  let ?c = "relay_chunker bdy"
  have in_c: "input (source ?c) = source_bytes bdy"
    by (simp add: relay_chunker_def chunker_with_soft_limit_def chunk_webm_def with_soft_limit_def
        parse_ebml_def input_def)
  have "all_chunks E cv ?c = all_chunks E cv (without_limits ?c)"
    by (rule all_chunks_limits [where b = "InHeader []" and k = BUFFER_LIMIT and l = BUFFER_LIMIT])
      (use assms in \<open>simp_all add: in_c well_timed_def\<close>,
       simp_all add: relay_chunker_def chunker_with_soft_limit_def chunk_webm_def with_soft_limit_def)
  also have "without_limits ?c = chunk_webm (parse_ebml bdy)"
    by (simp add: relay_chunker_def chunker_with_soft_limit_def chunk_webm_def with_soft_limit_def
        parse_ebml_def without_limits_def unlimited_def)
  finally show ?thesis .
qed

lemma relay_chunks:
  fixes cv :: "'e \<Rightarrow> 'x webmetro_error"
  assumes "\<And>e. SourceErr e \<notin> set bdy"
    and "whole_events (webm_from_ebml E) (source_bytes bdy) = (els, r)"
    and "well_timed els" "length (written_bytes els) < 2 ^ 64"
    and "all_patient (webm_from_ebml E) BUFFER_LIMIT (source_bytes bdy)"
    and "below_limit BUFFER_LIMIT (InHeader []) els"
  shows "all_chunks E cv (relay_chunker bdy) =
    (case groups (InHeader []) els of (gs, b) \<Rightarrow>
       (map realize (gs @ (if r = Ok () then last_group b else [])), map_err EbmlError r))"
  unfolding relay_chunks_unlimited [OF assms(2-6), where cv = cv]
  by (rule chunk_webm_groups [OF assms(1-4)])

end

end
