(* ===== verification/Relay_Progress.thy ===== *)
theory Relay_Progress
  imports Relay_Runs Within_Limits
begin

text \<open>
  What the invariant of the relay says of its viewers, and progress: a viewer whose listener
  is still registered is sent everything it is due within a bounded number of turns.
\<close>

section \<open>Safety\<close>

context relay
begin

text \<open>The bytes a viewer was sent, against the specification on lists of chunks.\<close>

lemma viewing_sent:
  assumes "serving E M W s" "v \<in> set (viewings s)" "view_open v"
    and "r = channel_runs s ! view_channel v" "i = tuned (view_state v)"
  shows "get_stream E (received r ! i) = Ok (view_out v @ unread_pieces (view_state v))"
    "prefix (received r ! i) (due r i)"
proof -
  note ok = serving_ok [OF assms(1)]
  note vD = viewing_okD [OF server_okD(4) [OF ok assms(2)]]
  obtain found where "adapt_all E fresh_adapters (received r ! i) = Ok (adapters_of (view_state v), found)"
    "pieces found = view_out v @ unread_pieces (view_state v)"
    using vD(5) [OF assms(3)] by (auto simp: viewed_def assms(4,5))
  then show "get_stream E (received r ! i) = Ok (view_out v @ unread_pieces (view_state v))"
    using adapt_all_get_stream [of E "received r ! i"] by simp
  show "prefix (received r ! i) (due r i)"
    using reachable_received(1) [of r i] server_okD(1) [OF ok vD(1)] vD(2) by (simp add: assms(4,5))
qed

text \<open>Connections of one name share a channel of that name.\<close>

lemma connection_channels:
  assumes "serving E M W s"
  shows "u \<in> set (uploads s) \<Longrightarrow> up_open u \<Longrightarrow>
      entry (channel_map s) (up_name u) = Some (up_channel u) \<and>
      name (chan (channel_runs s ! up_channel u)) = up_name u"
    "v \<in> set (viewings s) \<Longrightarrow> view_open v \<Longrightarrow>
      entry (channel_map s) (view_name v) = Some (view_channel v) \<and>
      name (chan (channel_runs s ! view_channel v)) = view_name v"
proof -
  note ok = server_okD [OF serving_ok [OF assms]]
  show "u \<in> set (uploads s) \<Longrightarrow> up_open u \<Longrightarrow>
      entry (channel_map s) (up_name u) = Some (up_channel u) \<and>
      name (chan (channel_runs s ! up_channel u)) = up_name u"
    using ok(2,3) by (auto simp: upload_ok_def)
  show "v \<in> set (viewings s) \<Longrightarrow> view_open v \<Longrightarrow>
      entry (channel_map s) (view_name v) = Some (view_channel v) \<and>
      name (chan (channel_runs s ! view_channel v)) = view_name v"
    using ok(2) viewing_okD(4) [OF ok(4)] by blast
qed

text \<open>Every request gets the reply of its path and method; no handler panics.\<close>

lemma routes_reply:
  assumes "serving E M W s"
  shows "snd (routes M W req s) =
    (case req_path req of
       [segment, nm] \<Rightarrow>
         if segment = ''live'' \<and> nm \<noteq> '''' then
           (case req_method req of
              MethodHead \<Rightarrow> Reply (media_response EmptyBody)
            | MethodGet \<Rightarrow> Reply (media_response (ViewerBody (length (viewings s))))
            | OtherMethod \<Rightarrow> Rejected
            | _ \<Rightarrow> Reply \<lparr>resp_headers = [], resp_body = UploadBody (length (uploads s))\<rparr>)
         else Rejected
     | _ \<Rightarrow> Rejected)"
proof (cases "\<exists>nm. nm \<noteq> '''' \<and> req_path req = [''live'', nm]")
  case True
  then obtain nm where nm: "nm \<noteq> ''''" "req_path req = [''live'', nm]" by blast
  obtain s1 a1 where s1: "channel_of W nm s = (s1, a1)" by (cases "channel_of W nm s")
  obtain s2 a2 where s2: "channel_of W nm s1 = (s2, a2)" by (cases "channel_of W nm s1")
  obtain s3 a3 where s3: "channel_of W nm s2 = (s3, a3)" by (cases "channel_of W nm s2")
  note ok1 = channel_of_ok [OF serving_ok [OF assms] s1]
  note ok2 = channel_of_ok [OF ok1(1) s2]
  note ok3 = channel_of_ok [OF ok2(1) s3]
  obtain s4 r where get: "get_handler M a2 nm s2 = (s4, r)" by (cases "get_handler M a2 nm s2")
  with get_handler_ok(2) [OF ok2(1,3,2) get] have "r = Reply (media_response (ViewerBody (length (viewings s))))"
    using ok1(5) ok2(5) by simp
  with get show ?thesis
    using ok1(4) ok2(4) ok3(4) nm s1 s2 s3
    by (cases "req_method req")
      (simp_all add: routes_def or_route_def route_def head_handler_def post_handler_def)
next
  case False
  then show ?thesis
    by (auto simp: routes_def or_route_def route_def split: list.split)
qed

end

section \<open>Progress\<close>

context big_endian
begin

lemma process_release: "\<not> overflow_checks E \<Longrightarrow> \<exists>x. process E f c = Ok x"
  by (cases c) (auto simp: process_def Let_def update_timecode_eq add_u64_release sub_u64_release)


lemma process_all_release: "\<not> overflow_checks E \<Longrightarrow> \<exists>fixed. process_all E f cs = Ok fixed"
proof (induction cs arbitrary: f)
  case (Cons c cs)
  obtain f' c' where "process E f c = Ok (f', c')" using process_release [OF Cons.prems, of f c] by auto
  with Cons.IH [OF Cons.prems, of f'] show ?case by auto
qed simp

lemma get_stream_release: "\<not> overflow_checks E \<Longrightarrow> \<exists>out. get_stream E cs = Ok out"
  unfolding get_stream_Ok_iff by (rule process_all_release)

end

text \<open>What is waiting for a viewer: unread pieces and chunks in its queue.\<close>

definition waiting :: "('q \<Rightarrow> chunk list) \<Rightarrow> viewer \<Rightarrow> 'q channel \<Rightarrow> nat" where
  "waiting queued v ch =
    (case unread v of None \<Rightarrow> 0 | Some c \<Rightarrow> Suc (pieces_left c)) +
    4 * length (queued (queues ch ! tuned v))"

definition viewing_waiting :: "('q \<Rightarrow> chunk list) \<Rightarrow> nat \<Rightarrow> ('q, 'm, 'e) server \<Rightarrow> nat" where
  "viewing_waiting queued j s =
    (let v = viewings s ! j in waiting queued (view_state v) (chan (channel_runs s ! view_channel v)))"

context bounded_mpsc
begin

lemma pieces_left_le: "pieces_left c \<le> 2"
  by (cases c) simp_all

lemma unread_accept:
  "viewer_accept E c v = (v', y) \<Longrightarrow> \<not> failed y \<Longrightarrow> unread v = None \<Longrightarrow>
    (case unread v' of None \<Rightarrow> 0 | Some c \<Rightarrow> Suc (pieces_left c)) \<le> 3 \<and> tuned v' = tuned v"
  using pieces_left_le
  by (auto simp: viewer_accept_def numeral_3_eq_3 numeral_2_eq_2 split: outcome.splits prod.splits option.splits)

lemma viewer_turn_progress:
  assumes "viewer_turn E M v ch = (v', ch', y)" "\<not> failed y" "tuned v < length (queues ch)"
    "waiting queued v ch \<noteq> 0"
  shows "waiting queued v' ch' < waiting queued v ch"
proof (cases "unread v")
  case (Some c)
  obtain c' p where nxt: "chunk_next c = (c', p)" by (cases "chunk_next c")
  with Some assms(1) chunk_next_decreases [of c c'] show ?thesis
    by (cases p) (auto simp: viewer_turn_def waiting_def)
next
  case None
  then obtain c cs where q: "queued (queues ch ! tuned v) = c # cs"
    using assms(4) by (cases "queued (queues ch ! tuned v)") (auto simp: waiting_def)
  obtain q' where q': "poll_receiver M (queues ch ! tuned v) = (q', Ready (Some c))" "queued q' = cs"
    using poll_queued [OF q] by blast
  then have poll: "listener_poll_next M (tuned v) ch =
      (ch\<lparr>queues := (queues ch)[tuned v := q']\<rparr>, Ready (Some c))"
    by (simp add: listener_poll_next_def)
  obtain w y' where acc: "viewer_accept E c v = (w, y')" by (cases "viewer_accept E c v")
  with None poll assms(1) have "v' = w" "y = y'" "ch' = ch\<lparr>queues := (queues ch)[tuned v := q']\<rparr>"
    by (auto simp: viewer_turn_def)
  with unread_accept [OF acc _ None] assms(2,3) q q'(2) None show ?thesis
    by (auto simp: waiting_def)
qed

text \<open>With nothing waiting, a turn finds nothing.\<close>

lemma viewer_turn_idle:
  assumes "viewer_turn E M v ch = (v', ch', y)" "tuned v < length (queues ch)" "waiting queued v ch = 0"
  shows "waiting queued v' ch' = 0"
proof -
  have idle: "unread v = None" "queued (queues ch ! tuned v) = []"
    using assms(3) by (auto simp: waiting_def split: option.splits)
  obtain q' r where q': "poll_receiver M (queues ch ! tuned v) = (q', r)" "r = Pending \<or> r = Ready None"
    "queued q' = []"
    using poll_empty [OF idle(2)] by blast
  then have "listener_poll_next M (tuned v) ch = (ch\<lparr>queues := (queues ch)[tuned v := q']\<rparr>, r)"
    by (simp add: listener_poll_next_def)
  with assms(1) idle(1) q'(2) have "v' = v" "ch' = ch\<lparr>queues := (queues ch)[tuned v := q']\<rparr>"
    by (auto simp: viewer_turn_def)
  with idle(1) q'(3) assms(2) show ?thesis by (simp add: waiting_def)
qed

end

context relay
begin

text \<open>What turns of one viewer leave as it is.\<close>

definition same_service :: "nat \<Rightarrow> ('q, 'm, 'e) server \<Rightarrow> ('q, 'm, 'e) server \<Rightarrow> bool" where
  "same_service j s s' \<longleftrightarrow>
    (let v = viewings s ! j; v' = viewings s' ! j; a = view_channel v; i = tuned (view_state v);
         r = channel_runs s ! a; r' = channel_runs s' ! a
     in length (viewings s') = length (viewings s) \<and> view_open v' = view_open v \<and>
        tuned_in v' = tuned_in v \<and> due r' i = due r i \<and>
        listeners (chan r') = listeners (chan r) \<and> left r' = left r)"

lemma same_service_refl: "same_service j s s"
  by (simp add: same_service_def)

lemma same_service_trans: "same_service j s s' \<Longrightarrow> same_service j s' s'' \<Longrightarrow> same_service j s s''"
  by (auto simp: same_service_def tuned_in_def Let_def)

text \<open>The stream of all that a viewer is due does not fail.\<close>

definition viewing_clean :: "rt \<Rightarrow> nat \<Rightarrow> ('q, 'm, 'e) server \<Rightarrow> bool" where
  "viewing_clean E j s \<longleftrightarrow>
    (let v = viewings s ! j in
     \<exists>out. get_stream E (due (channel_runs s ! view_channel v) (tuned (view_state v))) = Ok out)"

lemma viewing_clean_release: "big_endian E \<Longrightarrow> \<not> overflow_checks E \<Longrightarrow> viewing_clean E j s"
  by (simp add: viewing_clean_def Let_def big_endian.get_stream_release)

lemma same_service_clean: "same_service j s s' \<Longrightarrow> viewing_clean E j s' \<longleftrightarrow> viewing_clean E j s"
  by (auto simp: same_service_def viewing_clean_def tuned_in_def Let_def)

text \<open>Then no turn of the viewer fails.\<close>

lemma viewing_turn_fine:
  assumes s: "serving E M W s" "j < length (viewings s)" "view_open (viewings s ! j)"
    and clean: "viewing_clean E j s"
    and turn: "viewer_turn E M (view_state (viewings s ! j))
      (chan (channel_runs s ! view_channel (viewings s ! j))) = (w, ch, y)"
  shows "\<not> failed y"
proof -
  let ?v = "viewings s ! j"
  let ?r = "channel_runs s ! view_channel ?v" and ?i = "tuned (view_state ?v)"
  let ?got = "taken M (view_state ?v) (chan ?r)"
  note vD = viewing_okD [OF server_okD(4) [OF serving_ok [OF s(1)] nth_mem [OF s(2)]]]
  have "reachable M (run_receive ?i ch ?got ?r)"
    using server_okD(1) [OF serving_ok [OF s(1)] vD(1)] vD(2) vD(3) [OF s(3)] turn by (rule viewer_turn_run(1))
  then have "prefix (received (run_receive ?i ch ?got ?r) ! ?i) (due (run_receive ?i ch ?got ?r) ?i)"
    using vD(2) by (intro reachable_received(1)) (simp_all add: run_receive_def)
  then have "prefix (received ?r ! ?i @ ?got) (due ?r ?i)"
    using vD(2) by (simp add: run_receive_def due_def)
  then obtain rest where rest: "due ?r ?i = received ?r ! ?i @ ?got @ rest" by (auto simp: prefix_def)
  obtain out where "get_stream E (due ?r ?i) = Ok out"
    using clean by (auto simp: viewing_clean_def Let_def)
  with viewer_turn_fine [OF vD(5) [OF s(3)] turn] rest show ?thesis by simp
qed

lemma turn_viewing_progress:
  assumes s: "serving E M W s" "j < length (viewings s)" "view_open (viewings s ! j)"
    and clean: "viewing_clean E j s"
  shows "serving E M W (turn_viewing E M j s)" "same_service j s (turn_viewing E M j s)"
    "viewing_waiting queued j s \<noteq> 0 \<Longrightarrow> viewing_waiting queued j (turn_viewing E M j s) < viewing_waiting queued j s"
    "viewing_waiting queued j s = 0 \<Longrightarrow> viewing_waiting queued j (turn_viewing E M j s) = 0"
proof -
  let ?v = "viewings s ! j"
  let ?a = "view_channel ?v" and ?i = "tuned (view_state ?v)"
  let ?r = "channel_runs s ! ?a"
  note vD = viewing_okD [OF server_okD(4) [OF serving_ok [OF s(1)] nth_mem [OF s(2)]]]
  show "serving E M W (turn_viewing E M j s)"
    by (rule serving.step [OF s(1) server_step.viewing_turned [OF s(2,3)]])
  obtain w ch y where turn: "viewer_turn E M (view_state ?v) (chan ?r) = (w, ch, y)"
    by (metis prod.collapse)
  have fine: "\<not> failed y" by (rule viewing_turn_fine [OF s clean turn])
  let ?r' = "run_receive ?i ch (taken M (view_state ?v) (chan ?r)) ?r"
  have s': "turn_viewing E M j s =
      s\<lparr>viewings := (viewings s)[j := ?v\<lparr>view_state := w, view_out := view_out ?v @ yielded y\<rparr>],
        channel_runs := (channel_runs s)[?a := ?r']\<rparr>"
    using fine turn by (simp add: turn_viewing_def Let_def)
  have w: "tuned w = ?i" by (rule viewer_turn_tuned [OF turn])
  have ch: "listeners ch = listeners (chan ?r)" "length (queues ch) = length (queues (chan ?r))"
    using viewer_turn_channel [OF turn] by (auto simp: listener_poll_next_def split: prod.splits)
  show "same_service j s (turn_viewing E M j s)"
    using s(2) vD(1) w ch by (simp add: same_service_def Let_def s' tuned_in_def run_receive_def due_def)
  have queues: "length (received ?r) = length (queues (chan ?r))"
    using reachable_ok [OF server_okD(1) [OF serving_ok [OF s(1)] vD(1)]] by (simp add: run_ok_def)
  from queues show "viewing_waiting queued j (turn_viewing E M j s) < viewing_waiting queued j s" if "viewing_waiting queued j s \<noteq> 0"
    using viewer_turn_progress [OF turn fine] that vD(1,2) s(2)
    by (simp add: viewing_waiting_def Let_def s' run_receive_def)
  show "viewing_waiting queued j (turn_viewing E M j s) = 0" if "viewing_waiting queued j s = 0"
    using viewer_turn_idle [OF turn] queues that vD(1,2) s(2)
    by (simp add: viewing_waiting_def Let_def s' run_receive_def)
qed

lemma viewing_drains:
  assumes s: "serving E M W s" "j < length (viewings s)" "view_open (viewings s ! j)"
    and clean: "viewing_clean E j s"
  shows "\<exists>n \<le> viewing_waiting queued j s. let s' = (turn_viewing E M j ^^ n) s in
    serving E M W s' \<and> same_service j s s' \<and> viewing_waiting queued j s' = 0"
  using assms
proof (induction "viewing_waiting queued j s" arbitrary: s rule: less_induct)
  case less
  show ?case
  proof (cases "viewing_waiting queued j s = 0")
    case True
    with less.prems show ?thesis by (intro exI [of _ 0]) (simp add: same_service_refl)
  next
    case False
    let ?t = "turn_viewing E M j s"
    note t = turn_viewing_progress [OF less.prems]
    from t(2) less.prems(2-4) have "j < length (viewings ?t)" "view_open (viewings ?t ! j)" "viewing_clean E j ?t"
      using same_service_clean [OF t(2)] by (simp_all add: same_service_def Let_def)
    with less.hyps [OF t(3) [OF False] t(1)] obtain n where n: "n \<le> viewing_waiting queued j ?t"
      "serving E M W ((turn_viewing E M j ^^ n) ?t)" "same_service j ?t ((turn_viewing E M j ^^ n) ?t)"
      "viewing_waiting queued j ((turn_viewing E M j ^^ n) ?t) = 0"
      by (auto simp: Let_def)
    show ?thesis
      using n t(3) [OF False] same_service_trans [OF t(2) n(3)]
      by (intro exI [of _ "Suc n"]) (simp add: Let_def funpow_Suc_right del: funpow.simps)
  qed
qed

lemma viewing_waiting_bound:
  assumes "serving E M W s" "j < length (viewings s)"
  shows "viewing_waiting queued j s \<le> 27"
proof -
  let ?v = "viewings s ! j"
  let ?r = "channel_runs s ! view_channel ?v" and ?i = "tuned (view_state (viewings s ! j))"
  note ok = serving_ok [OF assms(1)]
  note vD = viewing_okD [OF server_okD(4) [OF ok nth_mem [OF assms(2)]]]
  have r: "reachable M ?r" using server_okD(1) [OF ok vD(1)] .
  then have "?i < length (queues (chan ?r))"
    using reachable_ok vD(2) by (simp add: run_ok_def)
  then have "length (queued (queues (chan ?r) ! ?i)) \<le> 6"
    using reachable_capacity [OF r] by blast
  moreover have "(case unread (view_state ?v) of None \<Rightarrow> 0 | Some c \<Rightarrow> Suc (pieces_left c)) \<le> 3"
    using pieces_left_le by (auto simp: numeral_3_eq_3 numeral_2_eq_2 split: option.split)
  ultimately show ?thesis
    by (simp add: viewing_waiting_def Let_def waiting_def)
qed

text \<open>A registered viewer is sent all it is due.\<close>

lemma viewing_served:
  assumes s: "serving E M W s" "j < length (viewings s)" "view_open (viewings s ! j)"
    and clean: "viewing_clean E j s"
    and r: "r = channel_runs s ! view_channel (viewings s ! j)" "i = tuned (view_state (viewings s ! j))"
      "i \<in> set (listeners (chan r))"
  shows "\<exists>n \<le> viewing_waiting queued j s. get_stream E (due r i) =
    Ok (view_out (viewings ((turn_viewing E M j ^^ n) s) ! j))"
proof -
  obtain n where n: "n \<le> viewing_waiting queued j s"
    and s': "serving E M W ((turn_viewing E M j ^^ n) s)" "same_service j s ((turn_viewing E M j ^^ n) s)"
      "viewing_waiting queued j ((turn_viewing E M j ^^ n) s) = 0"
    using viewing_drains [OF s clean] by (auto simp: Let_def)
  let ?s = "(turn_viewing E M j ^^ n) s"
  let ?v = "viewings ?s ! j"
  let ?r = "channel_runs ?s ! view_channel ?v"
  have v: "j < length (viewings ?s)" "view_open ?v" "tuned (view_state ?v) = i"
    "view_channel ?v = view_channel (viewings s ! j)" "due ?r i = due r i" "i \<in> set (listeners (chan ?r))"
    using s'(2) s(2,3) r by (auto simp: same_service_def Let_def tuned_in_def)
  note vD = viewing_okD [OF server_okD(4) [OF serving_ok [OF s'(1)] nth_mem [OF v(1)]]]
  have idle: "unread (view_state ?v) = None" "queued (queues (chan ?r) ! i) = []"
    using s'(3) v(3) by (auto simp: viewing_waiting_def waiting_def Let_def split: option.splits)
  have "received ?r ! i @ queued (queues (chan ?r) ! i) = due ?r i"
    using reachable_received(2) [OF server_okD(1) [OF serving_ok [OF s'(1)] vD(1)], of i] vD(2,3) v by simp
  then have "received ?r ! i = due r i" using idle(2) v(5) by simp
  with viewing_sent(1) [OF s'(1) nth_mem [OF v(1)] v(2) refl refl] idle(1) v(3)
  have "get_stream E (due r i) = Ok (view_out ?v)" by (simp add: unread_pieces_def)
  with n show ?thesis by blast
qed

lemma registered_viewing_served:
  assumes "serving E M W s" "j < length (viewings s)" "view_open (viewings s ! j)" "viewing_clean E j s"
    and "r = channel_runs s ! view_channel (viewings s ! j)" "i = tuned (view_state (viewings s ! j))"
      "i \<in> set (listeners (chan r))"
  shows "\<exists>n \<le> 27. get_stream E (due r i) =
    Ok (view_out (viewings ((turn_viewing E M j ^^ n) s) ! j))"
  using viewing_served [OF assms] viewing_waiting_bound [OF assms(1,2)] by (meson order_trans)

section \<open>Uploads\<close>

text \<open>A poll of an upload that sends a chunk, or that has to wait.\<close>

lemma poll_upload_step:
  fixes s :: "('q, 'm, 'e) server"
  assumes s: "serving E M W s" "j < length (uploads s)" "up_open (uploads s ! j)"
    and a: "a = up_channel (uploads s ! j)"
    and nxt: "poll_next E WarpError (up_chunker (uploads s ! j)) = (c', x)"
      "x = Pending \<or> (\<exists>ch. x = Ready (Some (Ok ch)))"
  shows "serving E M W (poll_upload E M j s)" "j < length (uploads (poll_upload E M j s))"
    "uploads (poll_upload E M j s) ! j = (uploads s ! j)\<lparr>up_chunker := c'\<rparr>"
    "sent (channel_runs (poll_upload E M j s) ! a) =
      sent (channel_runs s ! a) @ (case x of Ready (Some (Ok ch)) \<Rightarrow> [ch] | _ \<Rightarrow> [])"
proof -
  let ?u = "uploads s ! j"
  let ?r = "channel_runs s ! a"
  have ok: "upload_ok s ?u" using server_okD(3) [OF serving_ok [OF s(1)]] s(2) by simp
  then have a_less: "a < length (channel_runs s)" by (simp add: upload_ok_def a)
  show "serving E M W (poll_upload E M j s)"
    by (rule serving.step [OF s(1) server_step.upload_polled [OF s(2,3)]])
  have send: "\<exists>ch. transmitter_send M c (chan ?r) = (ch, Ok ())" for c
    using reachable_no_panic(2) [OF server_okD(1) [OF serving_ok [OF s(1)] a_less], of c]
    by (metis prod.collapse)
  obtain ch polled where poll: "post_poll E WarpError M (up_chunker ?u, chan ?r) = ((c', ch), polled)"
    "\<not> upload_failed polled"
  proof (cases "x = Pending")
    case True
    with nxt(1) show ?thesis by (intro that [of "chan ?r" Pending]) (simp_all add: post_poll_def)
  next
    case False
    then obtain c where "x = Ready (Some (Ok c))" using nxt(2) by blast
    moreover obtain ch where "transmitter_send M c (chan ?r) = (ch, Ok ())" using send by blast
    ultimately show ?thesis
      using nxt(1) by (intro that [of ch "Ready (Some (Ok []))"]) (simp_all add: post_poll_def)
  qed
  have "sent_by E WarpError (up_chunker ?u) = (case x of Ready (Some (Ok ch)) \<Rightarrow> [ch] | _ \<Rightarrow> [])"
    using nxt(1) by (simp add: sent_by_def)
  then have "poll_upload E M j s =
      s\<lparr>uploads := (uploads s)[j := ?u\<lparr>up_chunker := c'\<rparr>],
        channel_runs := (channel_runs s)[a := run_update ?r ch (case x of Ready (Some (Ok ch)) \<Rightarrow> [ch] | _ \<Rightarrow> [])]\<rparr>"
    using poll by (simp add: poll_upload_def Let_def flip: a)
  then show "j < length (uploads (poll_upload E M j s))"
    "uploads (poll_upload E M j s) ! j = ?u\<lparr>up_chunker := c'\<rparr>"
    "sent (channel_runs (poll_upload E M j s) ! a) =
      sent ?r @ (case x of Ready (Some (Ok ch)) \<Rightarrow> [ch] | _ \<Rightarrow> [])"
    using s(2) a_less by (simp_all add: run_update_def)
qed

text \<open>
  Polled on its own, an upload sends all the chunks of its body, and comes to where its
  stream ends or fails.
\<close>

lemma upload_runs_out:
  fixes s :: "('q, 'm, 'e) server"
  assumes "serving E M W s" "j < length (uploads s)" "up_open (uploads s ! j)"
    and "a = up_channel (uploads s ! j)"
  shows "\<exists>(c' :: 'e chunker) x n. n \<le> work_left (up_chunker (uploads s ! j)) \<and>
    (let s' = (poll_upload E M j ^^ n) s in
     serving E M W s' \<and> j < length (uploads s') \<and>
     uploads s' ! j = (uploads s ! j)\<lparr>up_chunker := c'\<rparr> \<and>
     sent (channel_runs s' ! a) =
       sent (channel_runs s ! a) @ fst (all_chunks E WarpError (up_chunker (uploads s ! j))) \<and>
     snd (poll_next E WarpError c') = x \<and> \<not> (x = Pending \<or> (\<exists>ch. x = Ready (Some (Ok ch)))) \<and>
     snd (all_chunks E WarpError (up_chunker (uploads s ! j))) = snd (all_chunks E WarpError c'))"
  using assms
proof (induction "work_left (up_chunker (uploads s ! j))" arbitrary: s rule: less_induct)
  case less
  let ?c = "up_chunker (uploads s ! j)" and ?t = "poll_upload E M j s"
  obtain c1 x where nxt: "poll_next E WarpError ?c = (c1, x)" by (cases "poll_next E WarpError ?c")
  show ?case
  proof (cases "x = Pending \<or> (\<exists>ch. x = Ready (Some (Ok ch)))")
    case True
    note t = poll_upload_step [OF less.prems nxt True]
    have c1: "up_chunker (uploads ?t ! j) = c1" "up_open (uploads ?t ! j)" "a = up_channel (uploads ?t ! j)"
      using t(3) less.prems(3,4) by simp_all
    have shorter: "work_left c1 < work_left ?c" by (rule poll_next_work [OF nxt True])
    obtain c' y n where n: "n \<le> work_left c1"
      "let s' = (poll_upload E M j ^^ n) ?t in
       serving E M W s' \<and> j < length (uploads s') \<and> uploads s' ! j = (uploads ?t ! j)\<lparr>up_chunker := c'\<rparr> \<and>
       sent (channel_runs s' ! a) = sent (channel_runs ?t ! a) @ fst (all_chunks E WarpError c1) \<and>
       snd (poll_next E WarpError c') = y \<and> \<not> (y = Pending \<or> (\<exists>ch. y = Ready (Some (Ok ch)))) \<and>
       snd (all_chunks E WarpError c1) = snd (all_chunks E WarpError (c' :: 'e chunker))"
      using less.hyps [OF _ t(1,2) c1(2,3)] shorter unfolding c1(1) by blast
    have "fst (all_chunks E WarpError ?c) =
        (case x of Ready (Some (Ok ch)) \<Rightarrow> [ch] | _ \<Rightarrow> []) @ fst (all_chunks E WarpError c1)"
      "snd (all_chunks E WarpError ?c) = snd (all_chunks E WarpError c1)"
      using True by (subst all_chunks.simps; auto simp: nxt split: prod.split)+
    with n t(3,4) shorter show ?thesis
      by (intro exI [of _ c'] exI [of _ y] exI [of _ "Suc n"])
        (simp add: funpow_Suc_right Let_def del: funpow.simps)
  next
    case False
    then have "fst (all_chunks E WarpError ?c) = []"
      by (subst all_chunks.simps) (auto simp: nxt split: poll.split option.split outcome.split)
    with False nxt less.prems show ?thesis
      by (intro exI [of _ ?c] exI [of _ x] exI [of _ 0]) simp
  qed
qed

lemma upload_drains:
  fixes s :: "('q, 'm, 'e) server"
  assumes "serving E M W s" "j < length (uploads s)" "up_open (uploads s ! j)"
    and "a = up_channel (uploads s ! j)"
  shows "\<exists>n \<le> work_left (up_chunker (uploads s ! j)).
    sent (channel_runs ((poll_upload E M j ^^ n) s) ! a) =
    sent (channel_runs s ! a) @ fst (all_chunks E WarpError (up_chunker (uploads s ! j)))"
  using upload_runs_out [OF assms] by (auto simp: Let_def)

text \<open>An error or a panic closes the upload, and the channel forgets its header.\<close>

lemma poll_upload_broken:
  fixes s :: "('q, 'm, 'e) server"
  assumes s: "serving E M W s" "j < length (uploads s)" "up_open (uploads s ! j)"
    and a: "a = up_channel (uploads s ! j)"
    and nxt: "snd (poll_next E WarpError (up_chunker (uploads s ! j))) = Ready (Some r)" "\<And>ch. r \<noteq> Ok ch"
  shows "\<not> up_open (uploads (poll_upload E M j s) ! j)"
    "sent (channel_runs (poll_upload E M j s) ! a) = sent (channel_runs s ! a)"
    "header_chunk (chan (channel_runs (poll_upload E M j s) ! a)) = None"
    "listeners (chan (channel_runs (poll_upload E M j s) ! a)) = listeners (chan (channel_runs s ! a))"
proof -
  let ?u = "uploads s ! j" and ?r = "channel_runs s ! a"
  obtain c' where c': "poll_next E WarpError (up_chunker ?u) = (c', Ready (Some r))"
    using nxt(1) by (metis prod.collapse)
  have a_less: "a < length (channel_runs s)"
    using server_okD(3) [OF serving_ok [OF s(1)]] s(2) by (simp add: upload_ok_def a)
  have fine: "\<not> poisoned (chan ?r)"
    by (rule reachable_no_panic(1) [OF server_okD(1) [OF serving_ok [OF s(1)] a_less]])
  have "poll_upload E M j s = close_upload j
      (s\<lparr>uploads := (uploads s)[j := ?u\<lparr>up_chunker := c'\<rparr>], channel_runs := (channel_runs s)[a := ?r]\<rparr>)"
  proof -
    consider e where "r = Err e" | "r = Panic" using nxt(2) by (cases r) auto
    then show ?thesis
      using c' by cases (simp_all add: poll_upload_def post_poll_def sent_by_def run_update_def Let_def flip: a)
  qed
  with s(2) a_less fine show "\<not> up_open (uploads (poll_upload E M j s) ! j)"
    "sent (channel_runs (poll_upload E M j s) ! a) = sent (channel_runs s ! a)"
    "header_chunk (chan (channel_runs (poll_upload E M j s) ! a)) = None"
    "listeners (chan (channel_runs (poll_upload E M j s) ! a)) = listeners (chan (channel_runs s ! a))"
    by (simp_all add: close_upload_def run_disconnect_def transmitter_drop_def a [symmetric])
qed

lemma upload_breaks_off:
  fixes s :: "('q, 'm, 'e) server"
  assumes s: "serving E M W s" "j < length (uploads s)" "up_open (uploads s ! j)"
    and a: "a = up_channel (uploads s ! j)"
    and bad: "snd (all_chunks E WarpError (up_chunker (uploads s ! j))) \<noteq> Ok ()"
  shows "\<exists>n \<le> Suc (work_left (up_chunker (uploads s ! j))). let s' = (poll_upload E M j ^^ n) s in
    serving E M W s' \<and> \<not> up_open (uploads s' ! j) \<and> header_chunk (chan (channel_runs s' ! a)) = None \<and>
    sent (channel_runs s' ! a) =
      sent (channel_runs s ! a) @ fst (all_chunks E WarpError (up_chunker (uploads s ! j)))"
proof -
  obtain c' x n where n: "n \<le> work_left (up_chunker (uploads s ! j))"
    and out: "let s' = (poll_upload E M j ^^ n) s in
     serving E M W s' \<and> j < length (uploads s') \<and> uploads s' ! j = (uploads s ! j)\<lparr>up_chunker := c'\<rparr> \<and>
     sent (channel_runs s' ! a) =
       sent (channel_runs s ! a) @ fst (all_chunks E WarpError (up_chunker (uploads s ! j))) \<and>
     snd (poll_next E WarpError c') = x \<and> \<not> (x = Pending \<or> (\<exists>ch. x = Ready (Some (Ok ch)))) \<and>
     snd (all_chunks E WarpError (up_chunker (uploads s ! j))) = snd (all_chunks E WarpError (c' :: 'e chunker))"
    using upload_runs_out [OF s a] by blast
  let ?t = "(poll_upload E M j ^^ n) s"
  have t: "serving E M W ?t" "j < length (uploads ?t)" "up_open (uploads ?t ! j)"
    "a = up_channel (uploads ?t ! j)" "up_chunker (uploads ?t ! j) = c'"
    using out s(3) a by (simp_all add: Let_def)
  obtain r where r: "snd (poll_next E WarpError c') = Ready (Some r)" "\<And>ch. r \<noteq> Ok ch"
  proof (cases x)
    case (Ready y)
    have "y \<noteq> None"
    proof
      assume "y = None"
      with out Ready have "snd (all_chunks E WarpError c') = Ok ()"
        by (subst all_chunks.simps) (auto simp: Let_def split: prod.split)
      with out bad show False by (simp add: Let_def)
    qed
    with out Ready that show ?thesis by (auto simp: Let_def)
  qed (use out in \<open>simp add: Let_def\<close>)
  note broken = poll_upload_broken [OF t(1-4), unfolded t(5), OF r]
  have "serving E M W (poll_upload E M j ?t)"
    by (rule serving.step [OF t(1) server_step.upload_polled [OF t(2,3)]])
  with broken out n show ?thesis
    by (intro exI [of _ "Suc n"]) (simp add: Let_def)
qed

end

end
