(* ===== verification/Relay_Schedules.thy ===== *)
theory Relay_Schedules
  imports Relay_Progress
begin

text \<open>
  The steps of the server as actions that can be scheduled: what any sequence of them leaves
  of a viewer that keeps up, and of an upload that has its channel to itself.
\<close>

section \<open>Actions\<close>

datatype 'e action =
    Request "'e request"
  | PollUpload nat
  | CloseUpload nat
  | TurnViewing nat
  | CloseViewing nat

fun enabled :: "'e action \<Rightarrow> ('q, 'm, 'e) server \<Rightarrow> bool" where
  "enabled (Request req) s \<longleftrightarrow> True"
| "enabled (PollUpload j) s \<longleftrightarrow> j < length (uploads s) \<and> up_open (uploads s ! j)"
| "enabled (CloseUpload j) s \<longleftrightarrow> j < length (uploads s) \<and> up_open (uploads s ! j)"
| "enabled (TurnViewing k) s \<longleftrightarrow> k < length (viewings s) \<and> view_open (viewings s ! k)"
| "enabled (CloseViewing k) s \<longleftrightarrow> k < length (viewings s) \<and> view_open (viewings s ! k)"

fun perform ::
    "rt \<Rightarrow> 'q mpsc \<Rightarrow> 'm weak_map \<Rightarrow> 'e action \<Rightarrow> ('q, 'm, 'e) server \<Rightarrow> ('q, 'm, 'e) server" where
  "perform E M W (Request req) s = fst (routes M W req s)"
| "perform E M W (PollUpload j) s = poll_upload E M j s"
| "perform E M W (CloseUpload j) s = close_upload j s"
| "perform E M W (TurnViewing k) s = turn_viewing E M k s"
| "perform E M W (CloseViewing k) s = close_viewing M k s"

lemma server_step_action:
  "server_step E M W s s' \<longleftrightarrow> (\<exists>act. enabled act s \<and> s' = perform E M W act s)"
proof
  assume "server_step E M W s s'"
  then show "\<exists>act. enabled act s \<and> s' = perform E M W act s"
  proof cases
    case (request req r)
    then show ?thesis by (intro exI [of _ "Request req"]) simp
  next
    case (upload_polled j)
    then show ?thesis by (intro exI [of _ "PollUpload j"]) simp
  next
    case (upload_closed j)
    then show ?thesis by (intro exI [of _ "CloseUpload j"]) simp
  next
    case (viewing_turned k)
    then show ?thesis by (intro exI [of _ "TurnViewing k"]) simp
  next
    case (viewing_closed k)
    then show ?thesis by (intro exI [of _ "CloseViewing k"]) simp
  qed
next
  assume "\<exists>act. enabled act s \<and> s' = perform E M W act s"
  then obtain act where "enabled act s" "s' = perform E M W act s" by blast
  then show "server_step E M W s s'"
    by (cases act) (auto intro: server_step.intros(2-5) server_step.request [OF prod.collapse [symmetric]])
qed

fun run_actions ::
    "rt \<Rightarrow> 'q mpsc \<Rightarrow> 'm weak_map \<Rightarrow> 'e action list \<Rightarrow> ('q, 'm, 'e) server \<Rightarrow> ('q, 'm, 'e) server" where
  "run_actions E M W [] s = s"
| "run_actions E M W (act # acts) s = run_actions E M W acts (perform E M W act s)"

fun feasible ::
    "rt \<Rightarrow> 'q mpsc \<Rightarrow> 'm weak_map \<Rightarrow> 'e action list \<Rightarrow> ('q, 'm, 'e) server \<Rightarrow> bool" where
  "feasible E M W [] s \<longleftrightarrow> True"
| "feasible E M W (act # acts) s \<longleftrightarrow> enabled act s \<and> feasible E M W acts (perform E M W act s)"

lemma serving_perform: "serving E M W s \<Longrightarrow> enabled act s \<Longrightarrow> serving E M W (perform E M W act s)"
  using serving.step server_step_action by blast

lemma serving_run_actions:
  "serving E M W s \<Longrightarrow> feasible E M W acts s \<Longrightarrow> serving E M W (run_actions E M W acts s)"
  by (induction acts arbitrary: s) (auto intro: serving_perform)

text \<open>The reachable states are those that schedules lead to.\<close>

lemma run_actions_append:
  "run_actions E M W (as @ bs) s = run_actions E M W bs (run_actions E M W as s)"
  "feasible E M W (as @ bs) s \<longleftrightarrow> feasible E M W as s \<and> feasible E M W bs (run_actions E M W as s)"
  by (induction as arbitrary: s) simp_all

lemma serving_iff_schedule:
  "serving E M W s \<longleftrightarrow>
    (\<exists>acts. feasible E M W acts (server_start W) \<and> s = run_actions E M W acts (server_start W))"
proof
  show "serving E M W s \<Longrightarrow>
      \<exists>acts. feasible E M W acts (server_start W) \<and> s = run_actions E M W acts (server_start W)"
  proof (induction rule: serving.induct)
    case initial
    show ?case by (intro exI [of _ "[]"]) simp
  next
    case (step s s')
    then obtain acts act where "feasible E M W acts (server_start W)"
      "s = run_actions E M W acts (server_start W)" "enabled act s" "s' = perform E M W act s"
      using server_step_action by blast
    then show ?case by (intro exI [of _ "acts @ [act]"]) (simp add: run_actions_append)
  qed
qed (auto intro: serving_run_actions serving.initial)

section \<open>The load of a viewer\<close>

text \<open>An action that may send on a channel.\<close>

fun sends_to :: "nat \<Rightarrow> 'e action \<Rightarrow> ('q, 'm, 'e) server \<Rightarrow> bool" where
  "sends_to a (PollUpload j) s \<longleftrightarrow> up_channel (uploads s ! j) = a"
| "sends_to a _ s \<longleftrightarrow> False"

text \<open>
  A bound on the turns a viewer is behind. A poll of an upload to its channel costs four
  turns, and must not come when the queue may be full, which is when 24 turns are owed.
\<close>

fun load ::
    "rt \<Rightarrow> 'q mpsc \<Rightarrow> 'm weak_map \<Rightarrow> nat \<Rightarrow> nat \<Rightarrow> 'e action list \<Rightarrow> ('q, 'm, 'e) server \<Rightarrow> nat option" where
  "load E M W k w [] s = Some w"
| "load E M W k w (act # acts) s =
    (let s' = perform E M W act s in
     if sends_to (view_channel (viewings s ! k)) act s
     then (if w < 24 then load E M W k (w + 4) acts s' else None)
     else load E M W k (case act of TurnViewing j \<Rightarrow> if j = k then w - 1 else w | _ \<Rightarrow> w) acts s')"

text \<open>An upload that is the only one to send on a channel.\<close>

fun sole_sender ::
    "rt \<Rightarrow> 'q mpsc \<Rightarrow> 'm weak_map \<Rightarrow> nat \<Rightarrow> nat \<Rightarrow> 'e action list \<Rightarrow> ('q, 'm, 'e) server \<Rightarrow> bool" where
  "sole_sender E M W a j [] s \<longleftrightarrow> True"
| "sole_sender E M W a j (act # acts) s \<longleftrightarrow>
    (sends_to a act s \<longrightarrow> act = PollUpload j) \<and> sole_sender E M W a j acts (perform E M W act s)"

section \<open>What the operations leave of a listener\<close>

context relay
begin

definition listener_kept :: "nat \<Rightarrow> 'q run \<Rightarrow> 'q run \<Rightarrow> bool" where
  "listener_kept i r r' \<longleftrightarrow>
    queued (queues (chan r') ! i) = queued (queues (chan r) ! i) \<and>
    (i \<in> set (listeners (chan r)) \<longrightarrow> i \<in> set (listeners (chan r'))) \<and> due r' i = due r i"

lemma listener_kept_refl [simp]: "listener_kept i r r"
  by (simp add: listener_kept_def)

lemma listener_kept_trans: "listener_kept i r r' \<Longrightarrow> listener_kept i r' r'' \<Longrightarrow> listener_kept i r r''"
  by (simp add: listener_kept_def)

lemma listener_kept_disconnect: "listener_kept i r (run_disconnect r)"
  by (simp add: listener_kept_def run_disconnect_def transmitter_drop_def due_def)

lemma listener_kept_leave: "i \<noteq> k \<Longrightarrow> listener_kept i r (run_leave M k r)"
  by (simp add: listener_kept_def run_leave_def listener_drop_def due_def)

lemma listener_kept_receive:
  assumes "viewer_turn E M v (chan r) = (v', ch, y)" "i \<noteq> tuned v"
  shows "listener_kept i r (run_receive (tuned v) ch got r)"
  using viewer_turn_channel [OF assms(1)] assms(2)
  by (auto simp: listener_kept_def run_receive_def due_def listener_poll_next_def split: prod.splits)

lemma listener_kept_join:
  assumes "reachable M r" "i < length (received r)"
  shows "listener_kept i r (fst (run_join M r))"
proof -
  have len: "length (greeting r) = length (queues (chan r))" "length (joined_at r) = length (queues (chan r))"
    "length (received r) = length (queues (chan r))"
    using reachable_ok [OF assms(1)] by (auto simp: run_ok_def)
  obtain ch x where new: "listener_new M (chan r) = (ch, x)" by (cases "listener_new M (chan r)")
  then have "queued (queues ch ! i) = queued (queues (chan r) ! i) \<and>
      set (listeners (chan r)) \<subseteq> set (listeners ch)"
    using assms(2) len
    by (auto simp: listener_new_def Let_def nth_append split: if_splits option.splits prod.splits bool.splits)
  with new len assms(2) show ?thesis
    by (auto simp: listener_kept_def run_join_def due_def nth_append split: outcome.split)
qed

text \<open>A viewing no step of whose own was taken.\<close>

definition view_kept :: "nat \<Rightarrow> ('q, 'm, 'e) server \<Rightarrow> ('q, 'm, 'e) server \<Rightarrow> bool" where
  "view_kept k s s' \<longleftrightarrow>
    (let v = viewings s ! k; a = view_channel v in
     k < length (viewings s') \<and> viewings s' ! k = v \<and>
     listener_kept (tuned (view_state v)) (channel_runs s ! a) (channel_runs s' ! a))"

lemma view_kept_refl: "k < length (viewings s) \<Longrightarrow> view_kept k s s"
  by (simp add: view_kept_def Let_def)

lemma view_kept_trans: "view_kept k s s' \<Longrightarrow> view_kept k s' s'' \<Longrightarrow> view_kept k s s''"
  by (auto simp: view_kept_def Let_def intro: listener_kept_trans)

lemma view_kept_update:
  assumes "k < length (viewings s')" "viewings s' ! k = viewings s ! k"
    and "channel_runs s' = (channel_runs s)[b := r']"
    and "view_channel (viewings s ! k) = b \<Longrightarrow> b < length (channel_runs s) \<Longrightarrow>
      listener_kept (tuned (view_state (viewings s ! k))) (channel_runs s ! b) r'"
  shows "view_kept k s s'"
  using assms
  by (cases "view_channel (viewings s ! k) = b"; cases "b < length (channel_runs s)")
    (auto simp: view_kept_def Let_def list_update_beyond)

lemma view_kept_lookup:
  assumes "server_ok E s" "k < length (viewings s)" "channel_of W nm s = (s', a)"
  shows "view_kept k s s'"
proof -
  have "view_channel (viewings s ! k) < length (channel_runs s)"
    using viewing_okD(1) [OF server_okD(4) [OF assms(1)]] assms(2) by simp
  with assms show ?thesis
    by (auto simp: channel_of_def view_kept_def Let_def nth_append split: prod.splits)
qed

lemma view_kept_get:
  assumes "server_ok E s" "k < length (viewings s)"
  shows "view_kept k s (fst (get_handler M a nm s))"
proof (rule view_kept_update)
  let ?r = "channel_runs s ! a"
  show "channel_runs (fst (get_handler M a nm s)) = (channel_runs s)[a := fst (run_join M ?r)]"
    "k < length (viewings (fst (get_handler M a nm s)))"
    "viewings (fst (get_handler M a nm s)) ! k = viewings s ! k"
    using assms(2) by (auto simp: get_handler_def nth_append split: prod.split outcome.split)
  show "listener_kept (tuned (view_state (viewings s ! k))) ?r (fst (run_join M ?r))"
    if "view_channel (viewings s ! k) = a" "a < length (channel_runs s)"
    using viewing_okD(2) [OF server_okD(4) [OF assms(1)]] that assms(2)
    by (intro listener_kept_join server_okD(1) [OF assms(1)]) auto
qed

lemma view_kept_request:
  fixes s :: "('q, 'm, 'e) server"
  assumes "server_ok E s" "k < length (viewings s)"
  shows "view_kept k s (fst (routes M W req s))"
proof -
  let ?P = "\<lambda>t. server_ok E t \<and> view_kept k s t"
  have "?P (fst (routes M W req s))"
  proof (rule routes_invariant [where P = ?P])
    show "?P s" using assms view_kept_refl by blast
  next
    fix t t' :: "('q, 'm, 'e) server" and nm a b
    assume t: "?P t" "channel_of W nm t = (t', a)"
    then have k: "k < length (viewings t)" by (simp add: view_kept_def Let_def)
    note ok = channel_of_ok(1-3) [OF conjunct1 [OF t(1)] t(2)]
    have t': "view_kept k s t'"
      using t view_kept_lookup k view_kept_trans by blast
    then have "k < length (viewings t')" by (simp add: view_kept_def Let_def)
    then have "view_kept k t' (fst (get_handler M a nm t'))" "view_kept k t' (fst (post_handler b a nm t'))"
      using view_kept_get [OF ok(1)] by (simp_all add: post_handler_def view_kept_def Let_def)
    then show "?P t' \<and> ?P (fst (get_handler M a nm t')) \<and> ?P (fst (post_handler b a nm t'))"
      using ok t' get_handler_ok(1) [OF ok(1,3,2) prod.collapse [symmetric]] post_handler_ok [OF ok(1,3,2)]
      by (blast intro: view_kept_trans)
  qed
  then show ?thesis by blast
qed

lemma view_kept_close_upload: "k < length (viewings s) \<Longrightarrow> view_kept k s (close_upload j s)"
  by (rule view_kept_update [where b = "up_channel (uploads s ! j)"
      and r' = "run_disconnect (channel_runs s ! up_channel (uploads s ! j))"])
    (simp_all add: close_upload_def Let_def listener_kept_disconnect)

text \<open>Two viewings are tuned to different listeners.\<close>

lemma tuned_in_distinct:
  assumes "server_ok E s" "j < length (viewings s)" "k < length (viewings s)" "j \<noteq> k"
    "view_channel (viewings s ! k) = view_channel (viewings s ! j)"
  shows "tuned (view_state (viewings s ! k)) \<noteq> tuned (view_state (viewings s ! j))"
proof -
  have "map tuned_in (viewings s) ! j \<noteq> map tuned_in (viewings s) ! k"
    using server_okD(5) [OF assms(1)] assms(2-4) by (subst nth_eq_iff_index_eq) simp_all
  with assms(2,3,5) show ?thesis by (simp add: tuned_in_def)
qed

lemma view_kept_close_viewing:
  assumes "server_ok E s" "j < length (viewings s)" "k < length (viewings s)" "j \<noteq> k"
  shows "view_kept k s (close_viewing M j s)"
  using assms(3,4) tuned_in_distinct [OF assms]
  by (intro view_kept_update [where b = "view_channel (viewings s ! j)" and
      r' = "run_leave M (tuned (view_state (viewings s ! j))) (channel_runs s ! view_channel (viewings s ! j))"])
    (simp_all add: close_viewing_def Let_def listener_kept_leave)

lemma view_kept_turn:
  assumes "server_ok E s" "j < length (viewings s)" "k < length (viewings s)" "j \<noteq> k"
  shows "view_kept k s (turn_viewing E' M j s)"
proof -
  let ?v = "viewings s ! j"
  let ?a = "view_channel ?v" and ?i = "tuned (view_state ?v)"
  let ?r = "channel_runs s ! ?a"
  obtain w ch y where turn: "viewer_turn E' M (view_state ?v) (chan ?r) = (w, ch, y)"
    by (metis prod.collapse)
  let ?got = "taken M (view_state ?v) (chan ?r)"
  let ?v' = "?v\<lparr>view_state := w, view_out := view_out ?v @ yielded y\<rparr>"
  let ?s = "s\<lparr>viewings := (viewings s)[j := ?v'],
    channel_runs := (channel_runs s)[?a := run_receive ?i ch ?got ?r]\<rparr>"
  have a: "?a < length (channel_runs s)"
    using viewing_okD(1) [OF server_okD(4) [OF assms(1)]] assms(2) by simp
  have w: "tuned w = ?i" by (rule viewer_turn_tuned [OF turn])
  have kept: "view_kept k s ?s"
  proof (rule view_kept_update)
    show "listener_kept (tuned (view_state (viewings s ! k))) ?r (run_receive ?i ch ?got ?r)"
      if "view_channel (viewings s ! k) = ?a"
      using tuned_in_distinct [OF assms that] by (intro listener_kept_receive [OF turn])
  qed (use assms(3,4) in simp_all)
  moreover have "view_kept k ?s (close_viewing M j ?s)"
  proof (rule view_kept_update)
    show "listener_kept (tuned (view_state (viewings ?s ! k))) (channel_runs ?s ! ?a)
        (run_leave M ?i (channel_runs ?s ! ?a))"
      if "view_channel (viewings ?s ! k) = ?a"
      using tuned_in_distinct [OF assms] that assms(4) by (intro listener_kept_leave) simp
  qed (use assms(2-4) a w in \<open>simp_all add: close_viewing_def Let_def\<close>)
  ultimately show ?thesis
    using view_kept_trans by (simp add: turn_viewing_def Let_def turn) blast
qed

end

end
