(* ===== verification/Relay_Delivery.thy ===== *)
theory Relay_Delivery
  imports Relay_Schedules
begin

text \<open>
  Delivery under any schedule: a viewer that keeps up stays registered, an upload that has
  its channel to itself sends all its chunks, and such a viewer is sent such an upload.
\<close>

section \<open>Histories only grow\<close>

definition extends :: "'q run \<Rightarrow> 'q run \<Rightarrow> bool" where
  "extends r r' \<longleftrightarrow> prefix (sent r) (sent r') \<and> prefix (greeting r) (greeting r') \<and> prefix (joined_at r) (joined_at r')"

lemma extends_refl [simp]: "extends r r"
  by (simp add: extends_def)

lemma extends_trans: "extends r r' \<Longrightarrow> extends r' r'' \<Longrightarrow> extends r r''"
  by (auto simp: extends_def intro: prefix_order.trans)

lemma extends_operations [simp]:
  "extends r (fst (run_join M r))" "extends r (run_disconnect r)" "extends r (run_leave M i r)"
  "extends r (run_receive i ch got r)" "extends r (run_update r ch uploaded)"
  by (auto simp: extends_def run_join_def run_disconnect_def run_leave_def run_receive_def run_update_def
      split: prod.split outcome.split)

lemma prefix_drop: "prefix xs ys \<Longrightarrow> prefix (drop n xs) (drop n ys)"
  by (auto simp: prefix_def)

lemma extends_due:
  "extends r r' \<Longrightarrow> i < length (greeting r) \<Longrightarrow> i < length (joined_at r) \<Longrightarrow> prefix (due r i) (due r' i)"
  by (auto simp: extends_def due_def prefix_def nth_append)

definition runs_extend :: "('q, 'm, 'e) server \<Rightarrow> ('q, 'm, 'e) server \<Rightarrow> bool" where
  "runs_extend s s' \<longleftrightarrow>
    length (channel_runs s) \<le> length (channel_runs s') \<and>
    (\<forall>a < length (channel_runs s). extends (channel_runs s ! a) (channel_runs s' ! a))"

lemma runs_extend_refl [simp]: "runs_extend s s"
  by (simp add: runs_extend_def)

lemma runs_extend_trans: "runs_extend s s' \<Longrightarrow> runs_extend s' s'' \<Longrightarrow> runs_extend s s''"
  by (auto simp: runs_extend_def intro: extends_trans)

lemma runs_extend_update:
  assumes "channel_runs s' = (channel_runs s)[a := r']" "extends (channel_runs s ! a) r'"
  shows "runs_extend s s'"
proof -
  have "extends (channel_runs s ! b) (channel_runs s' ! b)" if "b < length (channel_runs s)" for b
    using that assms by (cases "a = b") simp_all
  with assms(1) show ?thesis by (simp add: runs_extend_def)
qed

lemma runs_extend_close_upload: "runs_extend s (close_upload j s)"
  unfolding close_upload_def Let_def by (rule runs_extend_update, simp, simp)

lemma runs_extend_close_viewing: "runs_extend s (close_viewing M j s)"
  unfolding close_viewing_def Let_def by (rule runs_extend_update, simp, simp)

lemma runs_extend_request:
  fixes s :: "('q, 'm, 'e) server"
  shows "runs_extend s (fst (routes M W req s))"
proof (rule routes_invariant [where P = "runs_extend s"])
  fix t t' :: "('q, 'm, 'e) server" and nm a b
  assume t: "runs_extend s t" "channel_of W nm t = (t', a)"
  have "runs_extend t t'"
    using t(2) by (auto simp: channel_of_def runs_extend_def Let_def nth_append split: prod.splits)
  moreover have "runs_extend t' (fst (get_handler M a nm t'))"
    by (rule runs_extend_update [where r' = "fst (run_join M (channel_runs t' ! a))"])
      (auto simp: get_handler_def split: prod.split outcome.split)
  moreover have "runs_extend t' (fst (post_handler b a nm t'))"
    by (simp add: post_handler_def runs_extend_def)
  ultimately show "runs_extend s t' \<and> runs_extend s (fst (get_handler M a nm t')) \<and>
      runs_extend s (fst (post_handler b a nm t'))"
    using t(1) runs_extend_trans by blast
qed simp

lemma runs_extend_poll: "runs_extend s (poll_upload E M j s)"
proof -
  let ?u = "uploads s ! j"
  let ?r = "channel_runs s ! up_channel ?u"
  obtain c ch polled where poll: "post_poll E WarpError M (up_chunker ?u, chan ?r) = ((c, ch), polled)"
    by (metis prod.collapse)
  let ?s = "s\<lparr>uploads := (uploads s)[j := ?u\<lparr>up_chunker := c\<rparr>],
    channel_runs := (channel_runs s)[up_channel ?u := run_update ?r ch (sent_by E WarpError (up_chunker ?u))]\<rparr>"
  have "runs_extend s ?s" by (rule runs_extend_update, simp, simp)
  then show ?thesis
    using runs_extend_close_upload [of ?s j] runs_extend_trans by (auto simp: poll_upload_def Let_def poll)
qed

lemma runs_extend_turn: "runs_extend s (turn_viewing E M j s)"
proof -
  let ?v = "viewings s ! j"
  let ?r = "channel_runs s ! view_channel ?v"
  obtain w ch y where turn: "viewer_turn E M (view_state ?v) (chan ?r) = (w, ch, y)"
    by (metis prod.collapse)
  let ?s = "s\<lparr>viewings := (viewings s)[j := ?v\<lparr>view_state := w, view_out := view_out ?v @ yielded y\<rparr>],
    channel_runs := (channel_runs s)[view_channel ?v :=
      run_receive (tuned (view_state ?v)) ch (taken M (view_state ?v) (chan ?r)) ?r]\<rparr>"
  have "runs_extend s ?s" by (rule runs_extend_update, simp, simp)
  then show ?thesis
    using runs_extend_close_viewing [of ?s M j] runs_extend_trans by (auto simp: turn_viewing_def Let_def turn)
qed

lemma runs_extend_perform: "runs_extend s (perform E M W act s)"
  by (cases act) (simp_all add: runs_extend_request runs_extend_poll runs_extend_turn
      runs_extend_close_upload runs_extend_close_viewing)

lemma runs_extend_actions: "runs_extend s (run_actions E M W acts s)"
  by (induction acts arbitrary: s) (auto intro: runs_extend_trans runs_extend_perform)

text \<open>A stream that does not fail has no beginning that does.\<close>

lemma process_all_prefix:
  "process_all E f (cs @ ds) = (Ok fixed :: (unit, _) outcome) \<Longrightarrow>
    \<exists>fixed. process_all E f cs = (Ok fixed :: (unit, _) outcome)"
  by (induction cs arbitrary: f fixed) (fastforce simp: and_then_Ok_iff)+

lemma get_stream_prefix: "get_stream E (cs @ ds) = Ok out \<Longrightarrow> \<exists>out. get_stream E cs = Ok out"
  using get_stream_Ok_iff process_all_prefix by metis

section \<open>Viewers that keep up\<close>

definition registered :: "nat \<Rightarrow> ('q, 'm, 'e) server \<Rightarrow> bool" where
  "registered k s \<longleftrightarrow>
    (let v = viewings s ! k in
     tuned (view_state v) \<in> set (listeners (chan (channel_runs s ! view_channel v))))"

definition viewing_due :: "nat \<Rightarrow> ('q, 'm, 'e) server \<Rightarrow> chunk list" where
  "viewing_due k s =
    (let v = viewings s ! k in due (channel_runs s ! view_channel v) (tuned (view_state v)))"

text \<open>A viewing in service: connected, and its listener is on the list of its channel.\<close>

definition in_service :: "nat \<Rightarrow> ('q, 'm, 'e) server \<Rightarrow> bool" where
  "in_service k s \<longleftrightarrow> k < length (viewings s) \<and> view_open (viewings s ! k) \<and> registered k s"

context relay
begin

lemma due_grows:
  assumes "serving E M W s" "feasible E M W acts s"
    and "a < length (channel_runs s)" "i < length (received (channel_runs s ! a))"
  shows "prefix (due (channel_runs s ! a) i) (due (channel_runs (run_actions E M W acts s) ! a) i)"
proof -
  have "run_ok (channel_runs s ! a)"
    using server_okD(1) [OF serving_ok [OF assms(1)] assms(3)] by (rule reachable_ok)
  with runs_extend_actions [of s E M W acts] assms(3,4) show ?thesis
    by (intro extends_due) (auto simp: runs_extend_def run_ok_def)
qed

lemma viewing_clean_due: "viewing_clean E k s \<longleftrightarrow> (\<exists>out. get_stream E (viewing_due k s) = Ok out)"
  by (simp add: viewing_clean_def viewing_due_def Let_def)

text \<open>After a step, with more chunks due and so many turns owed.\<close>

definition serves_on :: "nat \<Rightarrow> ('q, 'm, 'e) server \<Rightarrow> ('q, 'm, 'e) server \<Rightarrow> chunk list \<Rightarrow> nat \<Rightarrow> bool" where
  "serves_on k s s' new w \<longleftrightarrow>
    in_service k s' \<and> tuned_in (viewings s' ! k) = tuned_in (viewings s ! k) \<and>
    viewing_due k s' = viewing_due k s @ new \<and> viewing_waiting queued k s' \<le> w"

lemma view_kept_serves:
  assumes "in_service k s" "view_kept k s s'" "viewing_waiting queued k s \<le> w"
  shows "serves_on k s s' [] w"
  using assms
  by (auto simp: serves_on_def in_service_def view_kept_def registered_def viewing_due_def viewing_waiting_def
      waiting_def listener_kept_def Let_def)

lemma serves_on_kept:
  assumes "serves_on k s s' new w" "view_kept k s' s''"
  shows "serves_on k s s'' new w"
  using assms view_kept_serves [OF _ assms(2)] by (auto simp: serves_on_def)

lemma same_service_serves:
  assumes "in_service k s" "same_service k s s'" "viewing_waiting queued k s' \<le> w"
  shows "serves_on k s s' [] w"
  using assms
  by (auto simp: serves_on_def in_service_def same_service_def registered_def viewing_due_def tuned_in_def Let_def)

text \<open>A send reaches a registered listener whose queue is not full.\<close>

lemma send_serves:
  assumes r: "reachable M r" "i < length (received r)" "i \<notin> left r" "i \<in> set (listeners (chan r))"
    and room: "length (queued (queues (chan r) ! i)) < 6"
    and send: "transmitter_send M c (chan r) = (ch, x)"
  shows "i \<in> set (listeners ch)" "queued (queues ch ! i) = queued (queues (chan r) ! i) @ [c]"
    "due (run_update r ch [c]) i = due r i @ [c]"
proof -
  have ok: "run_ok r" using r(1) by (rule reachable_ok)
  then have i: "i < length (queues (chan r))" and lok: "listener_ok r i"
    using r(2) by (auto simp: run_ok_def)
  then have "accepts (queues (chan r) ! i)"
    using room r(3) by (simp add: accepts_def listener_ok_def Let_def)
  then show "i \<in> set (listeners ch)"
    using reachable_send(2) [OF r(1) send] r(4) by simp
  then show "queued (queues ch ! i) = queued (queues (chan r) ! i) @ [c]"
    using reachable_send(3) [OF r(1) send i] by simp
  show "due (run_update r ch [c]) i = due r i @ [c]"
    using lok by (simp add: due_def run_update_def listener_ok_def Let_def)
qed

lemma few_waiting:
  assumes "viewing_waiting queued k s < 24"
  shows "length (queued (queues (chan (channel_runs s ! view_channel (viewings s ! k))) !
    tuned (view_state (viewings s ! k)))) < 6"
  using assms by (simp add: viewing_waiting_def waiting_def Let_def)

text \<open>A poll of an upload, to the channel of the viewer or to another.\<close>

lemma poll_upload_serves:
  fixes s :: "('q, 'm, 'e) server"
  assumes ok: "server_ok E s" and k: "in_service k s" and j: "j < length (uploads s)"
    and w: "viewing_waiting queued k s \<le> w"
    and room: "up_channel (uploads s ! j) = view_channel (viewings s ! k) \<Longrightarrow> w < 24"
  shows "\<exists>new. serves_on k s (poll_upload E' M j s) new
    (if up_channel (uploads s ! j) = view_channel (viewings s ! k) then w + 4 else w)"
proof -
  let ?u = "uploads s ! j" and ?v = "viewings s ! k"
  let ?a = "up_channel ?u" and ?i = "tuned (view_state ?v)"
  let ?r = "channel_runs s ! ?a"
  let ?new = "sent_by E' WarpError (up_chunker ?u)"
  let ?w = "if ?a = view_channel ?v then w + 4 else w"
  obtain c ch polled where poll: "post_poll E' WarpError M (up_chunker ?u, chan ?r) = ((c, ch), polled)"
    by (metis prod.collapse)
  let ?s = "s\<lparr>uploads := (uploads s)[j := ?u\<lparr>up_chunker := c\<rparr>],
    channel_runs := (channel_runs s)[?a := run_update ?r ch ?new]\<rparr>"
  have k_less: "k < length (viewings s)" using k by (simp add: in_service_def)
  note vD = viewing_okD [OF server_okD(4) [OF ok nth_mem [OF k_less]]]
  have "\<exists>new. serves_on k s ?s new ?w"
  proof (cases "?a = view_channel ?v \<and> ?new \<noteq> []")
    case False
    have "view_kept k s ?s"
    proof (rule view_kept_update [where b = ?a and r' = "run_update ?r ch ?new"])
      assume "view_channel ?v = ?a"
      with False have "?new = []" by simp
      moreover from this have "ch = chan ?r"
        using poll by (auto simp: post_poll_def sent_by_def
            split: prod.splits poll.splits option.splits outcome.splits)
      ultimately show "listener_kept ?i ?r (run_update ?r ch ?new)" by simp
    qed (use k_less in simp_all)
    from view_kept_serves [OF k this, of ?w] w show ?thesis by auto
  next
    case True
    then have a: "?a = view_channel ?v" by blast
    obtain c1 d where nxt: "poll_next E' WarpError (up_chunker ?u) = (c1, Ready (Some (Ok d)))" "?new = [d]"
      using True by (auto simp: sent_by_def split: prod.splits poll.splits option.splits outcome.splits)
    obtain x where send: "transmitter_send M d (chan ?r) = (ch, x)"
      using poll nxt by (cases "transmitter_send M d (chan ?r)") (auto simp: post_poll_def split: outcome.splits)
    have len: "length (queued (queues (chan ?r) ! ?i)) < 6"
      using few_waiting [of k s] room [OF a] w by (simp add: a)
    have reach: "reachable M ?r" using server_okD(1) [OF ok] vD(1) by (simp add: a)
    have "view_open ?v" "?i \<in> set (listeners (chan ?r))"
      using k by (simp_all add: in_service_def registered_def Let_def a)
    note served = send_serves [OF reach vD(2) [folded a] vD(3) [OF this(1), folded a] this(2) len send]
    have "viewing_due k ?s = viewing_due k s @ [d]" "registered k ?s"
      "viewing_waiting queued k ?s = viewing_waiting queued k s + 4"
      using served vD(1) nxt(2)
      by (simp_all add: viewing_due_def registered_def viewing_waiting_def waiting_def Let_def a run_update_def)
    then show ?thesis
      using k w a by (intro exI [of _ "[d]"]) (simp add: serves_on_def in_service_def)
  qed
  then obtain new where new: "serves_on k s ?s new ?w" by blast
  moreover from new have "serves_on k s (close_upload j ?s) new ?w"
    by (rule serves_on_kept) (use k_less in \<open>simp add: view_kept_close_upload\<close>)
  ultimately show ?thesis
    by (auto simp: poll_upload_def Let_def poll)
qed

text \<open>Any action but the viewer's own end.\<close>

lemma action_serves:
  fixes s :: "('q, 'm, 'e) server"
  assumes s: "serving E M W s" "in_service k s" "enabled act s" "act \<noteq> CloseViewing k"
    and clean: "act = TurnViewing k \<Longrightarrow> viewing_clean E k s"
    and w: "viewing_waiting queued k s \<le> w"
    and room: "sends_to (view_channel (viewings s ! k)) act s \<Longrightarrow> w < 24"
  shows "\<exists>new. serves_on k s (perform E M W act s) new
    (if sends_to (view_channel (viewings s ! k)) act s then w + 4
     else case act of TurnViewing j \<Rightarrow> if j = k then w - 1 else w | _ \<Rightarrow> w)"
proof -
  note ok = serving_ok [OF s(1)]
  have k: "k < length (viewings s)" "view_open (viewings s ! k)"
    using s(2) by (simp_all add: in_service_def)
  have kept: "\<exists>new. serves_on k s s' new w" if "view_kept k s s'" for s'
    using view_kept_serves [OF s(2) that w] by blast
  show ?thesis
  proof (cases act)
    case (Request req)
    then show ?thesis using kept [OF view_kept_request [OF ok k(1)]] by simp
  next
    case (PollUpload j)
    then show ?thesis
      using poll_upload_serves [OF ok s(2) _ w, of j E] s(3) room by (simp split: if_split_asm)
  next
    case (CloseUpload j)
    then show ?thesis using kept [OF view_kept_close_upload [OF k(1)]] by simp
  next
    case (TurnViewing j)
    show ?thesis
    proof (cases "j = k")
      case True
      with TurnViewing have clean_k: "viewing_clean E k s" using clean by simp
      note t = turn_viewing_progress [OF s(1) k clean_k]
      have "viewing_waiting queued k (turn_viewing E M k s) \<le> w - 1"
        using t(3,4) w by (cases "viewing_waiting queued k s = 0") simp_all
      with same_service_serves [OF s(2) t(2)] TurnViewing True show ?thesis by auto
    next
      case False
      with TurnViewing show ?thesis
        using kept [OF view_kept_turn [OF ok _ k(1) False]] s(3) by simp
    qed
  next
    case (CloseViewing j)
    with s(3,4) show ?thesis using kept [OF view_kept_close_viewing [OF ok _ k(1)]] by auto
  qed
qed

text \<open>A schedule, if the stream of what is due at its end does not fail.\<close>

lemma serves_on_trans:
  "serves_on k s s' new w \<Longrightarrow> serves_on k s' s'' new' w' \<Longrightarrow> serves_on k s s'' (new @ new') w'"
  by (simp add: serves_on_def)

lemma schedule_serves:
  fixes s :: "('q, 'm, 'e) server"
  assumes "serving E M W s" "in_service k s" "feasible E M W acts s" "CloseViewing k \<notin> set acts"
    and "viewing_waiting queued k s \<le> w" "load E M W k w acts s = Some w'"
    and "a = view_channel (viewings s ! k)" "i = tuned (view_state (viewings s ! k))"
    and "get_stream E (due (channel_runs (run_actions E M W acts s) ! a) i) = Ok out"
  shows "\<exists>new. serves_on k s (run_actions E M W acts s) new w'"
  using assms
proof (induction acts arbitrary: s w)
  case Nil
  then show ?case
    using view_kept_serves [OF Nil.prems(2) view_kept_refl Nil.prems(5)] by (auto simp: in_service_def)
next
  case (Cons act acts)
  let ?s = "perform E M W act s"
  let ?sends = "sends_to (view_channel (viewings s ! k)) act s"
  let ?w = "if ?sends then w + 4 else case act of TurnViewing j \<Rightarrow> if j = k then w - 1 else w | _ \<Rightarrow> w"
  have act: "enabled act s" "feasible E M W acts ?s" "act \<noteq> CloseViewing k" "CloseViewing k \<notin> set acts"
    using Cons.prems(3,4) by auto
  have load: "?sends \<Longrightarrow> w < 24" "load E M W k ?w acts ?s = Some w'"
    using Cons.prems(6) by (auto simp: Let_def split: if_splits)
  have k: "k < length (viewings s)" using Cons.prems(2) by (simp add: in_service_def)
  note vD = viewing_okD [OF server_okD(4) [OF serving_ok [OF Cons.prems(1)] nth_mem [OF k]]]
  have "prefix (viewing_due k s) (due (channel_runs (run_actions E M W (act # acts) s) ! a) i)"
    using due_grows [OF Cons.prems(1,3)] vD(1,2) Cons.prems(7,8) by (simp add: viewing_due_def Let_def)
  then have clean: "viewing_clean E k s"
    using get_stream_prefix Cons.prems(9) by (auto simp: viewing_clean_due prefix_def)
  obtain new where new: "serves_on k s ?s new ?w"
    using action_serves [OF Cons.prems(1,2) act(1,3) clean Cons.prems(5) load(1)] by blast
  then have s': "in_service k ?s" "viewing_waiting queued k ?s \<le> ?w"
    "a = view_channel (viewings ?s ! k)" "i = tuned (view_state (viewings ?s ! k))"
    using Cons.prems(7,8) by (auto simp: serves_on_def tuned_in_def)
  from Cons.IH [OF serving_perform [OF Cons.prems(1) act(1)] s'(1) act(2,4) s'(2) load(2) s'(3,4)] Cons.prems(9)
  obtain new' where "serves_on k ?s (run_actions E M W acts ?s) new' w'" by auto
  with new show ?case using serves_on_trans by fastforce
qed

end

section \<open>Uploads on their own channel\<close>

text \<open>An upload that is at its end stays there.\<close>

lemma poll_event_again: "poll_event F cv p = (p', Ready None) \<Longrightarrow> poll_event F cv p' = (p', Ready None)"
proof (induction F cv p arbitrary: p' rule: poll_event.induct)
  case (1 F cv p)
  have space: "check_space F (buffer p) = Ok None" "\<not> limit_reached p"
    using "1.prems" by (subst (asm) poll_event.simps; auto split: outcome.splits option.splits if_splits prod.splits)+
  show ?case
  proof (cases "stream p" rule: poll_source_cases)
    case (data d s')
    with space "1.prems" have "poll_event F cv (p\<lparr>stream := s', buffer := buffer p @ d\<rparr>) = (p', Ready None)"
      by (simp add: poll_event.simps [of F cv p])
    with "1.IH" space data show ?thesis by auto
  qed (use space "1.prems" in \<open>auto simp: poll_event.simps [of F cv p] poll_event.simps [of F cv "p\<lparr>stream := []\<rparr>"]\<close>)
qed

lemma flush_turn_returns: "flush_turn E h b \<noteq> Continue st"
  by (simp add: flush_turn_def liberate_def split: outcome.split)

lemma all_chunks_finished:
  fixes cv :: "'e \<Rightarrow> 'x webmetro_error"
  assumes "poll_next E cv c = (c', Ready None)"
  shows "all_chunks E cv c' = ([], Ok ())"
  using assms
proof (induction c rule: poll_next_induct [where E = E and cv = cv])
  case (finished c)
  then show ?case by (simp add: poll_next_End all_chunks_End)
next
  case (element c s el)
  then show ?case
    by (cases "element_turn E (chunk_size_limit c) (chunk_state c) el :: 'x turn")
      (auto simp: poll_next_element)
next
  case (failed c s r)
  then show ?case by (cases r) (auto simp: poll_next_other)
next
  case (pending c s)
  then show ?case by (simp add: poll_next_other)
next
  case (ended c s)
  then obtain buf where "chunk_state c = BuildingHeader buf" "c' = c\<lparr>source := s\<rparr>"
    by (cases "chunk_state c") (auto simp: poll_next_other flush_turn_returns split: turn.splits)
  then have "poll_next E cv c' = (c', Ready None)"
    using poll_next_other(4) [of E cv c' s "Ready None" buf] poll_event_again [OF ended(2)] by simp
  then show ?case by (subst all_chunks.simps) simp
qed

lemma all_chunks_no_work:
  assumes "work_left c = 0"
  shows "fst (all_chunks E cv c) = []"
proof -
  obtain c' r where nxt: "poll_next E cv c = (c', r)" by (cases "poll_next E cv c")
  with poll_next_work [OF nxt] assms show ?thesis
    by (subst all_chunks.simps) (auto split: poll.split option.split outcome.split)
qed

text \<open>Actions that do not send on a channel, or do not concern an upload.\<close>

lemma sent_update: "sent r' = sent (rs ! b) \<Longrightarrow> sent (rs[b := r'] ! a) = sent (rs ! a)"
  by (cases "a = b"; cases "b < length rs") (simp_all add: list_update_beyond)

lemma sent_close_upload: "sent (channel_runs (close_upload j s) ! a) = sent (channel_runs s ! a)"
  by (simp add: close_upload_def Let_def sent_update)

lemma sent_close_viewing: "sent (channel_runs (close_viewing M j s) ! a) = sent (channel_runs s ! a)"
  by (simp add: close_viewing_def Let_def sent_update)

lemma sent_turn: "sent (channel_runs (turn_viewing E M j s) ! a) = sent (channel_runs s ! a)"
proof -
  let ?v = "viewings s ! j"
  let ?r = "channel_runs s ! view_channel ?v"
  obtain w ch y where turn: "viewer_turn E M (view_state ?v) (chan ?r) = (w, ch, y)"
    by (metis prod.collapse)
  let ?s = "s\<lparr>viewings := (viewings s)[j := ?v\<lparr>view_state := w, view_out := view_out ?v @ yielded y\<rparr>],
    channel_runs := (channel_runs s)[view_channel ?v :=
      run_receive (tuned (view_state ?v)) ch (taken M (view_state ?v) (chan ?r)) ?r]\<rparr>"
  have "sent (channel_runs ?s ! a) = sent (channel_runs s ! a)"
    by (simp add: sent_update)
  then show ?thesis
    by (simp add: turn_viewing_def Let_def turn sent_close_viewing)
qed

lemma sent_request:
  fixes s :: "('q, 'm, 'e) server"
  assumes "a < length (channel_runs s)"
  shows "sent (channel_runs (fst (routes M W req s)) ! a) = sent (channel_runs s ! a)"
proof -
  let ?P = "\<lambda>t. a < length (channel_runs t) \<and> sent (channel_runs t ! a) = sent (channel_runs s ! a)"
  have "?P (fst (routes M W req s))"
  proof (rule routes_invariant [where P = ?P])
    fix t t' :: "('q, 'm, 'e) server" and nm b bdy
    assume t: "?P t" "channel_of W nm t = (t', b)"
    then have t': "?P t'" by (auto simp: channel_of_def Let_def nth_append split: prod.splits)
    have get: "channel_runs (fst (get_handler M b nm t')) =
        (channel_runs t')[b := fst (run_join M (channel_runs t' ! b))]"
      by (auto simp: get_handler_def split: prod.split outcome.split)
    have "sent (channel_runs (fst (get_handler M b nm t')) ! a) = sent (channel_runs t' ! a)"
      unfolding get by (simp add: sent_update)
    with t' get show "?P t' \<and> ?P (fst (get_handler M b nm t')) \<and> ?P (fst (post_handler bdy b nm t'))"
      by (simp add: post_handler_def)
  qed (use assms in simp)
  then show ?thesis by blast
qed

lemma sent_poll_elsewhere:
  assumes "a \<noteq> up_channel (uploads s ! j)"
  shows "sent (channel_runs (poll_upload E M j s) ! a) = sent (channel_runs s ! a)"
  using assms by (auto simp: poll_upload_def Let_def sent_close_upload split: prod.split)

lemma perform_quiet:
  "enabled act s \<Longrightarrow> a < length (channel_runs s) \<Longrightarrow> \<not> sends_to a act s \<Longrightarrow>
    sent (channel_runs (perform E M W act s) ! a) = sent (channel_runs s ! a)"
  by (cases act) (auto simp: sent_request sent_poll_elsewhere sent_close_upload sent_turn sent_close_viewing)

lemma uploads_turn [simp]: "uploads (turn_viewing E M k s) = uploads s"
  by (simp add: turn_viewing_def close_viewing_def Let_def split: prod.split)

lemma uploads_request:
  fixes s :: "('q, 'm, 'e) server"
  shows "prefix (uploads s) (uploads (fst (routes M W req s)))"
proof (rule routes_invariant [where P = "\<lambda>t. prefix (uploads s) (uploads t)"])
  fix t t' :: "('q, 'm, 'e) server" and nm a b
  assume "prefix (uploads s) (uploads t)" "channel_of W nm t = (t', a)"
  then have "prefix (uploads s) (uploads t')"
    by (auto simp: channel_of_def Let_def split: prod.splits)
  then show "prefix (uploads s) (uploads t') \<and> prefix (uploads s) (uploads (fst (get_handler M a nm t'))) \<and>
      prefix (uploads s) (uploads (fst (post_handler b a nm t')))"
    by (auto simp: get_handler_def post_handler_def split: prod.split outcome.split)
qed simp

lemma perform_other_upload:
  assumes "enabled act s" "j < length (uploads s)" "act \<noteq> PollUpload j" "act \<noteq> CloseUpload j"
  shows "j < length (uploads (perform E M W act s)) \<and> uploads (perform E M W act s) ! j = uploads s ! j"
proof (cases act)
  case (Request req)
  with uploads_request [of s M W req] assms(2) show ?thesis by (auto simp: prefix_def nth_append)
qed (use assms in \<open>auto simp: poll_upload_def close_upload_def close_viewing_def Let_def split: prod.split\<close>)

context relay
begin

lemma poll_upload_finished:
  fixes s :: "('q, 'm, 'e) server"
  assumes "j < length (uploads s)" "poll_next E WarpError (up_chunker (uploads s ! j)) = (c', Ready None)"
  shows "j < length (uploads (poll_upload E M j s))"
    "uploads (poll_upload E M j s) ! j = (uploads s ! j)\<lparr>up_chunker := c'\<rparr>"
    "sent (channel_runs (poll_upload E M j s) ! a) = sent (channel_runs s ! a)"
proof -
  let ?u = "uploads s ! j"
  let ?r = "channel_runs s ! up_channel ?u"
  have "poll_upload E M j s =
      s\<lparr>uploads := (uploads s)[j := ?u\<lparr>up_chunker := c'\<rparr>],
        channel_runs := (channel_runs s)[up_channel ?u := ?r]\<rparr>"
    using assms(2) by (simp add: poll_upload_def post_poll_def sent_by_def Let_def)
  with assms(1) show "j < length (uploads (poll_upload E M j s))"
    "uploads (poll_upload E M j s) ! j = ?u\<lparr>up_chunker := c'\<rparr>"
    "sent (channel_runs (poll_upload E M j s) ! a) = sent (channel_runs s ! a)"
    by (simp_all add: list_update_id)
qed

text \<open>
  What such an upload has sent after a schedule, and what it has left: nothing, or less for
  each of its polls.
\<close>

lemma schedule_sends:
  fixes s :: "('q, 'm, 'e) server"
  assumes "serving E M W s" "j < length (uploads s)" "up_open (uploads s ! j)"
    and "a = up_channel (uploads s ! j)" "feasible E M W acts s" "CloseUpload j \<notin> set acts"
    and "sole_sender E M W a j acts s"
    and "snd (all_chunks E WarpError (up_chunker (uploads s ! j))) = Ok ()"
  shows "\<exists>(c' :: 'e chunker) new.
    fst (all_chunks E WarpError (up_chunker (uploads s ! j))) = new @ fst (all_chunks E WarpError c') \<and>
    sent (channel_runs (run_actions E M W acts s) ! a) = sent (channel_runs s ! a) @ new \<and>
    (fst (all_chunks E WarpError c') = [] \<or>
     work_left c' + length (filter ((=) (PollUpload j)) acts) \<le> work_left (up_chunker (uploads s ! j)))"
  using assms
proof (induction acts arbitrary: s)
  case Nil
  then show ?case by (intro exI [of _ "up_chunker (uploads s ! j)"] exI [of _ "[]"]) simp
next
  case (Cons act acts)
  let ?c = "up_chunker (uploads s ! j)" and ?t = "perform E M W act s"
  have act: "enabled act s" "feasible E M W acts ?t" "act \<noteq> CloseUpload j" "CloseUpload j \<notin> set acts"
    "sends_to a act s \<Longrightarrow> act = PollUpload j" "sole_sender E M W a j acts ?t"
    using Cons.prems(5-7) by auto
  have t: "serving E M W ?t" using serving_perform Cons.prems(1) act(1) .
  have "upload_ok s (uploads s ! j)"
    using server_okD(3) [OF serving_ok [OF Cons.prems(1)]] Cons.prems(2) by simp
  then have a: "a < length (channel_runs s)" by (simp add: upload_ok_def Cons.prems(4))
  show ?case
  proof (cases "act = PollUpload j")
    case False
    note same = perform_other_upload [OF act(1) Cons.prems(2) False act(3), of E M W]
    have "sent (channel_runs ?t ! a) = sent (channel_runs s ! a)"
      using act(5) False by (intro perform_quiet [OF act(1) a]) blast
    with Cons.IH [OF t _ _ _ act(2,4,6)] same Cons.prems(3,4,8) False show ?thesis by auto
  next
    case True
    obtain c1 x where nxt: "poll_next E WarpError ?c = (c1, x)" by (cases "poll_next E WarpError ?c")
    have either: "(x = Pending \<or> (\<exists>ch. x = Ready (Some (Ok ch)))) \<or> x = Ready None"
      using Cons.prems(8) nxt by (subst (asm) all_chunks.simps)
        (auto split: poll.splits option.splits outcome.splits prod.splits)
    show ?thesis
    proof (cases "x = Ready None")
      case ended: True
      note step = poll_upload_finished [OF Cons.prems(2) nxt [unfolded ended]]
      have c1: "all_chunks E WarpError c1 = ([], Ok ())"
        by (rule all_chunks_finished [OF nxt [unfolded ended]])
      have c: "fst (all_chunks E WarpError ?c) = []"
        by (subst all_chunks.simps) (simp add: nxt ended)
      from Cons.IH [OF t _ _ _ act(2,4,6)] step True Cons.prems(3,4) c1 c show ?thesis by auto
    next
      case False
      with either have productive: "x = Pending \<or> (\<exists>ch. x = Ready (Some (Ok ch)))" by blast
      note step = poll_upload_step [OF Cons.prems(1-4) nxt productive]
      let ?new = "case x of Ready (Some (Ok ch)) \<Rightarrow> [ch] | _ \<Rightarrow> []"
      have chunks: "all_chunks E WarpError ?c = (?new @ fst (all_chunks E WarpError c1), snd (all_chunks E WarpError c1))"
        using productive by (subst all_chunks.simps) (auto simp: nxt split: prod.split)
      with Cons.prems(8) have c1: "snd (all_chunks E WarpError c1) = Ok ()" by simp
      have "work_left c1 < work_left ?c" using poll_next_work [OF nxt productive] .
      moreover from Cons.IH [OF t _ _ _ act(2,4,6)] step True Cons.prems(3,4) c1 obtain c' :: "'e chunker" and new where
        "fst (all_chunks E WarpError c1) = new @ fst (all_chunks E WarpError c')"
        "sent (channel_runs (run_actions E M W acts ?t) ! a) = sent (channel_runs ?t ! a) @ new"
        "fst (all_chunks E WarpError c') = [] \<or>
          work_left c' + length (filter ((=) (PollUpload j)) acts) \<le> work_left c1"
        by auto
      ultimately show ?thesis
        using True step(4) chunks by (intro exI [of _ c'] exI [of _ "?new @ new"]) auto
    qed
  qed
qed

end

end
