(* ===== verification/Relay_Service.thy ===== *)
theory Relay_Service
  imports Relay_Delivery
begin

text \<open>
  The relay from end to end: the groups an upload is made of arrive at a viewer that keeps
  up, from the first starting point on, and read back as their events.
\<close>

section \<open>Where a viewer starts\<close>

text \<open>The groups a new viewer gets: the first header, and the clusters from a keyframe on.\<close>

fun from_start :: "bool \<Rightarrow> bool \<Rightarrow> group list \<Rightarrow> group list" where
  "from_start gh gk [] = []"
| "from_start gh gk (ClusterGroup els # gs) =
    (if list_ex keyframe_block els \<or> gk then ClusterGroup els # from_start gh True gs
     else from_start gh gk gs)"
| "from_start gh gk (HeaderGroup els # gs) =
    (if gh then from_start gh False gs else HeaderGroup els # from_start True gk gs)"

lemma from_start_subset: "g \<in> set (from_start gh gk gs) \<Longrightarrow> g \<in> set gs"
  by (induction gh gk gs rule: from_start.induct) (auto split: if_splits)

lemma gate_realize:
  "gate gh gk (map Ok (map realize gs) :: unit item list) = map Ok (map realize (from_start gh gk gs))"
  by (induction gh gk gs rule: from_start.induct) (simp_all add: group_head_def)

lemma concat_pieces: "concat (pieces cs) = chunks_bytes cs"
  by (simp add: pieces_def chunks_bytes_def)

context big_endian
begin

lemma get_stream_groups:
  assumes "in_order 0 (cluster_heads (map realize gs))"
  shows "get_stream E (map realize gs) = Ok (pieces (map realize (from_start False False gs)))"
proof -
  have "process_all E fixer_new (map realize gs) = (Ok (map realize gs) :: (unit, _) outcome)"
    using assms realize_head_bytes [of _ gs] by (intro process_all_idle) (simp_all add: fixer_new_def)
  moreover have "finder_items (find_starting_point
      (map (\<lambda>c. Ready (Some (Ok c))) (map realize gs) :: unit chunk_script)) =
      map Ok (map realize (from_start False False gs))"
    unfolding finder_items_gate by (simp add: find_starting_point_def gate_realize del: map_map)
  ultimately show ?thesis
    by (simp only: get_stream_def and_then.simps Let_def pieces_found)
qed

lemma viewer_reads_back:
  assumes "groups (InHeader []) els = (gs, b)" "well_timed els"
  shows "whole_events (webm_from_ebml E)
      (concat (pieces (map realize (from_start False False (gs @ last_group b))))) =
    (concat (map group_events (from_start False False (gs @ last_group b))), Ok ())"
proof -
  have "well_timed (group_elements g)" if "g \<in> set (from_start False False (gs @ last_group b))" for g
    using groups_well_timed [OF assms(1) _ assms(2) from_start_subset [OF that]] by (simp add: well_timed_def)
  then show ?thesis by (simp only: concat_pieces groups_read_back)
qed

end

section \<open>Delivery\<close>

context relay
begin

text \<open>A viewer that keeps up is still registered, and gets all it is due in the turns it owes.\<close>

lemma keeping_up_served:
  fixes s :: "('q, 'm, 'e) server"
  assumes s: "serving E M W s" "feasible E M W acts s" "s' = run_actions E M W acts s"
    and viewer: "in_service k s" "view_channel (viewings s ! k) = a" "tuned (view_state (viewings s ! k)) = i"
      "CloseViewing k \<notin> set acts" "viewing_waiting queued k s \<le> w" "load E M W k w acts s = Some w'"
    and stream: "get_stream E (due (channel_runs s' ! a) i) = Ok out"
  shows "in_service k s'" "view_channel (viewings s' ! k) = a" "tuned (view_state (viewings s' ! k)) = i"
    "prefix (due (channel_runs s ! a) i) (due (channel_runs s' ! a) i)"
    "\<exists>n \<le> w'. view_out (viewings ((turn_viewing E M k ^^ n) s') ! k) = out"
proof -
  obtain new where "serves_on k s s' new w'"
    using schedule_serves [OF s(1) viewer(1) s(2) viewer(4-6) viewer(2) [symmetric] viewer(3) [symmetric]] stream
    unfolding s(3) by blast
  then have on: "in_service k s'" "view_channel (viewings s' ! k) = a" "tuned (view_state (viewings s' ! k)) = i"
    "viewing_due k s' = viewing_due k s @ new" "viewing_waiting queued k s' \<le> w'"
    using viewer(2,3) by (auto simp: serves_on_def tuned_in_def)
  then show "in_service k s'" "view_channel (viewings s' ! k) = a" "tuned (view_state (viewings s' ! k)) = i"
    "prefix (due (channel_runs s ! a) i) (due (channel_runs s' ! a) i)"
    using viewer(2,3) by (simp_all add: viewing_due_def Let_def prefix_def)
  have view: "k < length (viewings s')" "view_open (viewings s' ! k)"
    "tuned (view_state (viewings s' ! k)) \<in> set (listeners (chan (channel_runs s' ! view_channel (viewings s' ! k))))"
    using on(1) by (simp_all add: in_service_def registered_def Let_def)
  have "viewing_clean E k s'" using stream on(2,3) by (simp add: viewing_clean_def Let_def)
  with viewing_served [OF serving_run_actions [OF s(1,2), folded s(3)] view(1,2) _ refl refl view(3)]
  obtain n where n: "n \<le> viewing_waiting queued k s'"
    "Ok out = (Ok (view_out (viewings ((turn_viewing E M k ^^ n) s') ! k)) :: (unit, _) outcome)"
    using stream on(2,3) by metis
  with on(5) show "\<exists>n \<le> w'. view_out (viewings ((turn_viewing E M k ^^ n) s') ! k) = out"
    by (auto intro: exI [of _ n])
qed

lemma relay_delivers:
  fixes s :: "('q, 'm, 'e) server"
  assumes E: "big_endian E" and s: "serving E M W s" "feasible E M W acts s"
    and upload: "j < length (uploads s)" "up_open (uploads s ! j)" "up_chunker (uploads s ! j) = relay_chunker body"
      "a = up_channel (uploads s ! j)"
    and alone: "sole_sender E M W a j acts s" "CloseUpload j \<notin> set acts"
    and polled: "work_left (relay_chunker body) \<le> length (filter ((=) (PollUpload j)) acts)"
    and body: "\<And>e. SourceErr e \<notin> set body" "whole_events (webm_from_ebml E) (source_bytes body) = (els, Ok ())"
      "well_timed els" "length (written_bytes els) < 2 ^ 64" "groups (InHeader []) els = (gs, b)"
      "all_patient (webm_from_ebml E) BUFFER_LIMIT (source_bytes body)"
      "below_limit BUFFER_LIMIT (InHeader []) els"
    and viewer: "in_service k s" "view_channel (viewings s ! k) = a" "i = tuned (view_state (viewings s ! k))"
      "CloseViewing k \<notin> set acts" "viewing_waiting queued k s \<le> w" "load E M W k w acts s = Some w'"
    and stream: "get_stream E (due (channel_runs s ! a) i @ map realize (gs @ last_group b)) = Ok out"
  shows "\<exists>n \<le> w'. view_out (viewings ((turn_viewing E M k ^^ n) (run_actions E M W acts s)) ! k) = out"
proof -
  let ?c = "relay_chunker body :: 'e chunker" and ?s = "run_actions E M W acts s"
  let ?r = "channel_runs s ! a" and ?r' = "channel_runs (run_actions E M W acts s) ! a"
  have chunks: "all_chunks E WarpError ?c = (map realize (gs @ last_group b), Ok ())"
    using big_endian.relay_chunks [OF E body(1-4,6,7), where cv = WarpError] body(5) by simp
  obtain c' :: "'e chunker" and new where sends: "map realize (gs @ last_group b) = new @ fst (all_chunks E WarpError c')"
    "sent ?r' = sent ?r @ new" "fst (all_chunks E WarpError c') = [] \<or>
      work_left c' + length (filter ((=) (PollUpload j)) acts) \<le> work_left ?c"
    using schedule_sends [OF s(1) upload(1,2,4) s(2) alone(2,1)] chunks upload(3) by auto
  have "fst (all_chunks E WarpError c') = []"
    using sends(3) polled all_chunks_no_work [of c' E WarpError] by fastforce
  with sends have sent: "sent ?r' = sent ?r @ map realize (gs @ last_group b)" by simp
  have k: "k < length (viewings s)" using viewer(1) by (simp add: in_service_def)
  note vD = viewing_okD [OF server_okD(4) [OF serving_ok [OF s(1)] nth_mem [OF k]], unfolded viewer(2)]
  have ok: "run_ok ?r" using server_okD(1) [OF serving_ok [OF s(1)] vD(1)] by (rule reachable_ok)
  then have "listener_ok ?r i" using vD(2) viewer(3) by (auto simp: run_ok_def)
  then have "joined_at ?r ! i \<le> length (sent ?r)" by (simp add: listener_ok_def Let_def)
  moreover have "extends ?r ?r'" "i < length (greeting ?r)" "i < length (joined_at ?r)"
    using runs_extend_actions [of s E M W acts] vD(1,2) viewer(3) ok by (auto simp: runs_extend_def run_ok_def)
  ultimately have due: "due ?r' i = due ?r i @ map realize (gs @ last_group b)"
    using sent by (auto simp: due_def extends_def prefix_def nth_append)
  then have stream': "get_stream E (due ?r' i) = Ok out" using stream by simp
  from keeping_up_served [OF s refl viewer(1,2) viewer(3) [symmetric] viewer(4-6) this]
  show ?thesis by blast
qed

text \<open>A viewer to whom nothing was due before, and clusters in order.\<close>

lemma relay_end_to_end:
  fixes s :: "('q, 'm, 'e) server"
  assumes E: "big_endian E" and s: "serving E M W s" "feasible E M W acts s"
    and upload: "j < length (uploads s)" "up_open (uploads s ! j)" "up_chunker (uploads s ! j) = relay_chunker body"
      "a = up_channel (uploads s ! j)"
    and alone: "sole_sender E M W a j acts s" "CloseUpload j \<notin> set acts"
    and polled: "work_left (relay_chunker body) \<le> length (filter ((=) (PollUpload j)) acts)"
    and body: "\<And>e. SourceErr e \<notin> set body" "whole_events (webm_from_ebml E) (source_bytes body) = (els, Ok ())"
      "well_timed els" "length (written_bytes els) < 2 ^ 64" "groups (InHeader []) els = (gs, b)"
      "all_patient (webm_from_ebml E) BUFFER_LIMIT (source_bytes body)"
      "below_limit BUFFER_LIMIT (InHeader []) els"
      "in_order 0 (cluster_heads (map realize (gs @ last_group b)))"
    and viewer: "in_service k s" "view_channel (viewings s ! k) = a"
      "due (channel_runs s ! a) (tuned (view_state (viewings s ! k))) = []"
      "CloseViewing k \<notin> set acts" "viewing_waiting queued k s \<le> w" "load E M W k w acts s = Some w'"
  shows "\<exists>n \<le> w'. whole_events (webm_from_ebml E)
      (concat (view_out (viewings ((turn_viewing E M k ^^ n) (run_actions E M W acts s)) ! k))) =
    (concat (map group_events (from_start False False (gs @ last_group b))), Ok ())"
proof -
  let ?out = "pieces (map realize (from_start False False (gs @ last_group b)))"
  have "get_stream E (due (channel_runs s ! a) (tuned (view_state (viewings s ! k))) @
      map realize (gs @ last_group b)) = Ok ?out"
    using big_endian.get_stream_groups [OF E body(8)] viewer(3) by simp
  from relay_delivers [OF E s upload alone polled body(1-7) viewer(1,2) refl viewer(4-6) this]
  show ?thesis
    using big_endian.viewer_reads_back [OF E body(5,3)] by metis
qed

end

section \<open>Two tasks\<close>

text \<open>The load of a viewer that takes turns with one upload to its channel.\<close>

fun pair_load :: "nat \<Rightarrow> 'e action list \<Rightarrow> nat option" where
  "pair_load w [] = Some w"
| "pair_load w (PollUpload j # acts) = (if w < 24 then pair_load (w + 4) acts else None)"
| "pair_load w (act # acts) = pair_load (w - 1) acts"

context relay
begin

lemma pair_schedule:
  fixes s :: "('q, 'm, 'e) server"
  assumes "big_endian E" "\<not> overflow_checks E" "serving E M W s"
    and "j < length (uploads s)" "up_open (uploads s ! j)" "a = up_channel (uploads s ! j)"
    and "snd (all_chunks E WarpError (up_chunker (uploads s ! j))) = Ok ()"
    and "k < length (viewings s)" "view_open (viewings s ! k)" "view_channel (viewings s ! k) = a"
    and "set acts \<subseteq> {PollUpload j, TurnViewing k}"
  shows "feasible E M W acts s \<and> sole_sender E M W a j acts s \<and> load E M W k w acts s = pair_load w acts"
  using assms(3-)
proof (induction acts arbitrary: s w)
  case (Cons act acts)
  let ?c = "up_chunker (uploads s ! j)" and ?t = "perform E M W act s"
  from Cons.prems(9) consider "act = PollUpload j" | "act = TurnViewing k" by auto
  then show ?case
  proof cases
    case 1
    obtain c1 x where nxt: "poll_next E WarpError ?c = (c1, x)" by (cases "poll_next E WarpError ?c")
    have either: "(x = Pending \<or> (\<exists>ch. x = Ready (Some (Ok ch)))) \<or> x = Ready None"
      using Cons.prems(5) nxt by (subst (asm) all_chunks.simps)
        (auto split: poll.splits option.splits outcome.splits prod.splits)
    have t: "serving E M W ?t" using Cons.prems(1-3) 1 by (intro serving_perform) simp_all
    have "j < length (uploads ?t) \<and> uploads ?t ! j = (uploads s ! j)\<lparr>up_chunker := c1\<rparr> \<and>
        snd (all_chunks E WarpError c1) = Ok ()"
    proof (cases "x = Ready None")
      case True
      with nxt poll_upload_finished(1,2) [OF Cons.prems(2), of E c1] all_chunks_finished [of E WarpError ?c c1] 1
      show ?thesis by simp
    next
      case False
      with either have productive: "x = Pending \<or> (\<exists>ch. x = Ready (Some (Ok ch)))" by blast
      have "snd (all_chunks E WarpError c1) = snd (all_chunks E WarpError ?c)"
        using productive by (subst (2) all_chunks.simps) (auto simp: nxt split: prod.split)
      with poll_upload_step(2,3) [OF Cons.prems(1-4) nxt productive] Cons.prems(5) 1 show ?thesis by simp
    qed
    with Cons.IH [OF t] Cons.prems 1 show ?thesis by simp
  next
    case 2
    note turn = turn_viewing_progress [OF Cons.prems(1,6,7) viewing_clean_release [OF assms(1,2)]]
    from turn(2) Cons.prems(6-8) have "k < length (viewings (turn_viewing E M k s))"
      "view_open (viewings (turn_viewing E M k s) ! k)" "view_channel (viewings (turn_viewing E M k s) ! k) = a"
      by (auto simp: same_service_def tuned_in_def Let_def)
    with Cons.IH [OF turn(1)] Cons.prems 2 show ?thesis by simp
  qed
qed simp

end

end
