(* ===== verification/Relay_Invariants.thy ===== *)
theory Relay_Invariants
  imports Relay_Schedules
begin

text \<open>
  Invariants of uploads: what every poll of a chunker keeps holds of all uploads of the
  server, and what holds of the chunks it returns holds of all chunks sent, as long as the
  requests obey a condition on their bodies.
\<close>

section \<open>The law\<close>

text \<open>A request whose body satisfies a condition.\<close>

fun obeys :: "('e source \<Rightarrow> bool) \<Rightarrow> 'e action \<Rightarrow> bool" where
  "obeys body_ok (Request req) \<longleftrightarrow> body_ok (req_body req)"
| "obeys body_ok _ \<longleftrightarrow> True"

locale upload_law =
  fixes E :: rt and body_ok :: "'e source \<Rightarrow> bool" and inv :: "'e chunker \<Rightarrow> bool" and good :: "chunk \<Rightarrow> bool"
  assumes fresh: "body_ok b \<Longrightarrow> inv (relay_chunker b)"
    and kept: "poll_next E WarpError c = (c', r) \<Longrightarrow> inv c \<Longrightarrow>
      r = Pending \<or> r = Ready None \<or> (\<exists>ch. r = Ready (Some (Ok ch))) \<Longrightarrow>
      inv c' \<and> (\<forall>ch. r = Ready (Some (Ok ch)) \<longrightarrow> good ch)"
begin

definition uploads_ok :: "('q, 'm, 'e) server \<Rightarrow> bool" where
  "uploads_ok s \<longleftrightarrow>
    (\<forall>u \<in> set (uploads s). up_open u \<longrightarrow> inv (up_chunker u)) \<and>
    (\<forall>r \<in> set (channel_runs s). \<forall>c \<in> set (sent r). good c)"

text \<open>A step that changes one upload and one channel.\<close>

lemma in_list_update: "x \<in> set (xs[i := y]) \<Longrightarrow> x \<in> set xs \<or> x = y \<and> i < length xs"
  by (cases "i < length xs") (use set_update_subset_insert [of xs i y] in \<open>auto simp: list_update_beyond\<close>)

lemma uploads_ok_update:
  assumes "uploads_ok s"
    and "\<And>u. u \<in> set (uploads s') \<Longrightarrow> up_open u \<Longrightarrow>
      u \<in> set (uploads s) \<or> inv (up_chunker u)"
    and "channel_runs s' = (channel_runs s)[a := r']"
    and "\<And>c. a < length (channel_runs s) \<Longrightarrow> c \<in> set (sent r') \<Longrightarrow>
      c \<in> set (sent (channel_runs s ! a)) \<or> good c"
  shows "uploads_ok s'"
proof -
  have "good c" if r: "r \<in> set (channel_runs s')" and c: "c \<in> set (sent r)" for r c
    using in_list_update [OF r [unfolded assms(3)]] assms(1) assms(4) [of c] c
    by (auto simp: uploads_ok_def dest: nth_mem)
  moreover have "inv (up_chunker u)" if "u \<in> set (uploads s')" "up_open u" for u
    using assms(1,2) that by (auto simp: uploads_ok_def)
  ultimately show ?thesis by (simp add: uploads_ok_def)
qed

lemma uploads_ok_routes:
  fixes s :: "('q, 'm, 'e) server"
  assumes "uploads_ok s" "body_ok (req_body req)"
  shows "uploads_ok (fst (routes M W req s))"
proof (rule routes_invariant [where P = uploads_ok])
  show "uploads_ok s" by (rule assms)
next
  fix s s' :: "('q, 'm, 'e) server" and nm a
  assume s: "uploads_ok s" "channel_of W nm s = (s', a)"
  then have s': "uploads_ok s'"
    by (auto simp: uploads_ok_def channel_of_def Let_def split: prod.splits if_splits)
  obtain r x where join: "run_join M (channel_runs s' ! a) = (r, x)" by (cases "run_join M (channel_runs s' ! a)")
  then have r: "sent r = sent (channel_runs s' ! a)" using sent_operations(1) [of M "channel_runs s' ! a"] by simp
  have "uploads_ok (fst (get_handler M a nm s'))"
    by (rule uploads_ok_update [OF s', of _ a r]; cases x) (auto simp: get_handler_def join r)
  moreover have "uploads_ok (fst (post_handler (req_body req) a nm s'))"
    using s' fresh [OF assms(2)] by (auto simp: uploads_ok_def post_handler_def)
  ultimately show "uploads_ok s' \<and> uploads_ok (fst (get_handler M a nm s')) \<and> uploads_ok (fst (post_handler (req_body req) a nm s'))"
    using s' by blast
qed

lemma uploads_ok_close_upload: "uploads_ok s \<Longrightarrow> uploads_ok (close_upload j s)"
  by (rule uploads_ok_update [where a = "up_channel (uploads s ! j)" and
      r' = "run_disconnect (channel_runs s ! up_channel (uploads s ! j))"])
    (auto simp: close_upload_def Let_def dest!: in_list_update)

lemma uploads_ok_close_viewing: "uploads_ok s \<Longrightarrow> uploads_ok (close_viewing M j s)"
  by (rule uploads_ok_update [where a = "view_channel (viewings s ! j)" and
      r' = "run_leave M (tuned (view_state (viewings s ! j))) (channel_runs s ! view_channel (viewings s ! j))"])
    (auto simp: close_viewing_def Let_def)

lemmas uploads_ok_close = uploads_ok_close_upload uploads_ok_close_viewing

lemma uploads_ok_viewing:
  assumes "uploads_ok s"
  shows "uploads_ok (turn_viewing E' M j s)"
proof -
  obtain w ch y where turn: "viewer_turn E' M (view_state (viewings s ! j))
      (chan (channel_runs s ! view_channel (viewings s ! j))) = (w, ch, y)"
    by (metis prod.collapse)
  have "uploads_ok (s\<lparr>viewings := vs, channel_runs := (channel_runs s)[a := run_receive i ch cs (channel_runs s ! a)]\<rparr>)"
    for vs a i cs
    by (rule uploads_ok_update [OF assms]) auto
  then show ?thesis
    by (simp add: turn_viewing_def Let_def turn uploads_ok_close)
qed

lemma post_poll_kept:
  assumes "post_poll E WarpError M (c, ch) = ((c', ch'), r)" "inv c"
  shows "\<not> upload_failed r \<Longrightarrow> inv c'"
    and "d \<in> set (sent_by E WarpError c) \<Longrightarrow> good d"
proof -
  obtain c1 x where nxt: "poll_next E WarpError c = (c1, x)" by (cases "poll_next E WarpError c")
  note ok = kept [OF nxt assms(2)]
  show "inv c'" if "\<not> upload_failed r"
    using assms(1) nxt that ok
    by (auto simp: post_poll_def split: poll.splits option.splits outcome.splits prod.splits)
  show "d \<in> set (sent_by E WarpError c) \<Longrightarrow> good d"
    using nxt ok by (auto simp: sent_by_def split: poll.splits option.splits outcome.splits)
qed

lemma uploads_ok_poll:
  fixes s :: "('q, 'm, 'e) server"
  assumes "uploads_ok s" "j < length (uploads s)" "up_open (uploads s ! j)"
  shows "uploads_ok (poll_upload E M j s)"
proof -
  let ?u = "uploads s ! j"
  let ?a = "up_channel ?u"
  obtain c ch polled where poll:
    "post_poll E WarpError M (up_chunker ?u, chan (channel_runs s ! ?a)) = ((c, ch), polled)"
    by (metis prod.collapse)
  let ?r' = "run_update (channel_runs s ! ?a) ch (sent_by E WarpError (up_chunker ?u))"
  let ?s = "s\<lparr>uploads := (uploads s)[j := ?u\<lparr>up_chunker := c\<rparr>], channel_runs := (channel_runs s)[?a := ?r']\<rparr>"
  have "inv (up_chunker ?u)" using assms by (auto simp: uploads_ok_def)
  note ok = post_poll_kept [OF poll this]
  show ?thesis
  proof (cases "upload_failed polled")
    case False
    then have "uploads_ok ?s"
      using ok by (intro uploads_ok_update [OF assms(1), of _ ?a ?r']) (auto dest: in_list_update)
    with False show ?thesis by (simp add: poll_upload_def Let_def poll)
  next
    case True
    have "uploads_ok (close_upload j ?s)"
    proof (cases "?a < length (channel_runs s)")
      case True
      then show ?thesis
        using ok(2) assms(2)
        by (intro uploads_ok_update [OF assms(1), of _ ?a "run_disconnect ?r'"])
          (auto simp: close_upload_def Let_def dest: in_list_update)
    next
      case False
      then show ?thesis
        using assms
        by (intro uploads_ok_update [OF assms(1), of _ ?a ?r'])
          (auto simp: close_upload_def Let_def list_update_beyond not_less dest: in_list_update)
    qed
    with True show ?thesis by (simp add: poll_upload_def Let_def poll)
  qed
qed

section \<open>Under a schedule\<close>

lemma uploads_ok_perform:
  "uploads_ok s \<Longrightarrow> enabled act s \<Longrightarrow> obeys body_ok act \<Longrightarrow> uploads_ok (perform E M W act s)"
  by (cases act) (simp_all add: uploads_ok_routes uploads_ok_poll uploads_ok_close uploads_ok_viewing)

lemma uploads_ok_start: "uploads_ok (server_start W)"
  by (simp add: uploads_ok_def server_start_def)

lemma uploads_ok_schedule:
  "uploads_ok s \<Longrightarrow> feasible E M W acts s \<Longrightarrow> list_all (obeys body_ok) acts \<Longrightarrow>
    uploads_ok (run_actions E M W acts s)"
  by (induction acts arbitrary: s) (simp_all add: uploads_ok_perform)

text \<open>If every body will do, every reachable state will.\<close>

lemma serving_uploads_ok:
  assumes "serving E M W s" "\<And>b. body_ok b"
  shows "uploads_ok s"
proof -
  obtain acts where "feasible E M W acts (server_start W)" "s = run_actions E M W acts (server_start W)"
    using assms(1) by (auto simp: serving_iff_schedule)
  moreover have "list_all (obeys body_ok) acts"
  proof -
    have "obeys body_ok act" for act by (cases act) (simp_all add: assms(2))
    then show ?thesis by (simp add: list_all_iff)
  qed
  ultimately show ?thesis using uploads_ok_schedule [OF uploads_ok_start] by simp
qed

end

end
