(* ===== verification/Relay_Types.thy ===== *)
theory Relay_Types
  imports Relay_Invariants
begin

text \<open>
  The chunks that pass through the relay are well formed: the bytes of a cluster's head are
  those of its start, and, where arithmetic is checked, it does not end before it starts.
\<close>

section \<open>Uploads\<close>

context big_endian
begin

lemma heads_law:
  "upload_law E (\<lambda>_. True) (\<lambda>c. state_heads_ok E (chunk_state c)) (chunk_head_ok E)"
proof
  show "state_heads_ok E (chunk_state (relay_chunker b))" for b :: "'e source"
    by (simp add: relay_chunker_def chunker_with_soft_limit_def chunk_webm_def)
qed (rule poll_next_heads_ok)

end

interpretation relay_heads:
  upload_law "reference_rt oc" "\<lambda>_. True" "\<lambda>c. state_heads_ok (reference_rt oc) (chunk_state c)"
    "chunk_head_ok (reference_rt oc)"
  for oc
  by (rule reference.heads_law)

section \<open>Viewers\<close>

context big_endian
begin

lemma process_head_ok: "process E f c = Ok (f', c') \<Longrightarrow> chunk_head_ok E c'"
  by (cases c) (auto simp: process_def Let_def and_then_Ok_iff dest: update_head_ok)

lemma adapt_all_heads_ok:
  "adapt_all E s cs = Ok (s', found) \<Longrightarrow> c \<in> set found \<Longrightarrow> chunk_head_ok E c"
proof (induction cs arbitrary: s found)
  case (Cons d cs)
  obtain s1 out out' where step: "adapt E s d = Ok (s1, out)" "adapt_all E s1 cs = Ok (s', out')" "found = out @ out'"
    using Cons.prems(1) by (auto simp: and_then_Ok_iff)
  have "chunk_head_ok E x" if "x \<in> set out" for x
    using step(1) that
    by (cases s) (auto simp: and_then_Ok_iff split_beta dest: process_head_ok split: option.splits)
  with Cons.IH [OF step(2)] Cons.prems(2) step(3) show ?case by auto
qed simp

end

context relay
begin

text \<open>
  What a viewer was sent is the pieces of what its adapters made of the chunks it received,
  and all of these are well formed.
\<close>

lemma viewing_heads_ok:
  assumes "big_endian E" "serving E M W s" "v \<in> set (viewings s)" "view_open v"
  shows "\<exists>found. adapt_all E fresh_adapters (received (channel_runs s ! view_channel v) ! tuned (view_state v)) =
      Ok (adapters_of (view_state v), found) \<and>
    pieces found = view_out v @ unread_pieces (view_state v) \<and> (\<forall>c \<in> set found. chunk_head_ok E c)"
proof -
  note vD = viewing_okD [OF server_okD(4) [OF serving_ok [OF assms(2)] assms(3)]]
  obtain found where found:
    "adapt_all E fresh_adapters (received (channel_runs s ! view_channel v) ! tuned (view_state v)) =
      Ok (adapters_of (view_state v), found)"
    "pieces found = view_out v @ unread_pieces (view_state v)"
    using vD(5) [OF assms(4)] by (auto simp: viewed_def)
  with big_endian.adapt_all_heads_ok [OF assms(1) found(1)] show ?thesis by blast
qed

end

end
