(* ===== verification/Relay_Memory.thy ===== *)
theory Relay_Memory
  imports Relay_Types Within_Limits
begin

text \<open>
  What the relay keeps in memory: the buffers of its uploads, the queues and unread pieces of
  its viewers, and a header for each channel. With pieces of input of at most \<open>m\<close> bytes this is
  bounded by the number of connections, whatever the clients do.
\<close>

section \<open>The bytes that are held\<close>

definition chunk_length :: "chunk \<Rightarrow> nat" where
  "chunk_length c = length (concat (chunk_pieces c))"

text \<open>The buffer of the parser, the element it lends out, and the buffer of the chunker.\<close>

definition upload_bytes :: "'e upload \<Rightarrow> nat" where
  "upload_bytes u =
    (if up_open u
     then length (buffer (source (up_chunker u))) + length (borrowed (source (up_chunker u))) +
          state_length (chunk_state (up_chunker u))
     else 0)"

text \<open>The chunks in the queue of the listener and what is left of the chunk in hand.\<close>

definition viewing_bytes :: "('q \<Rightarrow> chunk list) \<Rightarrow> ('q, 'm, 'e) server \<Rightarrow> viewing \<Rightarrow> nat" where
  "viewing_bytes queued s v =
    (if view_open v
     then sum_list (map chunk_length
            (queued (queues (chan (channel_runs s ! view_channel v)) ! tuned (view_state v)))) +
          length (concat (unread_pieces (view_state v)))
     else 0)"

text \<open>The header for late listeners, as long as the channel is alive.\<close>

definition channel_bytes :: "('q, 'm, 'e) server \<Rightarrow> nat \<Rightarrow> nat" where
  "channel_bytes s a =
    (if has_handle s a then case header_chunk (chan (channel_runs s ! a)) of Some h \<Rightarrow> chunk_length h | None \<Rightarrow> 0
     else 0)"

definition server_bytes :: "('q \<Rightarrow> chunk list) \<Rightarrow> ('q, 'm, 'e) server \<Rightarrow> nat" where
  "server_bytes queued s =
    sum_list (map upload_bytes (uploads s)) + sum_list (map (viewing_bytes queued s) (viewings s)) +
    sum_list (map (channel_bytes s) [0..<length (channel_runs s)])"

definition connections :: "('q, 'm, 'e) server \<Rightarrow> nat" where
  "connections s = length (filter up_open (uploads s)) + length (filter view_open (viewings s))"

text \<open>The condition on requests, and the size of a chunk.\<close>

definition piece_limited :: "nat \<Rightarrow> 'e source \<Rightarrow> bool" where
  "piece_limited m body \<longleftrightarrow> list_all (\<lambda>x. case x of SourceData d \<Rightarrow> length d \<le> m | _ \<Rightarrow> True) body"

definition chunk_bound :: "nat \<Rightarrow> nat" where
  "chunk_bound m = 2 * BUFFER_LIMIT + m + 15"

section \<open>Uploads\<close>

definition chunker_within :: "rt \<Rightarrow> nat \<Rightarrow> 'e chunker \<Rightarrow> bool" where
  "chunker_within E m c \<longleftrightarrow>
    chunk_size_limit c = Some BUFFER_LIMIT \<and> parser_sized BUFFER_LIMIT m (source c) \<and>
    state_sized (2 * BUFFER_LIMIT + m) (chunk_state c) \<and> state_heads_ok E (chunk_state c)"

definition chunk_within :: "rt \<Rightarrow> nat \<Rightarrow> chunk \<Rightarrow> bool" where
  "chunk_within E m ch \<longleftrightarrow> chunk_sized (2 * BUFFER_LIMIT + m) ch \<and> chunk_head_ok E ch"

lemma chunk_within_length: "chunk_within E m ch \<Longrightarrow> chunk_length ch \<le> chunk_bound m"
  by (cases ch) (auto simp: chunk_within_def chunk_length_def chunk_bound_def head_ok_def)

lemma chunker_within_bytes:
  "chunker_within E m (up_chunker u) \<Longrightarrow> upload_bytes u \<le> 3 * chunk_bound m"
  by (cases "chunk_state (up_chunker u)")
    (auto simp: chunker_within_def upload_bytes_def parser_sized_def buffer_sized_def chunk_bound_def)

lemma relay_chunker_within: "piece_limited m b \<Longrightarrow> chunker_within E m (relay_chunker b)"
  by (auto simp: chunker_within_def piece_limited_def list_all_iff parser_sized_def relay_chunker_def
      chunker_with_soft_limit_def chunk_webm_def with_soft_limit_def parse_ebml_def
      dest: bspec split: source_event.splits)

context big_endian
begin

lemma memory_law:
  assumes "m < 2 ^ 60"
  shows "upload_law E (piece_limited m) (chunker_within E m) (chunk_within E m)"
proof
  have max: "BUFFER_LIMIT + max (BUFFER_LIMIT + m) 15 = 2 * BUFFER_LIMIT + m"
    by (simp add: BUFFER_LIMIT_def)
  fix c c' :: "'e chunker" and r
  assume nxt: "poll_next E WarpError c = (c', r)" and c: "chunker_within E m c"
    and r: "r = Pending \<or> r = Ready None \<or> (\<exists>ch. r = Ready (Some (Ok ch)))"
  have "2 * BUFFER_LIMIT + m < 2 ^ 64" using assms by (simp add: BUFFER_LIMIT_def)
  with poll_next_sized [OF nxt, of BUFFER_LIMIT BUFFER_LIMIT m, unfolded max] poll_next_heads_ok [OF nxt _ r] c r
  show "chunker_within E m c' \<and> (\<forall>ch. r = Ready (Some (Ok ch)) \<longrightarrow> chunk_within E m ch)"
    by (auto simp: chunker_within_def chunk_within_def)
qed (rule relay_chunker_within)

end

section \<open>Viewers\<close>

definition unread_within :: "nat \<Rightarrow> viewing \<Rightarrow> bool" where
  "unread_within m v \<longleftrightarrow>
    (view_open v \<longrightarrow> (\<forall>c. unread (view_state v) = Some c \<longrightarrow> chunk_length c \<le> chunk_bound m))"

lemma chunk_next_length: "chunk_next c = (c', p) \<Longrightarrow> chunk_length c' \<le> chunk_length c"
  by (cases c) (auto simp: chunk_length_def)

lemma process_length:
  assumes "big_endian E" "process E f c = Ok (f', c')" "chunk_within E m c"
  shows "chunk_length c' \<le> chunk_bound m"
proof (rule chunk_within_length [of E])
  have "chunk_sized B c \<Longrightarrow> chunk_sized B c'" for B
    using assms(2) by (cases c) (auto simp: process_def Let_def and_then_Ok_iff)
  with assms(3) big_endian.process_head_ok [OF assms(1,2)] show "chunk_within E m c'"
    by (simp add: chunk_within_def)
qed

text \<open>A turn leaves at most what was there or a chunk from the queue.\<close>

lemma viewer_turn_unread:
  assumes "big_endian E" "viewer_turn E M v ch = (v', ch', y)"
    and "\<And>c. unread v = Some c \<Longrightarrow> chunk_length c \<le> chunk_bound m"
    and "\<And>ch1 c. listener_poll_next M (tuned v) ch = (ch1, Ready (Some c)) \<Longrightarrow> chunk_within E m c"
    and "unread v' = Some c'"
  shows "chunk_length c' \<le> chunk_bound m"
proof (cases "unread v")
  case None
  show ?thesis
  proof (cases "\<exists>ch1 c. listener_poll_next M (tuned v) ch = (ch1, Ready (Some c))")
    case True
    then obtain ch1 c where c: "listener_poll_next M (tuned v) ch = (ch1, Ready (Some c))" by blast
    then have "viewer_accept E c v = (v', y)"
      using assms(2) None by (simp add: viewer_turn_def split: prod.splits)
    then obtain f where "process E (fixer v) c = Ok (f, c')"
      using assms(5) None by (auto simp: viewer_accept_def split: outcome.splits prod.splits option.splits)
    with assms(1) show ?thesis using assms(4) [OF c] by (rule process_length)
  next
    case False
    then show ?thesis
      using assms(2,5) None
      by (cases "listener_poll_next M (tuned v) ch") (auto simp: viewer_turn_def split: poll.splits option.splits)
  qed
next
  case (Some c)
  then show ?thesis
    using assms(2,5) assms(3) [OF Some] chunk_next_length
    by (fastforce simp: viewer_turn_def split: prod.splits option.splits)
qed

context relay
begin

lemma unread_within_perform:
  fixes s :: "('q, 'm, 'e) server"
  assumes E: "big_endian E" and s: "serving E M W s" "enabled act s"
    and sent: "\<And>r c. r \<in> set (channel_runs s) \<Longrightarrow> c \<in> set (sent r) \<Longrightarrow> chunk_within E m c"
    and now: "list_all (unread_within m) (viewings s)"
  shows "list_all (unread_within m) (viewings (perform E M W act s))"
proof (cases act)
  case (Request req)
  have "list_all (unread_within m) (viewings (fst (routes M W req s)))"
  proof (rule routes_invariant [where P = "\<lambda>s. list_all (unread_within m) (viewings s)"])
    fix s s' :: "('q, 'm, 'e) server" and nm a
    assume "list_all (unread_within m) (viewings s)" "channel_of W nm s = (s', a)"
    then have s': "list_all (unread_within m) (viewings s')"
      by (auto simp: channel_of_def Let_def split: prod.splits)
    moreover have "list_all (unread_within m) (viewings (fst (get_handler M a nm s')))"
      using s' by (auto simp: get_handler_def unread_within_def viewer_new_def split: prod.split outcome.split)
    ultimately show "list_all (unread_within m) (viewings s') \<and>
        list_all (unread_within m) (viewings (fst (get_handler M a nm s'))) \<and>
        list_all (unread_within m) (viewings (fst (post_handler (req_body req) a nm s')))"
      by (simp add: post_handler_def)
  qed (rule now)
  with Request show ?thesis by simp
next
  case (TurnViewing k)
  then have k: "k < length (viewings s)" "view_open (viewings s ! k)" using s(2) by simp_all
  let ?v = "viewings s ! k"
  let ?r = "channel_runs s ! view_channel ?v"
  note vD = viewing_okD [OF server_okD(4) [OF serving_ok [OF s(1)] nth_mem [OF k(1)]]]
  obtain w ch y where turn: "viewer_turn E M (view_state ?v) (chan ?r) = (w, ch, y)" by (metis prod.collapse)
  have unread: "chunk_length c \<le> chunk_bound m" if "unread (view_state ?v) = Some c" for c
    using now k that by (auto simp: list_all_length unread_within_def)
  have taken: "chunk_within E m c"
    if "listener_poll_next M (tuned (view_state ?v)) (chan ?r) = (ch1, Ready (Some c))" for ch1 c
    using reachable_polled_sent [OF server_okD(1) [OF serving_ok [OF s(1)] vD(1)] vD(2) vD(3) [OF k(2)] that]
      sent [OF nth_mem [OF vD(1)]] by simp
  have "unread_within m v'" if "view_state v' = w" for v'
    using that viewer_turn_unread [OF E turn unread taken] by (simp add: unread_within_def)
  then show ?thesis
    using now k TurnViewing
    by (auto simp: turn_viewing_def turn Let_def close_viewing_def list_all_length nth_list_update)
next
  case (CloseViewing k)
  then show ?thesis
    using now s(2) by (auto simp: close_viewing_def Let_def list_all_length nth_list_update unread_within_def)
qed (use now in \<open>simp_all add: close_upload_def Let_def\<close>)

section \<open>The bound\<close>

lemma memory_invariant:
  fixes s :: "('q, 'm, 'e) server"
  assumes "big_endian E" "m < 2 ^ 60" "serving E M W s"
    and "upload_law.uploads_ok (chunker_within E m) (chunk_within E m) s" "list_all (unread_within m) (viewings s)"
    and "feasible E M W acts s" "list_all (obeys (piece_limited m)) acts" "s' = run_actions E M W acts s"
  shows "serving E M W s' \<and> upload_law.uploads_ok (chunker_within E m) (chunk_within E m) s' \<and>
    list_all (unread_within m) (viewings s')"
  using assms(3-)
proof (induction acts arbitrary: s)
  case (Cons act acts)
  note law = big_endian.memory_law [OF assms(1,2)]
  note ok = upload_law.uploads_ok_def [OF law]
  have enabled: "enabled act s" using Cons.prems(4) by simp
  have "upload_law.uploads_ok (chunker_within E m) (chunk_within E m) (perform E M W act s)"
    using Cons.prems enabled by (intro upload_law.uploads_ok_perform [OF law]) simp_all
  moreover have "list_all (unread_within m) (viewings (perform E M W act s))"
    using Cons.prems(2,3) by (intro unread_within_perform [OF assms(1) Cons.prems(1) enabled]) (auto simp: ok)
  ultimately show ?case
    using Cons.IH [OF serving_perform [OF Cons.prems(1) enabled]] Cons.prems by simp
qed simp

end

text \<open>Sums over what is open.\<close>

lemma sum_list_open:
  assumes "\<And>x. x \<in> set xs \<Longrightarrow> P x \<Longrightarrow> f x \<le> (k :: nat)" "\<And>x. x \<in> set xs \<Longrightarrow> \<not> P x \<Longrightarrow> f x = 0"
  shows "sum_list (map f xs) \<le> length (filter P xs) * k"
  using assms by (induction xs) (simp_all add: add_mono)

lemma live_channels: "length (filter (has_handle s) [0..<n]) \<le> connections s"
proof -
  let ?us = "map up_channel (filter up_open (uploads s))" and ?vs = "map view_channel (filter view_open (viewings s))"
  have "length (filter (has_handle s) [0..<n]) = card (set (filter (has_handle s) [0..<n]))"
    by (simp add: distinct_card [symmetric])
  also have "\<dots> \<le> card (set (?us @ ?vs))"
    by (rule card_mono) (auto simp: has_handle_def)
  also have "\<dots> \<le> length (?us @ ?vs)" by (rule card_length)
  finally show ?thesis by (simp add: connections_def)
qed

context relay
begin

lemma viewing_bytes_bound:
  fixes s :: "('q, 'm, 'e) server"
  assumes "serving E M W s" "v \<in> set (viewings s)" "view_open v" "unread_within m v"
    and sent: "\<And>r c. r \<in> set (channel_runs s) \<Longrightarrow> c \<in> set (sent r) \<Longrightarrow> chunk_within E m c"
  shows "viewing_bytes queued s v \<le> 7 * chunk_bound m"
proof -
  let ?r = "channel_runs s ! view_channel v" and ?i = "tuned (view_state v)"
  let ?q = "queued (queues (chan ?r) ! ?i)"
  note vD = viewing_okD [OF server_okD(4) [OF serving_ok [OF assms(1)] assms(2)]]
  have r: "reachable M ?r" using server_okD(1) [OF serving_ok [OF assms(1)] vD(1)] .
  then have i: "?i < length (queues (chan ?r))" using reachable_ok vD(2) by (simp add: run_ok_def)
  have "chunk_length c \<le> chunk_bound m" if "c \<in> set ?q" for c
    using reachable_queued_sent [OF r i] sent [OF nth_mem [OF vD(1)]] that chunk_within_length by blast
  then have "sum_list (map chunk_length ?q) \<le> length (filter (\<lambda>_. True) ?q) * chunk_bound m"
    by (intro sum_list_open) simp_all
  also have "\<dots> \<le> 6 * chunk_bound m" using reachable_capacity [OF r i] by simp
  finally have "sum_list (map chunk_length ?q) \<le> 6 * chunk_bound m" .
  moreover have "length (concat (unread_pieces (view_state v))) \<le> chunk_bound m"
    using assms(3,4) by (auto simp: unread_within_def unread_pieces_def chunk_length_def split: option.split)
  ultimately show ?thesis using assms(3) by (simp add: viewing_bytes_def)
qed

lemma server_bytes_bound:
  fixes s :: "('q, 'm, 'e) server"
  assumes "serving E M W s" "list_all (unread_within m) (viewings s)"
    and uploads: "\<And>u. u \<in> set (uploads s) \<Longrightarrow> up_open u \<Longrightarrow> chunker_within E m (up_chunker u)"
    and sent: "\<And>r c. r \<in> set (channel_runs s) \<Longrightarrow> c \<in> set (sent r) \<Longrightarrow> chunk_within E m c"
  shows "server_bytes queued s \<le> connections s * (8 * chunk_bound m)"
proof -
  let ?us = "filter up_open (uploads s)" and ?vs = "filter view_open (viewings s)"
  have us: "sum_list (map upload_bytes (uploads s)) \<le> length ?us * (3 * chunk_bound m)"
    using chunker_within_bytes [OF uploads] by (intro sum_list_open) (auto simp: upload_bytes_def)
  have vs: "sum_list (map (viewing_bytes queued s) (viewings s)) \<le> length ?vs * (7 * chunk_bound m)"
    using viewing_bytes_bound [OF assms(1) _ _ _ sent] assms(2)
    by (intro sum_list_open) (auto simp: list_all_iff viewing_bytes_def)
  have "sum_list (map (channel_bytes s) [0..<length (channel_runs s)]) \<le>
      length (filter (has_handle s) [0..<length (channel_runs s)]) * chunk_bound m"
  proof (rule sum_list_open)
    fix a assume "a \<in> set [0..<length (channel_runs s)]"
    then have a: "a < length (channel_runs s)" by simp
    have "chunk_length h \<le> chunk_bound m" if "header_chunk (chan (channel_runs s ! a)) = Some h" for h
      using reachable_header_sent [OF server_okD(1) [OF serving_ok [OF assms(1)] a] that] sent [OF nth_mem [OF a]]
        chunk_within_length by blast
    then show "channel_bytes s a \<le> chunk_bound m" by (simp add: channel_bytes_def split: option.split)
  qed (simp add: channel_bytes_def)
  also have "\<dots> \<le> connections s * chunk_bound m" using live_channels by (rule mult_right_mono) simp
  finally have "server_bytes queued s \<le>
      length ?us * (3 * chunk_bound m) + length ?vs * (7 * chunk_bound m) + connections s * chunk_bound m"
    unfolding server_bytes_def by (rule add_mono [OF add_mono [OF us vs]])
  also have "\<dots> \<le> connections s * (8 * chunk_bound m)"
    by (simp add: connections_def algebra_simps)
  finally show ?thesis .
qed

lemma relay_memory:
  fixes s :: "('q, 'm, 'e) server"
  assumes "big_endian E" "m < 2 ^ 60" "feasible E M W acts (server_start W)"
    and "list_all (obeys (piece_limited m)) acts" "s = run_actions E M W acts (server_start W)"
  shows "server_bytes queued s \<le> connections s * (8 * chunk_bound m)"
    and "r \<in> set (channel_runs s) \<Longrightarrow> c \<in> set (sent r) \<Longrightarrow> chunk_length c \<le> chunk_bound m"
proof -
  note law = big_endian.memory_law [OF assms(1,2)]
  have "upload_law.uploads_ok (chunker_within E m) (chunk_within E m) (server_start W :: ('q, 'm, 'e) server)"
    by (rule upload_law.uploads_ok_start [OF law])
  moreover have "list_all (unread_within m) (viewings (server_start W :: ('q, 'm, 'e) server))"
    by (simp add: server_start_def)
  ultimately have ok: "serving E M W s" "upload_law.uploads_ok (chunker_within E m) (chunk_within E m) s"
    "list_all (unread_within m) (viewings s)"
    using memory_invariant [OF assms(1,2) serving.initial _ _ assms(3,4,5)] by simp_all
  note within = ok(2) [unfolded upload_law.uploads_ok_def [OF law]]
  from ok within show "server_bytes queued s \<le> connections s * (8 * chunk_bound m)"
    by (intro server_bytes_bound) auto
  from within show "r \<in> set (channel_runs s) \<Longrightarrow> c \<in> set (sent r) \<Longrightarrow> chunk_length c \<le> chunk_bound m"
    using chunk_within_length by blast
qed

end

end
