(* ===== verification/Throttle.thy ===== *)
theory Throttle
  imports Starting_Point "HOL-Library.Sublist"
begin

text \<open>
  \<open>Throttle\<close> of \<open>src/fixers.rs\<close>: it lets a stream of chunks through no faster than its
  timecodes. Instants are milliseconds; the timer of the crate \<open>tokio\<close> is a parameter, whether
  a sleep until an instant has elapsed at another, and the locale \<open>timer\<close> states its
  documented behaviour.
\<close>

locale timer =
  fixes elapsed :: "int \<Rightarrow> int \<Rightarrow> bool"
  assumes not_early: "elapsed now deadline \<Longrightarrow> deadline \<le> now"

definition exact_timer :: "int \<Rightarrow> int \<Rightarrow> bool" where
  "exact_timer now deadline \<longleftrightarrow> deadline \<le> now"

interpretation exact_timer: timer exact_timer
  by unfold_locales (simp add: exact_timer_def)

text \<open>The field \<open>wake\<close> is the deadline of the source's \<open>sleep\<close>.\<close>

record 'e throttle =
  chunks :: "'e chunk_script"
  start_time :: "int option"
  wake :: int

definition throttle_new :: "int \<Rightarrow> 'e chunk_script \<Rightarrow> 'e throttle" where
  "throttle_new now wrap = \<lparr>chunks = wrap, start_time = None, wake = now\<rparr>"

text \<open>
  A poll at the instant \<open>now\<close>; \<open>later\<close> is what \<open>Instant::now()\<close> returns when the clock is
  started.
\<close>

definition throttle_poll_next ::
    "(int \<Rightarrow> int \<Rightarrow> bool) \<Rightarrow> int \<Rightarrow> int \<Rightarrow> 'e throttle \<Rightarrow> 'e throttle \<times> 'e chunk_poll" where
  "throttle_poll_next elapsed now later t =
    (if \<not> elapsed now (wake t) then (t, Pending)
     else
       (case poll_script (chunks t) of (next_chunk, rest) \<Rightarrow>
         let t = t\<lparr>chunks := rest\<rparr> in
         (case next_chunk of
            Ready (Some (Ok (ClusterChunk cluster_head _))) \<Rightarrow>
              let offset = uint (end_time cluster_head);
                  first = (case start_time t of Some s \<Rightarrow> s | None \<Rightarrow> later - offset)
              in (t\<lparr>start_time := Some first, wake := first + offset\<rparr>, next_chunk)
          | _ \<Rightarrow> (t, next_chunk))))"

text \<open>A run: polls at given pairs of instants, with what each returned.\<close>

fun throttle_run ::
    "(int \<Rightarrow> int \<Rightarrow> bool) \<Rightarrow> (int \<times> int) list \<Rightarrow> 'e throttle \<Rightarrow> 'e throttle \<times> (int \<times> 'e chunk_poll) list" where
  "throttle_run elapsed [] t = (t, [])"
| "throttle_run elapsed ((now, later) # clock) t =
    (case throttle_poll_next elapsed now later t of
       (t', r) \<Rightarrow> (case throttle_run elapsed clock t' of (t'', rs) \<Rightarrow> (t'', (now, r) # rs)))"

text \<open>The clusters among the results of a run, with the instants they were delivered at.\<close>

fun delivered :: "(int \<times> 'e chunk_poll) list \<Rightarrow> (int \<times> cluster_head) list" where
  "delivered [] = []"
| "delivered ((now, Ready (Some (Ok (ClusterChunk h _)))) # rs) = (now, h) # delivered rs"
| "delivered (_ # rs) = delivered rs"

fun run_items :: "(int \<times> 'e chunk_poll) list \<Rightarrow> 'e item list" where
  "run_items [] = []"
| "run_items ((_, Ready (Some x)) # rs) = x # run_items rs"
| "run_items ((_, Ready None) # rs) = []"
| "run_items ((_, Pending) # rs) = run_items rs"

text \<open>Each cluster is delivered no earlier than the end of the one before, on the clock started at \<open>s\<close>.\<close>

fun paced :: "int \<Rightarrow> int \<Rightarrow> (int \<times> cluster_head) list \<Rightarrow> bool" where
  "paced s due [] = True"
| "paced s due ((now, h) # ds) \<longleftrightarrow> due \<le> now \<and> paced s (s + uint (end_time h)) ds"

text \<open>
  The first cluster is delivered at once and starts the clock so that it is on time; the
  others are paced from there.
\<close>

definition on_time :: "(int \<times> int) list \<Rightarrow> (int \<times> cluster_head) list \<Rightarrow> bool" where
  "on_time clock ds \<longleftrightarrow>
    ds = [] \<or>
    (\<exists>t0 later h ds'. (t0, later) \<in> set clock \<and> ds = (t0, h) # ds' \<and>
      paced (later - uint (end_time h)) later ds')"

lemma throttle_poll_next_cases:
  obtains (waiting) "\<not> elapsed now (wake t)" "throttle_poll_next elapsed now later t = (t, Pending)"
  | (cluster) h body rest s where "elapsed now (wake t)"
      "poll_script (chunks t) = (Ready (Some (Ok (ClusterChunk h body))), rest)"
      "s = (case start_time t of Some s \<Rightarrow> s | None \<Rightarrow> later - uint (end_time h))"
      "throttle_poll_next elapsed now later t =
        (t\<lparr>chunks := rest, start_time := Some s, wake := s + uint (end_time h)\<rparr>,
         Ready (Some (Ok (ClusterChunk h body))))"
  | (other) r rest where "elapsed now (wake t)" "poll_script (chunks t) = (r, rest)"
      "\<nexists>h body. r = Ready (Some (Ok (ClusterChunk h body)))"
      "throttle_poll_next elapsed now later t = (t\<lparr>chunks := rest\<rparr>, r)"
proof (cases "elapsed now (wake t)")
  case True
  obtain r rest where poll: "poll_script (chunks t) = (r, rest)" by (cases "poll_script (chunks t)")
  show ?thesis
  proof (cases "\<exists>h body. r = Ready (Some (Ok (ClusterChunk h body)))")
    case True
    then obtain h body where r: "r = Ready (Some (Ok (ClusterChunk h body)))" by blast
    show ?thesis
      by (rule cluster [OF \<open>elapsed now (wake t)\<close> poll [unfolded r] refl])
        (use \<open>elapsed now (wake t)\<close> poll r in \<open>simp add: throttle_poll_next_def Let_def\<close>)
  next
    case False
    then have "throttle_poll_next elapsed now later t = (t\<lparr>chunks := rest\<rparr>, r)"
      using \<open>elapsed now (wake t)\<close> poll
      by (auto simp: throttle_poll_next_def Let_def split: poll.split option.split outcome.split chunk.split)
    with \<open>elapsed now (wake t)\<close> poll False show ?thesis by (rule other)
  qed
qed (auto simp: throttle_poll_next_def intro: waiting)

lemma poll_cases [case_names pending finished item]:
  "(r = Pending \<Longrightarrow> P) \<Longrightarrow> (r = Ready None \<Longrightarrow> P) \<Longrightarrow> (\<And>x. r = Ready (Some x) \<Longrightarrow> P) \<Longrightarrow> P"
  by (metis not_None_eq poll.exhaust)

lemma delivered_other:
  "\<nexists>h body. r = Ready (Some (Ok (ClusterChunk h body))) \<Longrightarrow> delivered ((now, r) # rs) = delivered rs"
  by (cases "(now, r) # rs" rule: delivered.cases) auto

context timer
begin

lemma throttle_run_paced:
  assumes "throttle_run elapsed clock t = (t', rs)" "start_time t = Some s"
  shows "paced s (wake t) (delivered rs)"
  using assms
proof (induction clock arbitrary: t rs)
  case (Cons p clock)
  obtain now later where p: "p = (now, later)" by (cases p)
  obtain t1 r rs1 where step: "throttle_poll_next elapsed now later t = (t1, r)"
    "throttle_run elapsed clock t1 = (t', rs1)" "rs = (now, r) # rs1"
    using Cons.prems(1) p by (auto split: prod.splits)
  show ?case
  proof (cases rule: throttle_poll_next_cases [where elapsed = elapsed and now = now and t = t and later = later])
    case waiting
    with Cons.IH [OF step(2)] Cons.prems(2) step show ?thesis by simp
  next
    case (cluster h body rest s')
    with Cons.IH [OF step(2)] Cons.prems(2) step not_early show ?thesis by auto
  next
    case (other r' rest)
    with Cons.IH [OF step(2)] Cons.prems(2) step show ?thesis
      by (auto simp: delivered_other)
  qed
qed simp

text \<open>From a fresh adapter, the first cluster starts the clock so that it is on time.\<close>

lemma throttle_run_fresh:
  assumes "throttle_run elapsed clock t = (t', rs)" "start_time t = None"
  shows "on_time clock (delivered rs)"
  using assms
proof (induction clock arbitrary: t rs)
  case (Cons p clock)
  obtain now later where p: "p = (now, later)" by (cases p)
  obtain t1 r rs1 where step: "throttle_poll_next elapsed now later t = (t1, r)"
    "throttle_run elapsed clock t1 = (t', rs1)" "rs = (now, r) # rs1"
    using Cons.prems(1) p by (auto split: prod.splits)
  have IH: "start_time t1 = None \<Longrightarrow> on_time (p # clock) (delivered rs1)"
    using Cons.IH [OF step(2)] by (auto simp: on_time_def)
  show ?case
  proof (cases rule: throttle_poll_next_cases [where elapsed = elapsed and now = now and t = t and later = later])
    case waiting
    with IH Cons.prems(2) step show ?thesis by simp
  next
    case (cluster h body rest s)
    then have "start_time t1 = Some s" "wake t1 = later" "s = later - uint (end_time h)"
      "delivered rs = (now, h) # delivered rs1"
      using Cons.prems(2) step(1,3) by auto
    with throttle_run_paced [OF step(2)] p show ?thesis by (auto simp: on_time_def)
  next
    case (other r' rest)
    then have "start_time t1 = None" "delivered rs = delivered rs1"
      using Cons.prems(2) step(1,3) by (auto simp: delivered_other)
    with IH show ?thesis by simp
  qed
qed (simp add: on_time_def)

end

text \<open>Throttling delays items and changes nothing else.\<close>

lemma throttle_run_items:
  assumes "throttle_run elapsed clock t = (t', rs)"
  shows "prefix (run_items rs) (script_items (chunks t))"
  using assms
proof (induction clock arbitrary: t rs)
  case (Cons p clock)
  obtain now later where p: "p = (now, later)" by (cases p)
  obtain t1 r rs1 where step: "throttle_poll_next elapsed now later t = (t1, r)"
    "throttle_run elapsed clock t1 = (t', rs1)" "rs = (now, r) # rs1"
    using Cons.prems p by (auto split: prod.splits)
  show ?case
  proof (cases rule: throttle_poll_next_cases [where elapsed = elapsed and now = now and t = t and later = later])
    case waiting
    with Cons.IH [OF step(2)] step show ?thesis by simp
  next
    case (cluster h body rest s)
    with Cons.IH [OF step(2)] step show ?thesis by (cases "chunks t") auto
  next
    case (other r' rest)
    with Cons.IH [OF step(2)] step show ?thesis
      by (cases "chunks t"; cases r' rule: poll_cases) auto
  qed
qed simp

end
