(* ===== verification/Program.thy ===== *)
theory Program
  imports Commands Throttle "HOL-Library.Multiset"
begin

text \<open>
  The commands \<open>filter\<close>, \<open>send\<close> and \<open>relay\<close>, and the dispatch of \<open>src/main.rs\<close>. The HTTP client, the resolver and
  the timer are third-party code or the system, and parameters; writing to standard output
  does not fail.
\<close>

section \<open>The chunk stream of filter\<close>

text \<open>
  The chunks that come out of fixer and window, as a stream: its items are there at once, for
  standard input is read in blocking mode.
\<close>

definition chunk_script_of :: "chunk list \<Rightarrow> ('x webmetro_error, unit) outcome \<Rightarrow> 'x webmetro_error chunk_script" where
  "chunk_script_of chs r =
    map (\<lambda>ch. Ready (Some (Ok ch))) chs @
    (case r of Ok _ \<Rightarrow> [] | Err e \<Rightarrow> [Ready (Some (Err e))] | Panic \<Rightarrow> [Ready (Some Panic)])"

definition selected ::
    "rt \<Rightarrow> ('e \<Rightarrow> 'x webmetro_error) \<Rightarrow> 128 word \<times> 128 word \<Rightarrow> 'e source \<Rightarrow> 'x webmetro_error chunk_script" where
  "selected E cv w stdin =
    (case all_chunks E cv (chunk_webm (parse_ebml stdin)) of
       (chs, r) \<Rightarrow>
         (case fix_and_select E w fixer_new chs of
            (out, Ok _) \<Rightarrow> chunk_script_of out r
          | (out, _) \<Rightarrow> chunk_script_of out Panic))"

text \<open>
  The timer and the clock of a throttled stream: when a sleep has elapsed, the instant at
  which the adapter is made, and the instants of the polls, which may be too few to see
  the end of the stream.
\<close>

record clockwork =
  sleep_elapsed :: "int \<Rightarrow> int \<Rightarrow> bool"
  made_at :: int
  polls_at :: "(int \<times> int) list"

record stream_args =
  throttled :: bool
  skip_secs :: "nat option"
  take_secs :: "nat option"

definition filter_items ::
    "rt \<Rightarrow> ('e \<Rightarrow> 'x webmetro_error) \<Rightarrow> clockwork \<Rightarrow> stream_args \<Rightarrow> 'e source \<Rightarrow>
     'x webmetro_error item list" where
  "filter_items E cv T args stdin =
    (let script = selected E cv (time_window (skip_secs args) (take_secs args)) stdin in
     if throttled args
     then run_items (snd (throttle_run (sleep_elapsed T) (polls_at T) (throttle_new (made_at T) script)))
     else script_items script)"

text \<open>The loop of \<open>filter\<close>: the pieces of each chunk are written, an error ends it.\<close>

fun write_chunks :: "'x webmetro_error item list \<Rightarrow> bytes \<times> ('x webmetro_error, unit) outcome" where
  "write_chunks [] = ([], Ok ())"
| "write_chunks (Ok ch # is) = (case write_chunks is of (out, r) \<Rightarrow> (concat (chunk_pieces ch) @ out, r))"
| "write_chunks (Err e # is) = ([], Err e)"
| "write_chunks (Panic # is) = ([], Panic)"

definition filter_command ::
    "rt \<Rightarrow> ('e \<Rightarrow> 'x webmetro_error) \<Rightarrow> clockwork \<Rightarrow> stream_args \<Rightarrow> 'e source \<Rightarrow>
     bytes \<times> ('x webmetro_error, unit) outcome" where
  "filter_command E cv T args stdin = write_chunks (filter_items E cv T args stdin)"

section \<open>send\<close>

text \<open>
  The pipeline of \<open>send\<close> is written out again in its source, and here: the chunks of standard
  input as items, \<open>map_ok\<close> with the fixer, \<open>try_filter\<close> with the window, then the throttle and
  \<open>try_flatten\<close>. A panic of the fixer ends the stream.
\<close>

record send_args = stream_args +
  url :: string

fun send_window :: "send_args \<Rightarrow> 128 word \<times> 128 word" where
  "send_window args =
    (let first = (case skip_secs args of Some s \<Rightarrow> as_millis s | None \<Rightarrow> 0) in
     case take_secs args of
       Some t \<Rightarrow> (first, as_millis t + first)
     | None \<Rightarrow> (first, - 1))"

definition send_chunks ::
    "rt \<Rightarrow> ('e \<Rightarrow> 'x webmetro_error) \<Rightarrow> 'e source \<Rightarrow> 'x webmetro_error item list" where
  "send_chunks E cv stdin =
    (case all_chunks E cv (chunk_webm (parse_ebml stdin)) of
       (chs, Ok _) \<Rightarrow> map Ok chs
     | (chs, Err e) \<Rightarrow> map Ok chs @ [Err e]
     | (chs, Panic) \<Rightarrow> map Ok chs @ [Panic])"

fun map_ok_fixer :: "rt \<Rightarrow> timecode_fixer \<Rightarrow> 'x item list \<Rightarrow> 'x item list" where
  "map_ok_fixer E f [] = []"
| "map_ok_fixer E f (Ok ch # is) =
    (case process E f ch of
       Ok (f', ch') \<Rightarrow> Ok ch' # map_ok_fixer E f' is
     | _ \<Rightarrow> [Panic])"
| "map_ok_fixer E f (Err e # is) = Err e # map_ok_fixer E f is"
| "map_ok_fixer E f (Panic # is) = [Panic]"

fun try_filter :: "(chunk \<Rightarrow> bool) \<Rightarrow> 'x item list \<Rightarrow> 'x item list" where
  "try_filter keep [] = []"
| "try_filter keep (Ok ch # is) = (if keep ch then Ok ch # try_filter keep is else try_filter keep is)"
| "try_filter keep (other # is) = other # try_filter keep is"

definition send_selected ::
    "rt \<Rightarrow> ('e \<Rightarrow> 'x webmetro_error) \<Rightarrow> send_args \<Rightarrow> 'e source \<Rightarrow> 'x webmetro_error item list" where
  "send_selected E cv args stdin =
    (case send_window args of
       (first, stop) \<Rightarrow>
         try_filter (\<lambda>chunk. overlaps chunk first stop)
           (map_ok_fixer E fixer_new (send_chunks E cv stdin)))"

definition send_items ::
    "rt \<Rightarrow> ('e \<Rightarrow> 'x webmetro_error) \<Rightarrow> clockwork \<Rightarrow> send_args \<Rightarrow> 'e source \<Rightarrow>
     'x webmetro_error item list" where
  "send_items E cv T args stdin =
    (let items = send_selected E cv args stdin in
     if throttled args
     then
       let throttle = throttle_new (made_at T) (map (\<lambda>item. Ready (Some item)) items)
       in run_items (snd (throttle_run (sleep_elapsed T) (polls_at T) throttle))
     else items)"

text \<open>\<open>try_flatten\<close>: the pieces of each chunk; an error is an item of its own.\<close>

fun flatten_items :: "('x, chunk) outcome list \<Rightarrow> ('x, bytes) outcome list" where
  "flatten_items [] = []"
| "flatten_items (Ok ch # is) = map Ok (chunk_pieces ch) @ flatten_items is"
| "flatten_items (Err e # is) = Err e # flatten_items is"
| "flatten_items (Panic # is) = Panic # flatten_items is"

text \<open>The body of the request, as far as it is polled.\<close>

definition send_body ::
    "rt \<Rightarrow> ('e \<Rightarrow> 'x webmetro_error) \<Rightarrow> clockwork \<Rightarrow> send_args \<Rightarrow> 'e source \<Rightarrow>
     ('x webmetro_error, bytes) outcome list" where
  "send_body E cv T args stdin = flatten_items (send_items E cv T args stdin)"

text \<open>
  The client: whether the request can be built, and the response to it, a stream of pieces.
\<close>

record 'x http_client =
  build_put :: "string \<Rightarrow> ('x, unit) outcome"
  respond :: "string \<Rightarrow> ('x webmetro_error, bytes) outcome list \<Rightarrow> ('x, ('x, bytes) outcome list) outcome"

text \<open>The response is copied to standard output until it ends or fails.\<close>

fun print_response :: "('x, bytes) outcome list \<Rightarrow> bytes \<times> ('x webmetro_error, unit) outcome" where
  "print_response [] = ([], Ok ())"
| "print_response (Ok piece # is) = (case print_response is of (out, r) \<Rightarrow> (piece @ out, r))"
| "print_response (Err e # is) = ([], Err (HyperError e))"
| "print_response (Panic # is) = ([], Panic)"

definition send_run ::
    "rt \<Rightarrow> ('e \<Rightarrow> 'x webmetro_error) \<Rightarrow> clockwork \<Rightarrow> 'x http_client \<Rightarrow> send_args \<Rightarrow> 'e source \<Rightarrow>
     bytes \<times> ('x webmetro_error, unit) outcome" where
  "send_run E cv T C args stdin =
    (case build_put C (url args) of
       Ok _ \<Rightarrow>
         (case respond C (url args) (send_body E cv T args stdin) of
            Ok response \<Rightarrow> print_response response
          | Err e \<Rightarrow> ([], Err (HyperError e))
          | Panic \<Rightarrow> ([], Panic))
     | Err e \<Rightarrow> ([], Err (HttpError e))
     | Panic \<Rightarrow> ([], Panic))"

section \<open>The pipelines compared\<close>

lemma script_items_chunk_script:
  "script_items (chunk_script_of chs r) =
    map Ok chs @ (case r of Ok _ \<Rightarrow> [] | Err e \<Rightarrow> [Err e] | Panic \<Rightarrow> [Panic])"
proof (induction chs)
  case Nil
  show ?case by (cases r) (simp_all add: chunk_script_of_def)
next
  case (Cons ch chs)
  then show ?case by (simp add: chunk_script_of_def)
qed

lemma write_chunks_append:
  "write_chunks (map Ok chs @ is) = (case write_chunks is of (out, r) \<Rightarrow> (chunks_bytes chs @ out, r))"
  by (induction chs) (simp_all split: prod.split)

lemma write_chunks_script:
  "write_chunks (script_items (chunk_script_of chs r)) = (chunks_bytes chs, r)"
  using write_chunks_append [of chs "[]"]
  by (cases r) (simp_all add: script_items_chunk_script write_chunks_append)

lemma filter_command_unthrottled:
  "\<not> throttled args \<Longrightarrow>
    filter_command E cv T args stdin = filter_run E cv (skip_secs args) (take_secs args) stdin"
  by (auto simp: filter_command_def filter_items_def filter_run_def selected_def write_chunks_script Let_def
      split: prod.split outcome.split)

text \<open>What a receiver of the pieces has, up to the first error.\<close>

fun received_bytes :: "('x, bytes) outcome list \<Rightarrow> bytes \<times> ('x, unit) outcome" where
  "received_bytes [] = ([], Ok ())"
| "received_bytes (Ok piece # is) = (case received_bytes is of (out, r) \<Rightarrow> (piece @ out, r))"
| "received_bytes (Err e # is) = ([], Err e)"
| "received_bytes (Panic # is) = ([], Panic)"

lemma received_bytes_pieces:
  "received_bytes (map Ok ps @ is) = (case received_bytes is of (out, r) \<Rightarrow> (concat ps @ out, r))"
  by (induction ps) (simp_all split: prod.split)

lemma received_bytes_flatten: "received_bytes (flatten_items is) = write_chunks is"
  by (induction "is" rule: flatten_items.induct) (simp_all add: received_bytes_pieces split: prod.split)

text \<open>The two pipelines, stage by stage: the window, the chunks, fixer and window, the throttle.\<close>

lemma send_window_eq: "send_window args = time_window (skip_secs args) (take_secs args)"
  by (simp add: time_window_def Let_def split: option.split)

lemma map_ok_fixer_eq:
  assumes "tail = [] \<or> (\<exists>e. tail = [Err e]) \<or> tail = [Panic]"
  shows "try_filter (\<lambda>ch. overlaps ch (fst w) (snd w)) (map_ok_fixer E f (map Ok chs @ tail)) =
    (case fix_and_select E w f chs of
       (out, Ok _) \<Rightarrow> map Ok out @ tail
     | (out, _) \<Rightarrow> map Ok out @ [Panic])"
proof (induction chs arbitrary: f)
  case Nil
  with assms show ?case by auto
next
  case (Cons ch chs)
  show ?case
  proof (cases "process E f ch")
    case (Ok p)
    obtain f' ch' where "p = (f', ch')" by (cases p)
    moreover obtain out r where "fix_and_select E w f' chs = (out, r)" by (cases "fix_and_select E w f' chs")
    ultimately show ?thesis using Ok Cons [of f'] by (cases r) simp_all
  qed simp_all
qed

lemma send_selected_eq:
  fixes cv :: "'e \<Rightarrow> 'x webmetro_error"
  shows "map (\<lambda>item. Ready (Some item)) (send_selected E cv args stdin) =
    selected E cv (time_window (skip_secs args) (take_secs args)) stdin"
proof -
  let ?w = "time_window (skip_secs args) (take_secs args)"
  obtain chs r where chs: "all_chunks E cv (chunk_webm (parse_ebml stdin)) = (chs, r)"
    by (cases "all_chunks E cv (chunk_webm (parse_ebml stdin))")
  obtain out x where out: "fix_and_select E ?w fixer_new chs = (out, x)" by (cases "fix_and_select E ?w fixer_new chs")
  define tail :: "'x webmetro_error item list" where "tail = (case r of Ok _ \<Rightarrow> [] | Err e \<Rightarrow> [Err e] | Panic \<Rightarrow> [Panic])"
  have "send_chunks E cv stdin = map Ok chs @ tail"
    by (cases r) (simp_all add: send_chunks_def chs tail_def)
  moreover have "tail = [] \<or> (\<exists>e. tail = [Err e]) \<or> tail = [Panic]"
    by (cases r) (simp_all add: tail_def)
  ultimately show ?thesis
    using map_ok_fixer_eq [of tail ?w E fixer_new chs] out chs
    by (cases x; cases r)
      (simp_all add: send_selected_def selected_def send_window_eq chunk_script_of_def tail_def split_beta
        del: send_window.simps)
qed

lemma send_items_eq:
  fixes cv :: "'e \<Rightarrow> 'x webmetro_error"
  shows "send_items E cv T args stdin = filter_items E cv T (stream_args.truncate args) stdin"
proof -
  have "script_items (map (\<lambda>item. Ready (Some item)) items) = items" for items :: "'x webmetro_error item list"
    by (induction items) simp_all
  then show ?thesis
    by (simp add: send_items_def filter_items_def stream_args.defs Let_def flip: send_selected_eq)
qed

text \<open>\<open>send\<close> uploads what \<open>filter\<close> with the same arguments writes.\<close>

lemma send_body_filter:
  "received_bytes (send_body E cv T args stdin) =
    filter_command E cv T (stream_args.truncate args) stdin"
  by (simp add: send_body_def filter_command_def received_bytes_flatten send_items_eq)

text \<open>Throttling only delays.\<close>

lemma flatten_items_append: "flatten_items (xs @ ys) = flatten_items xs @ flatten_items ys"
  by (induction xs rule: flatten_items.induct) simp_all

lemma filter_items_throttled:
  "prefix (filter_items E cv T args stdin) (filter_items E cv T (args\<lparr>throttled := False\<rparr>) stdin)"
  using throttle_run_items [OF prod.collapse [symmetric], of "sleep_elapsed T" "polls_at T"
      "throttle_new (made_at T) (selected E cv (time_window (skip_secs args) (take_secs args)) stdin)"]
  by (simp add: filter_items_def Let_def throttle_new_def)

lemma send_body_throttled:
  "prefix (send_body E cv T args stdin) (send_body E cv T (args\<lparr>throttled := False\<rparr>) stdin)"
  using filter_items_throttled [of E cv T "stream_args.truncate args" stdin]
  by (auto simp: send_body_def send_items_eq stream_args.defs prefix_def flatten_items_append)

section \<open>The command relay\<close>

text \<open>The resolver is a parameter.\<close>

definition relay_addresses ::
    "(string \<Rightarrow> (write_error io_error, 'a list) outcome) \<Rightarrow> string \<Rightarrow> ('x webmetro_error, 'a list) outcome" where
  "relay_addresses resolve listen =
    and_then (map_err IoError (resolve listen)) (\<lambda>addrs.
      if length addrs = 0 then Err (error_from_str ''Listen address didn't resolve'') else Ok addrs)"

text \<open>
  A server is started for each address; its future completes when the server ends or its
  socket cannot be bound, which the crate \<open>warp\<close> decides. The loop waits for one future after
  the other, in the order in which they complete, and is over when none is left.
\<close>

fun serve_loop :: "'a list \<Rightarrow> 'a list \<Rightarrow> bool" where
  "serve_loop [] ended \<longleftrightarrow> True"
| "serve_loop (a # servers) [] \<longleftrightarrow> False"
| "serve_loop (a # servers) (e # ended) \<longleftrightarrow> serve_loop (remove1 e (a # servers)) ended"

text \<open>A command that does not return has the result \<open>None\<close>; what a relay serves is in \<open>Relay\<close>.\<close>

definition relay_run ::
    "(string \<Rightarrow> (write_error io_error, 'a list) outcome) \<Rightarrow> 'a list \<Rightarrow> string \<Rightarrow>
     'a list \<times> ('x webmetro_error, unit) outcome option" where
  "relay_run resolve ended listen =
    (case relay_addresses resolve listen of
       Ok addrs \<Rightarrow> (addrs, if serve_loop addrs ended then Some (Ok ()) else None)
     | Err e \<Rightarrow> ([], Some (Err e))
     | Panic \<Rightarrow> ([], Some Panic))"

lemma serve_loop_iff: "serve_loop servers ended \<longleftrightarrow> mset servers \<subseteq># mset ended"
proof (induction servers ended rule: serve_loop.induct)
  case (3 a servers e ended)
  have "mset (remove1 e (a # servers)) \<subseteq># mset ended \<longleftrightarrow> mset (a # servers) - {#e#} \<subseteq># mset ended"
    by (simp only: mset_remove1)
  also have "\<dots> \<longleftrightarrow> mset (a # servers) \<subseteq># mset (e # ended)"
    by (simp add: subset_eq_diff_conv)
  finally show ?case using 3 by (simp only: serve_loop.simps)
qed simp_all

text \<open>The relay runs on as long as one of its servers does.\<close>

lemma relay_run_iff:
  "snd (relay_run resolve ended listen) = (None :: ('x webmetro_error, unit) outcome option) \<longleftrightarrow>
    (\<exists>addrs. resolve listen = Ok addrs \<and> \<not> mset addrs \<subseteq># mset ended)"
proof -
  have "addrs \<noteq> []" if "\<not> mset addrs \<subseteq># mset ended" for addrs
    using that by auto
  then show ?thesis
    by (cases "resolve listen") (auto simp: relay_run_def relay_addresses_def serve_loop_iff)
qed

section \<open>The program\<close>

datatype command = Dump | Filter stream_args | RelayCommand string | Send send_args

text \<open>
  What the surroundings provide, and what a command leaves behind. Reading the command line
  is left to the crate \<open>clap\<close>, which calls \<open>parse_time\<close> for durations; without a command it prints
  a message and exits.
\<close>

record ('x, 'a) surroundings =
  command_line :: "string list"
  parse_cli :: "(string \<Rightarrow> ('x webmetro_error, nat) outcome) \<Rightarrow> string list \<Rightarrow> command option"
  std_input :: "write_error io_error source"
  clocks :: clockwork
  http :: "'x http_client"
  resolver :: "string \<Rightarrow> (write_error io_error, 'a list) outcome"
  servers_ended :: "'a list"

datatype 'a effect = Lines "dump_line list" | Bytes bytes | Listening "'a list" | Usage

definition command_run ::
    "rt \<Rightarrow> ('x, 'a) surroundings \<Rightarrow> command \<Rightarrow> 'a effect \<times> ('x webmetro_error, unit) outcome option" where
  "command_run E w c =
    (case c of
       Dump \<Rightarrow> (case dump_run E IoError (std_input w) of (out, r) \<Rightarrow> (Lines out, Some r))
     | Filter args \<Rightarrow>
         (case filter_command E IoError (clocks w) args (std_input w) of (out, r) \<Rightarrow> (Bytes out, Some r))
     | RelayCommand listen \<Rightarrow>
         (case relay_run (resolver w) (servers_ended w) listen of (addrs, r) \<Rightarrow> (Listening addrs, r))
     | Send args \<Rightarrow>
         (case send_run E IoError (clocks w) (http w) args (std_input w) of (out, r) \<Rightarrow> (Bytes out, Some r)))"

text \<open>\<open>main\<close> logs the error of the command, the second component; a panic is passed on.\<close>

definition main_run ::
    "rt \<Rightarrow> ('x, 'a) surroundings \<Rightarrow> 'a effect \<times> ('x webmetro_error, 'x webmetro_error option) outcome option" where
  "main_run E w =
    (case parse_cli w parse_time (command_line w) of
       None \<Rightarrow> (Usage, Some (Ok None))
     | Some c \<Rightarrow>
         (case command_run E w c of
            (out, Some (Ok _)) \<Rightarrow> (out, Some (Ok None))
          | (out, Some (Err err)) \<Rightarrow> (out, Some (Ok (Some err)))
          | (out, Some Panic) \<Rightarrow> (out, Some Panic)
          | (out, None) \<Rightarrow> (out, None)))"

end
