(* ===== verification/Distribution.thy ===== *)
theory Distribution
  imports Relay_Service Relay_Memory Program
begin

text \<open>
  From the standard input of \<open>send\<close> to a viewer of the relay: what \<open>send\<close> puts into its request
  is cut into the same groups by the relay, below its limits if every chunk is, and reaches
  the viewers.
\<close>

section \<open>The chunks of a stream that was chunked before stay below a limit\<close>

lemma below_header:
  "in_header xs \<Longrightarrow> length (written_bytes (hs @ xs)) < l \<Longrightarrow> below_limit l (InHeader (hs @ xs)) ys \<Longrightarrow>
    below_limit l (InHeader hs) (xs @ ys)"
proof (induction xs arbitrary: hs)
  case (Cons x xs)
  have "below_limit l (InHeader (hs @ [x])) (xs @ ys)" using Cons.prems by (intro Cons.IH) simp_all
  moreover have "feed (InHeader hs) x = (InHeader (hs @ [x]), None)"
    using Cons.prems(1) by (cases x) simp_all
  ultimately show ?case using Cons.prems(2) by simp
qed simp

lemma below_cluster:
  "in_cluster xs \<Longrightarrow> length (written_bytes (body_elements (cs @ xs))) < l \<Longrightarrow>
    below_limit l (InCluster (cs @ xs)) ys \<Longrightarrow> below_limit l (InCluster cs) (xs @ ys)"
proof (induction xs arbitrary: cs)
  case (Cons x xs)
  have "below_limit l (InCluster (cs @ [x])) (xs @ ys)" using Cons.prems by (intro Cons.IH) simp_all
  moreover have "feed (InCluster cs) x = (InCluster (cs @ [x]), None)"
    using Cons.prems(1) by (cases x) (simp_all add: starts_header_def)
  ultimately show ?case using Cons.prems(2) by (simp add: body_elements_def)
qed simp

definition within :: "nat \<Rightarrow> group \<Rightarrow> bool" where
  "within l g \<longleftrightarrow> chunk_length (realize g) < l"

lemma within_simps [simp]:
  "within l (HeaderGroup els) \<longleftrightarrow> length (written_bytes els) < l"
  "within l (ClusterGroup els) \<longleftrightarrow> length (written_bytes (body_elements els)) + 15 < l"
  by (simp_all add: within_def chunk_length_def group_head_def add.commute)

lemma below_cluster_events:
  assumes "in_cluster els" "within l (ClusterGroup els)"
    and "below_limit l (InCluster (Timecode (group_start els) # kept (body_elements els))) ys"
  shows "below_limit l (InCluster []) (Timecode (group_start els) # kept (body_elements els) @ ys)"
  using below_cluster [of "Timecode (group_start els) # kept (body_elements els)" "[]" l ys] assms
  by (simp add: in_kept starts_header_def body_kept)

lemma below_events:
  "after_cluster gs \<Longrightarrow> list_all (within l) gs \<Longrightarrow> length (written_bytes (body_elements cs)) < l \<Longrightarrow>
    below_limit l (InCluster cs) (concat (map group_events gs))"
  "after_header gs \<Longrightarrow> list_all (within l) gs \<Longrightarrow> length (written_bytes hs) < l \<Longrightarrow>
    below_limit l (InHeader hs) (concat (map group_events gs))"
proof (induction gs and gs arbitrary: cs and hs rule: after_cluster_after_header.induct)
  case (2 els gs)
  have "below_limit l (InCluster (Timecode (group_start els) # kept (body_elements els))) (concat (map group_events gs))"
    using "2.prems" by (intro "2.IH") (simp_all add: body_kept)
  from below_cluster_events [OF _ _ this] "2.prems" show ?case by simp
next
  case (3 el els gs)
  have el: "starts_header el" "in_header els" using "3.prems" by simp_all
  have "below_limit l (InHeader (el # kept els)) (concat (map group_events gs))"
    using "3.prems" by (intro "3.IH") simp_all
  then have "below_limit l (InHeader [el]) (kept els @ concat (map group_events gs))"
    using below_header [OF in_kept(1) [OF el(2)], of "[el]" l] "3.prems"(2) by simp
  moreover have "feed (InCluster cs) el = (InHeader [el], Some (ClusterGroup cs))"
    using el(1) by (auto simp: starts_header_def)
  ultimately show ?case
    using "3.prems"(3) by (simp add: kept_starts_header [OF el(1)] del: kept_simps)
next
  case (5 els gs)
  have "below_limit l (InCluster (Timecode (group_start els) # kept (body_elements els))) (concat (map group_events gs))"
    using "5.prems" by (intro "5.IH") (simp_all add: body_kept)
  from below_cluster_events [OF _ _ this] "5.prems" show ?case by simp
qed simp_all

lemma below_regrouped:
  assumes "groups (InHeader []) els = (gs, b)" "list_all (within l) (gs @ last_group b)" "0 < l"
  shows "below_limit l (InHeader []) (concat (map group_events (gs @ last_group b)))"
proof -
  have "group_sequence (InHeader []) (gs @ last_group b)" using assms(1) by (rule groups_sequence)
  then consider "gs @ last_group b = []"
    | els' gs' where "gs @ last_group b = HeaderGroup els' # gs'" "in_header els'" "after_header gs'"
    by auto
  then show ?thesis
  proof cases
    case 2
    have "below_limit l (InHeader (kept els')) (concat (map group_events gs'))"
      using below_events(2) [OF 2(3)] assms(2) unfolding 2(1) by simp
    then show ?thesis
      unfolding 2(1) using below_header [OF in_kept(1) [OF 2(2)], of "[]" l] assms(2) [unfolded 2(1)] by simp
  qed simp
qed

text \<open>The parser waits for one element at a time.\<close>

context big_endian
begin

lemma patient_written:
  assumes "well_timed (el # els)" "webm_bytes el \<noteq> []" "length (webm_bytes el) \<le> l"
  shows "patient (webm_from_ebml E) l (webm_bytes el @ written_bytes els)"
  unfolding patient_def
proof (intro allI impI)
  let ?F = "webm_from_ebml E" and ?n = "length (webm_bytes el)"
  fix k
  assume k: "check_space ?F (take k (webm_bytes el @ written_bytes els)) = Ok None"
  have "k < ?n"
  proof (rule ccontr)
    assume "\<not> k < ?n"
    then have "take k (webm_bytes el @ written_bytes els) = webm_bytes el @ take (k - ?n) (written_bytes els)" by simp
    moreover have "writable el" using assms(1,2) by (auto simp: well_timed_def intro: forwardable_writable)
    ultimately have "decode_element ?F (take k (webm_bytes el @ written_bytes els)) = Ok (Some (el, ?n))"
      using decode_webm_bytes [OF _ assms(2)] by metis
    with k show False by (simp add: decode_element_eq)
  qed
  with assms(3) show "k < l" by simp
qed

lemma all_patient_written:
  assumes "well_timed els" "list_all (\<lambda>el. length (webm_bytes el) \<le> l) els" "0 < l"
  shows "all_patient (webm_from_ebml E) l (written_bytes els)"
  using assms(1,2)
proof (induction els)
  case Nil
  show ?case using assms(3) by (subst all_patient.simps) (simp add: patient_def decode_element_eq)
next
  case (Cons el els)
  have rest: "all_patient (webm_from_ebml E) l (written_bytes els)"
    using Cons by (simp add: well_timed_def)
  show ?case
  proof (cases "webm_bytes el = []")
    case False
    have "writable el" using Cons.prems(1) False by (auto simp: well_timed_def intro: forwardable_writable)
    then have "decode_element (webm_from_ebml E) (webm_bytes el @ written_bytes els) = Ok (Some (el, length (webm_bytes el)))"
      using False by (rule decode_webm_bytes)
    with rest patient_written [OF Cons.prems(1) False] Cons.prems(2) show ?thesis
      by (subst all_patient.simps) simp
  qed (use rest in simp)
qed

lemma regrouped_patient:
  assumes "groups (InHeader []) els = (gs, b)" "well_timed els" "list_all (within l) (gs @ last_group b)" "0 < l"
  shows "all_patient (webm_from_ebml E) l (written_bytes (concat (map group_events (gs @ last_group b))))"
proof (rule all_patient_written)
  have "well_timed (group_elements g)" if "g \<in> set (gs @ last_group b)" for g
    using groups_well_timed [OF assms(1) _ assms(2) that] by (simp add: well_timed_def)
  then show "well_timed (concat (map group_events (gs @ last_group b)))"
    using well_timed_group_events by (fastforce simp: well_timed_def)
  have "length (webm_bytes el) \<le> l" if g: "g \<in> set (gs @ last_group b)" and el: "el \<in> set (group_events g)" for g el
  proof -
    obtain xs ys where "group_events g = xs @ el # ys" using el by (auto dest: split_list)
    then have "length (webm_bytes el) \<le> length (written_bytes (group_events g))" by simp
    also have "\<dots> = chunk_length (realize g)" by (simp add: written_group_events chunk_length_def)
    also have "\<dots> < l" using assms(3) g by (auto simp: list_all_iff within_def)
    finally show ?thesis by simp
  qed
  then show "list_all (\<lambda>el. length (webm_bytes el) \<le> l) (concat (map group_events (gs @ last_group b)))"
    unfolding list_all_iff by (auto simp del: map_append)
qed (rule assms(4))

end

section \<open>The same groups\<close>

lemma normal_keyframe: "list_ex keyframe_block (Timecode t # kept (body_elements els)) = list_ex keyframe_block els"
  by (simp add: kept_blocks)

lemma from_start_normal: "from_start gh gk (map normal gs) = map normal (from_start gh gk gs)"
  by (induction gh gk gs rule: from_start.induct) (simp_all add: kept_blocks)

lemma kept_kept: "kept (kept els) = kept els"
  by (simp add: kept_def)

lemma group_start_normal: "group_start (Timecode t # kept (body_elements els)) = t"
  by (simp add: group_start_def kept_timecodes)

lemma realize_normals: "map realize (map normal gs) = map realize gs"
  by (simp add: realize_normal)

lemma group_events_normal: "group_events (normal g) = group_events g"
  by (cases g) (simp_all add: kept_kept group_start_normal body_kept)

lemma group_events_normals: "map group_events (map normal gs) = map group_events gs"
  by (simp add: group_events_normal)

section \<open>From standard input to a viewer\<close>

context relay
begin

lemma sent_stream_arrives:
  fixes s :: "('q, 'm, 'e) server" and cv :: "'f \<Rightarrow> 'x webmetro_error"
  assumes E: "big_endian E"
    and input: "\<And>e. SourceErr e \<notin> set stdin" "whole_events (webm_from_ebml E) (source_bytes stdin) = (els, Ok ())"
      "well_timed els" "length (written_bytes els) < 2 ^ 64" "groups (InHeader []) els = (gs, b)"
      "in_order 0 (cluster_heads (map realize (gs @ last_group b)))"
    and small: "list_all (within BUFFER_LIMIT) (gs @ last_group b)"
    and args: "\<not> throttled args" "skip_secs args = None" "take_secs args = None"
    and body: "\<And>e. SourceErr e \<notin> set body" "length (source_bytes body) < 2 ^ 64"
      "source_bytes body = fst (received_bytes (send_body E cv T args stdin))"
    and s: "serving E M W s" "feasible E M W acts s"
    and upload: "j < length (uploads s)" "up_open (uploads s ! j)" "up_chunker (uploads s ! j) = relay_chunker body"
      "a = up_channel (uploads s ! j)"
    and alone: "sole_sender E M W a j acts s" "CloseUpload j \<notin> set acts"
    and polled: "work_left (relay_chunker body) \<le> length (filter ((=) (PollUpload j)) acts)"
    and viewer: "in_service k s" "view_channel (viewings s ! k) = a"
      "due (channel_runs s ! a) (tuned (view_state (viewings s ! k))) = []"
      "CloseViewing k \<notin> set acts" "viewing_waiting queued k s \<le> w" "load E M W k w acts s = Some w'"
  shows "\<exists>n \<le> w'. whole_events (webm_from_ebml E)
      (concat (view_out (viewings ((turn_viewing E M k ^^ n) (run_actions E M W acts s)) ! k))) =
    (concat (map group_events (from_start False False (gs @ last_group b))), Ok ())"
proof -
  let ?gs = "gs @ last_group b"
  let ?es = "concat (map group_events ?gs)"
  have limit: "0 < BUFFER_LIMIT" by (simp add: BUFFER_LIMIT_def)
  have "filter_command E cv T (stream_args.truncate args) stdin = filter_run E cv None None stdin"
    using args by (simp add: filter_command_unthrottled stream_args.defs)
  then have bytes: "source_bytes body = chunks_bytes (map realize ?gs)"
    using body(3) big_endian.filter_run_in_order(1) [OF E input, where cv = cv] by (simp add: send_body_filter)
  note es = big_endian.rechunk(2,3) [OF E input(5,3) body(1) bytes body(2)]
  have written: "written_bytes ?es = source_bytes body" by (simp only: written_groups_events bytes)
  obtain gs' b' where again: "groups (InHeader []) ?es = (gs', b')" by (cases "groups (InHeader []) ?es")
  then have same: "gs' @ last_group b' = map normal ?gs"
    using regroup_fixed_point [OF input(5)] by simp
  have ordered: "in_order 0 (cluster_heads (map realize (gs' @ last_group b')))"
    using input(6) unfolding same realize_normals .
  have patient: "all_patient (webm_from_ebml E) BUFFER_LIMIT (source_bytes body)"
    using big_endian.regrouped_patient [OF E input(5,3) small limit] unfolding written .
  have "length (written_bytes ?es) < 2 ^ 64" unfolding written by (rule body(2))
  from relay_end_to_end [OF E s upload alone polled body(1) es this again patient
      below_regrouped [OF input(5) small limit] ordered viewer]
  show ?thesis
    unfolding same from_start_normal group_events_normals .
qed

end

end
