(* ===== verification/Samples.thy ===== *)
theory Samples
  imports Program Upload
begin

text \<open>
  Small concrete inputs and what the model computes on them; the theorems of the root
  theory are applied to them.
\<close>

section \<open>A stream of one header and one cluster\<close>

definition sample_block :: simple_block where
  "sample_block = \<lparr>track = 1, timecode = 33, flags = 0x80, data = [0xAB]\<rparr>"

definition sample_elements :: "webm_element list" where
  "sample_elements = [EbmlHead, Segment, Tracks [7], Cluster, Timecode 5, SimpleBlock sample_block]"

definition header_group :: group where
  "header_group = HeaderGroup [EbmlHead, Segment, Tracks [7]]"

definition cluster_group :: group where
  "cluster_group = ClusterGroup [Timecode 5, SimpleBlock sample_block]"

definition sample_input :: "'e source" where
  "sample_input = [SourceData (written_bytes [EbmlHead, Segment]), SourcePending,
    SourceData (written_bytes [Tracks [7], Cluster, Timecode 5, SimpleBlock sample_block])]"

lemma sample_no_error: "SourceErr e \<notin> set sample_input"
  by (simp add: sample_input_def)

lemma sample_well_timed: "well_timed sample_elements"
  by (simp add: well_timed_def sample_elements_def sample_block_def word_le_nat_alt)

lemma varint_bytes_small: "unat w < 127 \<Longrightarrow> varint_bytes (Value w) = [of_nat (128 + unat w)]"
  by (simp add: varint_bytes.simps varint_size_def sized_varint_def)

lemma sample_block_bytes: "block_bytes sample_block = [0x81, 0, 33, 0x80, 0xAB]"
  by (simp add: block_bytes_def sample_block_def varint_bytes_small be_list_2)

lemma sample_block_writable:
  "writable (SimpleBlock sample_block)" "webm_bytes (SimpleBlock sample_block) = [0xA3, 0x85, 0x81, 0, 33, 0x80, 0xAB]"
proof -
  show "writable (SimpleBlock sample_block)" by (simp add: sample_block_def word_le_nat_alt)
  have "varint_bytes (Value SIMPLE_BLOCK_ID) = [0xA3]" "varint_bytes (Value 5) = [0x85]"
    by (simp_all add: varint_bytes_small SIMPLE_BLOCK_ID_def)
  then show "webm_bytes (SimpleBlock sample_block) = [0xA3, 0x85, 0x81, 0, 33, 0x80, 0xAB]"
    by (simp add: element_bytes_def tag_header_bytes_def sample_block_bytes)
qed

lemma sample_bytes_nonempty:
  "webm_bytes EbmlHead \<noteq> []" "webm_bytes Segment \<noteq> []" "webm_bytes (Tracks [7]) \<noteq> []"
  "webm_bytes Cluster \<noteq> []" "webm_bytes (Timecode 5) \<noteq> []" "webm_bytes (SimpleBlock sample_block) \<noteq> []"
proof -
  have "0 < length bs \<Longrightarrow> bs \<noteq> []" for bs :: bytes by simp
  note nonempty = this
  show "webm_bytes EbmlHead \<noteq> []" "webm_bytes Segment \<noteq> []" "webm_bytes Cluster \<noteq> []"
    "webm_bytes (Timecode 5) \<noteq> []"
    by (rule nonempty; simp only: length_fixed_bytes length_Cluster_bytes; simp)+
  show "webm_bytes (SimpleBlock sample_block) \<noteq> []"
    by (simp only: sample_block_writable(2)) simp
  show "webm_bytes (Tracks [7]) \<noteq> []" by (simp add: element_bytes_def)
qed

lemma sample_kept: "kept sample_elements = sample_elements"
  by (simp only: sample_elements_def kept_simps sample_bytes_nonempty if_False)

lemma length_sample_tracks: "length (webm_bytes (Tracks [7])) = 6"
  by (simp add: element_bytes_def tag_header_bytes_def varint_bytes.simps varint_size_def id_defs)

lemma sample_source_bytes: "source_bytes sample_input = written_bytes sample_elements"
  by (simp add: sample_input_def sample_elements_def)

lemma sample_parsed:
  "whole_events (webm_from_ebml (reference_rt oc)) (source_bytes sample_input) = (sample_elements, Ok ())"
  using reference.whole_events_written [OF sample_well_timed, of oc "[]"]
  by (simp add: sample_source_bytes sample_kept)

lemma sample_size: "length (written_bytes sample_elements) < 2 ^ 64"
  by (simp only: sample_elements_def written_bytes_simps length_append length_fixed_bytes
      length_Cluster_bytes sample_block_writable(2) length_sample_tracks) simp

lemma sample_groups:
  "groups (InHeader []) sample_elements =
    ([header_group], InCluster [Timecode 5, SimpleBlock sample_block])"
  by (simp add: sample_elements_def header_group_def)

lemma sample_last: "last_group (InCluster [Timecode 5, SimpleBlock sample_block]) = [cluster_group]"
  by (simp add: cluster_group_def)

section \<open>A bare cluster through the relay\<close>

definition cluster_header :: bytes where
  "cluster_header = [0x1F, 0x43, 0xB6, 0x75, 0xFF]"

lemma cluster_header_space:
  "check_space (webm_from_ebml E) cluster_header =
    Ok (Some \<lparr>element_id = CLUSTER_ID, body_offset = 5, element_len = 5\<rparr>)"
  by (simp add: check_space_def decode_tag_def decode_varint_spec varint_spec_def varint_length_def
      cluster_header_def slice_from_def be_val_def webm_from_ebml_def webm_should_unwrap_def id_defs Let_def)

lemma cluster_header_event:
  assumes "stream p = SourceData cluster_header # rest" "buffer p = []" "buffer_size_limit p = Some BUFFER_LIMIT"
  shows "poll_event (webm_from_ebml E) cv p =
    (p\<lparr>stream := rest, buffer := [], borrowed := []\<rparr>, Ready (Some (Ok Cluster)))"
proof -
  let ?F = "webm_from_ebml E" and ?q = "p\<lparr>stream := rest, buffer := cluster_header\<rparr>"
  have "poll_event ?F cv p = poll_event ?F cv ?q"
    using assms by (subst poll_event.simps) (simp add: limit_reached_def BUFFER_LIMIT_def)
  also have "\<dots> = (?q\<lparr>buffer := [], borrowed := []\<rparr>, Ready (Some (Ok Cluster)))"
  proof -
    have "decode ?F CLUSTER_ID body = Ok Cluster" for body
      by (simp add: webm_from_ebml_def webm_decode_def id_defs)
    moreover have "length cluster_header = 5" by (simp add: cluster_header_def)
    ultimately show ?thesis
      by (subst poll_event.simps) (simp add: cluster_header_space take_element_eq)
  qed
  finally show ?thesis by simp
qed

lemma relay_sample_poll:
  fixes cv :: "'e \<Rightarrow> 'x webmetro_error"
  shows "\<exists>c'. poll_next (reference_rt oc) cv (relay_chunker [SourceData cluster_header]) =
    (c', Ready (Some (Ok (Headers []))))"
proof -
  let ?c = "relay_chunker [SourceData cluster_header] :: 'e chunker"
  have "poll_event (webm_from_ebml (reference_rt oc)) cv (source ?c) =
      ((source ?c)\<lparr>stream := [], buffer := [], borrowed := []\<rparr>, Ready (Some (Ok Cluster)))"
    by (rule cluster_header_event)
      (simp_all add: relay_chunker_def chunker_with_soft_limit_def chunk_webm_def with_soft_limit_def parse_ebml_def)
  moreover have "chunk_state ?c = BuildingHeader (filled [])"
    by (simp add: relay_chunker_def chunker_with_soft_limit_def chunk_webm_def)
  ultimately show ?thesis
    by (simp add: poll_next_element header_turn_def reference.cluster_head_new_eq)
qed

lemma relay_sample:
  fixes cv :: "'e \<Rightarrow> 'x webmetro_error"
  shows "Headers [] \<in> set (fst (all_chunks (reference_rt oc) cv (relay_chunker [SourceData cluster_header])))"
  using relay_sample_poll [of oc cv] by (subst all_chunks.simps) (auto split: prod.split)

text \<open>An upload that breaks off behind its header.\<close>

definition broken_input :: "unit source" where
  "broken_input = [SourceData cluster_header, SourceErr ()]"

lemma broken_chunks:
  fixes cv :: "unit \<Rightarrow> 'x webmetro_error"
  shows "all_chunks (reference_rt oc) cv (relay_chunker broken_input) = ([Headers []], Err (cv ()))"
proof -
  let ?E = "reference_rt oc" and ?c = "relay_chunker broken_input"
  define s where "s = (source ?c)\<lparr>stream := [SourceErr ()], buffer := [], borrowed := []\<rparr>"
  have "poll_event (webm_from_ebml ?E) cv (source ?c) = (s, Ready (Some (Ok Cluster)))"
    unfolding s_def
    by (rule cluster_header_event)
      (simp_all add: relay_chunker_def chunker_with_soft_limit_def chunk_webm_def with_soft_limit_def
        parse_ebml_def broken_input_def)
  moreover have "chunk_state ?c = BuildingHeader (filled [])"
    by (simp add: relay_chunker_def chunker_with_soft_limit_def chunk_webm_def)
  moreover have "all_chunks ?E cv (?c\<lparr>source := s, chunk_state := BuildingCluster h b\<rparr>) = ([], Err (cv ()))" for h b
  proof -
    have "poll_event (webm_from_ebml ?E) cv s = (s\<lparr>stream := []\<rparr>, Ready (Some (Err (cv ()))))"
      by (subst poll_event.simps)
        (simp add: s_def relay_chunker_def chunker_with_soft_limit_def chunk_webm_def with_soft_limit_def
          parse_ebml_def limit_reached_def BUFFER_LIMIT_def check_space_def decode_tag_def)
    then show ?thesis
      by (subst all_chunks.simps) (simp add: poll_next_other(1))
  qed
  ultimately show ?thesis
    by (simp add: all_chunks_element header_turn_def reference.cluster_head_new_eq)
qed

section \<open>A restarted stream\<close>

text \<open>Clusters 50 ms long with given starts.\<close>

definition sample_cluster :: "u64 \<Rightarrow> chunk" where
  "sample_cluster t =
    ClusterChunk \<lparr>keyframe = True, start = t, end_time = t + 50, head_bytes = head_image t\<rparr> [1, 2]"

text \<open>
  A stream that restarts after 9000 ms and then has a cluster every 1000 ms: the fixer puts
  them 33 ms apart.
\<close>

lemma restart_fixed:
  "process_all (reference_rt oc) fixer_new
     [sample_cluster 9000, Headers [3], sample_cluster 0, sample_cluster 1000, sample_cluster 2000] =
   Ok [sample_cluster 9000, Headers [3], sample_cluster 9083, sample_cluster 9166, sample_cluster 9249]"
  by (simp add: sample_cluster_def process_def fixer_new_def Let_def reference.update_timecode_eq
      add_u64_def sub_u64_def)

section \<open>A channel\<close>

text \<open>A listener joins, a header and a cluster are sent, the listener polls once.\<close>

definition sample_run :: "reference_queue run" where
  "sample_run =
    (let s0 = run_start ''a'';
         s1 = s0\<lparr>chan := fst (listener_new reference_mpsc (chan s0)),
                 greeting := [[]], joined_at := [0], received := [[]]\<rparr>;
         s2 = s1\<lparr>chan := fst (transmitter_send reference_mpsc (Headers [1]) (chan s1)), sent := [Headers [1]]\<rparr>;
         s3 = s2\<lparr>chan := fst (transmitter_send reference_mpsc (sample_cluster 0) (chan s2)),
                 sent := [Headers [1], sample_cluster 0]\<rparr>
     in s3\<lparr>chan := fst (listener_poll_next reference_mpsc 0 (chan s3)), received := [[Headers [1]]]\<rparr>)"

lemmas channel_eval = listener_new_def transmitter_send_def listener_poll_next_def reference_mpsc_def
  run_start_def channel_new_def Let_def

lemma sample_run_reachable: "reachable reference_mpsc sample_run"
proof -
  let ?M = reference_mpsc
  define s0 where "s0 = (run_start ''a'' :: reference_queue run)"
  define s1 where "s1 = s0\<lparr>chan := fst (listener_new ?M (chan s0)),
    greeting := [[]], joined_at := [0], received := [[]]\<rparr>"
  define s2 where "s2 = s1\<lparr>chan := fst (transmitter_send ?M (Headers [1]) (chan s1)), sent := [Headers [1]]\<rparr>"
  define s3 where "s3 = s2\<lparr>chan := fst (transmitter_send ?M (sample_cluster 0) (chan s2)),
    sent := [Headers [1], sample_cluster 0]\<rparr>"
  note defs = s3_def s2_def s1_def s0_def channel_eval sample_cluster_def
  have "reachable ?M s0" unfolding s0_def by (rule reachable.start)
  moreover have "run_step ?M s0 s1"
    using run_step.join [of ?M s0 "fst (listener_new ?M (chan s0))" 0] by (simp add: defs)
  moreover have "run_step ?M s1 s2"
    using run_step.send [of ?M "Headers [1]" s1 "fst (transmitter_send ?M (Headers [1]) (chan s1))"]
    by (simp add: defs)
  moreover have "run_step ?M s2 s3"
    using run_step.send [of ?M "sample_cluster 0" s2 "fst (transmitter_send ?M (sample_cluster 0) (chan s2))"]
    by (simp add: defs)
  moreover have "run_step ?M s3 sample_run"
    using run_step.poll [of 0 s3 ?M "fst (listener_poll_next ?M 0 (chan s3))" "Ready (Some (Headers [1]))"]
    by (simp add: sample_run_def defs)
  ultimately show ?thesis by (blast intro: reachable.step)
qed

lemma sample_run_simps:
  "received sample_run = [[Headers [1]]]" "sent sample_run = [Headers [1], sample_cluster 0]"
  "listeners (chan sample_run) = [0]" "left sample_run = {}" "due sample_run 0 = [Headers [1], sample_cluster 0]"
  "items (queues (chan sample_run) ! 0) = [sample_cluster 0]"
  "header_chunk (chan sample_run) = Some (Headers [1])"
  by (simp_all add: sample_run_def channel_eval due_def sample_cluster_def)

text \<open>A listener that joins after a header was sent.\<close>

lemma late_joiner_greeted:
  "\<exists>s. reachable reference_mpsc s \<and> [Headers [1]] \<in> set (greeting s)"
proof -
  have "snd (listener_new reference_mpsc (chan sample_run)) = Ok 1"
    by (simp add: sample_run_def channel_eval sample_cluster_def)
  then have "run_step reference_mpsc sample_run
      (sample_run\<lparr>chan := fst (listener_new reference_mpsc (chan sample_run)),
        greeting := greeting sample_run @ [[Headers [1]]],
        joined_at := joined_at sample_run @ [length (sent sample_run)],
        received := received sample_run @ [[]]\<rparr>)"
    using run_step.join [of reference_mpsc sample_run "fst (listener_new reference_mpsc (chan sample_run))" 1]
    by (simp add: sample_run_simps(7) prod_eq_iff)
  with sample_run_reachable have "reachable reference_mpsc
      (sample_run\<lparr>chan := fst (listener_new reference_mpsc (chan sample_run)),
        greeting := greeting sample_run @ [[Headers [1]]],
        joined_at := joined_at sample_run @ [length (sent sample_run)],
        received := received sample_run @ [[]]\<rparr>)"
    by (rule reachable.step)
  then show ?thesis by (fastforce intro: exI)
qed

section \<open>More on the sample stream\<close>

lemma sample_chunks:
  fixes cv :: "'e \<Rightarrow> 'x webmetro_error"
  shows "all_chunks (reference_rt oc) cv (chunk_webm (parse_ebml sample_input)) =
    ([realize header_group, realize cluster_group], Ok ())"
  using reference.chunk_webm_groups [OF sample_no_error sample_parsed sample_well_timed sample_size]
  by (simp add: sample_groups cluster_group_def)

lemma sample_in_order: "in_order 0 (cluster_heads (map realize [header_group, cluster_group]))"
  by (simp add: header_group_def cluster_group_def group_head_def group_start_def group_length_def
      sample_block_def word_le_nat_alt)

definition sample_output :: bytes where
  "sample_output = chunks_bytes (map realize [header_group, cluster_group])"

lemma sample_filtered:
  fixes cv :: "'e \<Rightarrow> 'x webmetro_error"
  shows "filter_run (reference_rt oc) cv None None sample_input = (sample_output, Ok ())"
  using reference.filter_run_in_order(1) [OF sample_no_error sample_parsed sample_well_timed sample_size
    sample_groups, where cv = cv] sample_in_order
  by (simp add: cluster_group_def sample_output_def)

lemma sample_output_size: "length sample_output < 2 ^ 64"
  by (simp add: sample_output_def header_group_def cluster_group_def group_head_def length_fixed_bytes
      length_Cluster_bytes length_sample_tracks sample_block_writable(2) del: webm_bytes.simps)

lemma cluster_header_decoded:
  "decode_element (webm_from_ebml E) cluster_header = Ok (Some (Cluster, 5))"
proof -
  have "decode (webm_from_ebml E) CLUSTER_ID body = Ok Cluster" for body
    by (simp add: webm_from_ebml_def webm_decode_def id_defs)
  then show ?thesis by (simp add: decode_element_eq cluster_header_space)
qed

lemma reference_vec_writer: "ebml_writer (reference_rt oc) vec_writer get_ref position (\<lambda>_ _. True)"
  by unfold_locales

definition restarted_fixer :: timecode_fixer where
  "restarted_fixer = \<lparr>current_offset = 0, last_observed_timecode = 9050, assumed_duration = 33\<rparr>"

lemma restart_spaced:
  "process_all (reference_rt oc) restarted_fixer [sample_cluster 0, sample_cluster 1000, sample_cluster 2000] =
   Ok [sample_cluster 9083, sample_cluster 9166, sample_cluster 9249]"
  by (simp add: sample_cluster_def process_def restarted_fixer_def Let_def reference.update_timecode_eq
      add_u64_def sub_u64_def)

section \<open>A clock, and the arguments of filter\<close>

definition sample_clocks :: clockwork where
  "sample_clocks = \<lparr>sleep_elapsed = (\<lambda>now wake. wake \<le> now), made_at = 0, polls_at = []\<rparr>"

definition plain_args :: stream_args where
  "plain_args = \<lparr>throttled = False, skip_secs = None, take_secs = None\<rparr>"

lemma plain_args_simps [simp]:
  "\<not> throttled plain_args" "skip_secs plain_args = None" "take_secs plain_args = None"
  by (simp_all add: plain_args_def)

lemma sample_filter_command:
  fixes cv :: "'e \<Rightarrow> 'x webmetro_error"
  shows "filter_command (reference_rt oc) cv T plain_args sample_input = (sample_output, Ok ())"
  by (simp add: filter_command_unthrottled sample_filtered)

section \<open>A listener after a disconnect\<close>

text \<open>The transmitter of the sample run goes, a listener joins, and another transmitter sends.\<close>

definition rejoined_run :: "reference_queue run" where
  "rejoined_run =
    (let s0 = sample_run\<lparr>chan := transmitter_drop (chan sample_run)\<rparr>;
         s1 = s0\<lparr>chan := fst (listener_new reference_mpsc (chan s0)),
                 greeting := [[], []], joined_at := [0, 2], received := [[Headers [1]], []]\<rparr>;
         s2 = s1\<lparr>chan := fst (transmitter_send reference_mpsc (sample_cluster 100) (chan s1)),
                 sent := [Headers [1], sample_cluster 0, sample_cluster 100]\<rparr>
     in s2\<lparr>chan := fst (listener_poll_next reference_mpsc 1 (chan s2)),
           received := [[Headers [1]], [sample_cluster 100]]\<rparr>)"

lemma rejoined_steps:
  "(run_step reference_mpsc)\<^sup>*\<^sup>* (sample_run\<lparr>chan := transmitter_drop (chan sample_run)\<rparr>) rejoined_run"
proof -
  let ?M = reference_mpsc
  define s0 where "s0 = sample_run\<lparr>chan := transmitter_drop (chan sample_run)\<rparr>"
  define s1 where "s1 = s0\<lparr>chan := fst (listener_new ?M (chan s0)),
    greeting := [[], []], joined_at := [0, 2], received := [[Headers [1]], []]\<rparr>"
  define s2 where "s2 = s1\<lparr>chan := fst (transmitter_send ?M (sample_cluster 100) (chan s1)),
    sent := [Headers [1], sample_cluster 0, sample_cluster 100]\<rparr>"
  note defs = s2_def s1_def s0_def sample_run_def transmitter_drop_def channel_eval sample_cluster_def numeral_2_eq_2
  have "run_step ?M s0 s1"
    using run_step.join [of ?M s0 "fst (listener_new ?M (chan s0))" 1] by (simp add: defs)
  moreover have "run_step ?M s1 s2"
    using run_step.send [of ?M "sample_cluster 100" s1 "fst (transmitter_send ?M (sample_cluster 100) (chan s1))"]
    by (simp add: defs)
  moreover have "run_step ?M s2 rejoined_run"
    using run_step.poll [of 1 s2 ?M "fst (listener_poll_next ?M 1 (chan s2))" "Ready (Some (sample_cluster 100))"]
    by (simp add: rejoined_run_def defs)
  ultimately show ?thesis unfolding s0_def [symmetric] by (meson rtranclp.rtrancl_into_rtrancl rtranclp.rtrancl_refl)
qed

lemma rejoined_simps:
  "sent rejoined_run = [Headers [1], sample_cluster 0, sample_cluster 100]"
  "received rejoined_run = [[Headers [1]], [sample_cluster 100]]" "joined_at rejoined_run = [0, 2]"
  "is_headers (sample_cluster t) = False"
  by (simp_all add: rejoined_run_def Let_def sample_cluster_def)

section \<open>A block the writers refuse\<close>

text \<open>The sample stream goes on with a second cluster, which has a block of track 32.\<close>

definition wide_block :: simple_block where
  "wide_block = sample_block\<lparr>track := 32\<rparr>"

definition wide_bytes :: bytes where
  "wide_bytes = [0xA3, 0x85, 0xA0, 0, 33, 0x80, 0xAB]"

definition before_wide :: "webm_element list" where
  "before_wide = sample_elements @ [Cluster, Timecode 38]"

definition wide_input :: "unit source" where
  "wide_input = [SourceData (written_bytes before_wide), SourcePending, SourceData wide_bytes]"

lemma wide_decoded:
  "decode_element (webm_from_ebml (reference_rt oc)) wide_bytes = Ok (Some (SimpleBlock wide_block, 7))"
proof -
  have "decode_varint [0xA0, 0, 33, 0x80, 0xAB] = Ok (Some (Value 32, 1))"
    by (simp add: decode_varint_spec varint_spec_def varint_length_def be_val_def Let_def)
  then have "decode (webm_from_ebml (reference_rt oc)) SIMPLE_BLOCK_ID [0xA0, 0, 33, 0x80, 0xAB] = Ok (SimpleBlock wide_block)"
    by (simp add: webm_from_ebml_def webm_decode_def decode_simple_block_def id_defs slice_from_def index_def reference_rt_def
      wide_block_def sample_block_def Let_def be_val_def)
  moreover have "check_space (webm_from_ebml (reference_rt oc)) wide_bytes =
      Ok (Some \<lparr>element_id = SIMPLE_BLOCK_ID, body_offset = 2, element_len = 7\<rparr>)"
    by (simp add: check_space_def decode_tag_def decode_varint_spec varint_spec_def varint_length_def
      wide_bytes_def slice_from_def be_val_def webm_from_ebml_def webm_should_unwrap_def id_defs Let_def)
  ultimately show ?thesis by (simp add: decode_element_eq wide_bytes_def)
qed

lemma wide_parsed:
  "whole_events (webm_from_ebml (reference_rt oc)) (source_bytes wide_input) =
    (before_wide @ SimpleBlock wide_block # [], Ok ())"
proof -
  have timed: "well_timed before_wide"
    using sample_well_timed by (simp add: before_wide_def well_timed_def)
  have "0 < length (webm_bytes (Timecode 38))" by (simp only: length_Cluster_bytes)
  then have "webm_bytes (Timecode 38) \<noteq> []" by (rule length_greater_0_conv [THEN iffD1])
  then have "kept before_wide = before_wide"
    using sample_kept by (simp only: before_wide_def sample_elements_def append_Cons append_Nil kept_simps
        sample_bytes_nonempty if_False)
  moreover have "whole_events (webm_from_ebml (reference_rt oc)) wide_bytes = ([SimpleBlock wide_block], Ok ())"
  proof -
    have "drop 7 wide_bytes = []" by (simp add: wide_bytes_def)
    then show ?thesis by (subst whole_events.simps) (simp add: wide_decoded)
  qed
  ultimately show ?thesis
    using reference.whole_events_written [OF timed, of oc wide_bytes] by (simp add: wide_input_def)
qed

lemma wide_facts:
  "SourceErr e \<notin> set wide_input" "well_timed before_wide" "length (written_bytes before_wide) < 2 ^ 64"
  "groups (InHeader []) before_wide = ([header_group, cluster_group], InCluster [Timecode 38])"
  "31 < track wide_block" "0 \<le> sint (timecode wide_block)"
proof -
  show "length (written_bytes before_wide) < 2 ^ 64"
    by (simp only: before_wide_def sample_elements_def written_bytes_simps length_append length_fixed_bytes
        length_Cluster_bytes sample_block_writable(2) length_sample_tracks) simp
qed (use sample_well_timed in \<open>simp_all add: wide_input_def before_wide_def well_timed_def sample_elements_def
    header_group_def cluster_group_def wide_block_def sample_block_def word_less_nat_alt\<close>)

end
