(* ===== verification/Relay_Samples.thy ===== *)
theory Relay_Samples
  imports Distribution Samples
begin

text \<open>
  A small relay: a viewer asks for the channel \<open>a\<close>, and an upload to it begins.
\<close>

section \<open>The server\<close>

interpretation reference_relay:
  relay reference_mpsc items receiver_alive size_limit reference_map map_of
  by (rule relay.intro [OF reference_queue.bounded_mpsc_axioms reference_map.weak_registry_axioms])

type_synonym sample_server = "(reference_queue, (string \<times> nat) list, unit) server"

definition get_request :: "unit request" where
  "get_request = \<lparr>req_method = MethodGet, req_path = [''live'', ''a''], req_body = []\<rparr>"

definition put_request :: "unit source \<Rightarrow> unit request" where
  "put_request bdy = \<lparr>req_method = MethodPut, req_path = [''live'', ''a''], req_body = bdy\<rparr>"

definition viewer_joined :: sample_server where
  "viewer_joined = fst (routes reference_mpsc reference_map get_request (server_start reference_map))"

definition upload_begun :: "unit source \<Rightarrow> sample_server" where
  "upload_begun bdy = fst (routes reference_mpsc reference_map (put_request bdy) viewer_joined)"

lemma viewer_joined_serving: "serving E reference_mpsc reference_map viewer_joined"
  unfolding viewer_joined_def
  by (rule serving.step [OF serving.initial server_step.request [OF prod.collapse [symmetric]]])

lemma upload_begun_serving: "serving E reference_mpsc reference_map (upload_begun bdy)"
  unfolding upload_begun_def
  by (rule serving.step [OF viewer_joined_serving server_step.request [OF prod.collapse [symmetric]]])

lemmas server_eval = routes_def or_route_def route_def channel_of_def head_handler_def get_handler_def
  post_handler_def get_request_def put_request_def server_start_def reference_map_def has_handle_def
  run_join_def run_start_def channel_new_def listener_new_def reference_mpsc_def media_response_def Let_def

lemma viewer_joined_eq:
  "viewer_joined =
    \<lparr>channel_map = [(''a'', 1), (''a'', 0)],
     channel_runs = [run_start ''a'', fst (run_join reference_mpsc (run_start ''a''))],
     uploads = [],
     viewings = [\<lparr>view_channel = 1, view_name = ''a'', view_state = viewer_new 0, view_open = True, view_out = []\<rparr>]\<rparr>"
  by (simp add: viewer_joined_def server_eval)

lemma upload_begun_eq:
  "upload_begun bdy = viewer_joined\<lparr>uploads :=
    [\<lparr>up_channel = 1, up_name = ''a'', up_chunker = relay_chunker bdy, up_open = True\<rparr>]\<rparr>"
  by (simp add: upload_begun_def viewer_joined_eq server_eval)

text \<open>The upload sends its first chunk, an empty header, which waits in the viewer's queue.\<close>

definition header_sent :: "bool \<Rightarrow> sample_server" where
  "header_sent oc = poll_upload (reference_rt oc) reference_mpsc 0 (upload_begun [SourceData cluster_header])"

lemma upload_begun_upload:
  "length (uploads (upload_begun bdy)) = 1" "up_open (uploads (upload_begun bdy) ! 0)"
  "up_channel (uploads (upload_begun bdy) ! 0) = 1"
  "up_chunker (uploads (upload_begun bdy) ! 0) = relay_chunker bdy"
  "sent (channel_runs (upload_begun bdy) ! 1) = []"
  by (simp_all add: upload_begun_eq viewer_joined_eq run_join_def run_start_def channel_new_def
      listener_new_def reference_mpsc_def)

lemma header_sent_serving: "serving (reference_rt oc) reference_mpsc reference_map (header_sent oc)"
  unfolding header_sent_def
  by (rule serving.step [OF upload_begun_serving server_step.upload_polled]) (simp_all add: upload_begun_upload)

lemma header_sent_simps:
  "viewings (header_sent oc) =
    [\<lparr>view_channel = 1, view_name = ''a'', view_state = viewer_new 0, view_open = True, view_out = []\<rparr>]"
  "listeners (chan (channel_runs (header_sent oc) ! 1)) = [0]"
  "due (channel_runs (header_sent oc) ! 1) 0 = [Headers []]"
  "received (channel_runs (header_sent oc) ! 1) = [[]]"
  "sent (channel_runs (header_sent oc) ! 1) = [Headers []]"
  "length (channel_runs (header_sent oc)) = 2"
  "items (queues (chan (channel_runs (header_sent oc) ! 1)) ! 0) = [Headers []]"
  "length (queues (chan (channel_runs (header_sent oc) ! 1))) = 1"
  "map up_open (uploads (header_sent oc)) = [True]"
proof -
  obtain c' where "poll_next (reference_rt oc) WarpError (relay_chunker [SourceData cluster_header] :: unit chunker) =
      (c', Ready (Some (Ok (Headers [])) :: (unit webmetro_error, chunk) outcome option))"
    using relay_sample_poll [where oc = oc and cv = "WarpError :: unit \<Rightarrow> unit webmetro_error"] by blast
  note eval = header_sent_def upload_begun_eq viewer_joined_eq poll_upload_def post_poll_def sent_by_def this
    run_update_def run_join_def run_start_def channel_new_def listener_new_def transmitter_send_def
    reference_mpsc_def due_def Let_def
  show "viewings (header_sent oc) =
      [\<lparr>view_channel = 1, view_name = ''a'', view_state = viewer_new 0, view_open = True, view_out = []\<rparr>]"
    "listeners (chan (channel_runs (header_sent oc) ! 1)) = [0]"
    "due (channel_runs (header_sent oc) ! 1) 0 = [Headers []]"
    "received (channel_runs (header_sent oc) ! 1) = [[]]"
    "sent (channel_runs (header_sent oc) ! 1) = [Headers []]"
    "length (channel_runs (header_sent oc)) = 2"
    "items (queues (chan (channel_runs (header_sent oc) ! 1)) ! 0) = [Headers []]"
    "length (queues (chan (channel_runs (header_sent oc) ! 1))) = 1"
    "map up_open (uploads (header_sent oc)) = [True]"
    by (simp_all add: eval)
qed

text \<open>Two turns later the viewer has been sent the piece of that chunk.\<close>

definition header_viewed :: "bool \<Rightarrow> sample_server" where
  "header_viewed oc = turn_viewing (reference_rt oc) reference_mpsc 0
    (turn_viewing (reference_rt oc) reference_mpsc 0 (header_sent oc))"

lemma header_viewed_simps:
  "viewings (header_viewed oc) ! 0 =
    \<lparr>view_channel = 1, view_name = ''a'',
     view_state = \<lparr>tuned = 0, fixer = fixer_new, got_header = True, got_keyframe = False, unread = Some EmptyChunk\<rparr>,
     view_open = True, view_out = [[]]\<rparr>"
  "received (channel_runs (header_viewed oc) ! 1) = [[Headers []]]"
  "due (channel_runs (header_viewed oc) ! 1) 0 = [Headers []]"
  "length (viewings (header_viewed oc)) = 1"
  using header_sent_simps [of oc]
  by (simp_all add: header_viewed_def turn_viewing_def viewer_turn_def viewer_accept_def process_def taken_def
      listener_poll_next_def reference_mpsc_def viewer_new_def run_receive_def due_def Let_def)

lemma header_viewed_serving:
  "serving (reference_rt oc) reference_mpsc reference_map (header_viewed oc)"
proof -
  define s where "s = turn_viewing (reference_rt oc) reference_mpsc 0 (header_sent oc)"
  have "serving (reference_rt oc) reference_mpsc reference_map s"
    unfolding s_def
    by (rule serving.step [OF header_sent_serving server_step.viewing_turned]) (simp_all add: header_sent_simps)
  moreover have "length (viewings s) = 1" "view_open (viewings s ! 0)"
    using header_sent_simps [of oc]
    by (simp_all add: s_def turn_viewing_def viewer_turn_def viewer_accept_def process_def taken_def
        listener_poll_next_def reference_mpsc_def viewer_new_def run_receive_def due_def Let_def)
  ultimately show ?thesis
    unfolding header_viewed_def s_def [symmetric]
    by - (rule serving.step, assumption, rule server_step.viewing_turned, simp_all)
qed

section \<open>A schedule\<close>

text \<open>After every poll of the upload the viewer has four turns.\<close>

definition sample_round :: "unit action list" where
  "sample_round = PollUpload 0 # replicate 4 (TurnViewing 0)"

definition sample_schedule :: "nat \<Rightarrow> unit action list" where
  "sample_schedule n = concat (replicate n sample_round)"

lemma sample_schedule_load: "pair_load 0 (sample_schedule n) = Some 0"
  by (induction n) (simp_all add: sample_schedule_def sample_round_def eval_nat_numeral)

lemma sample_schedule_polls: "length (filter ((=) (PollUpload 0)) (sample_schedule n)) = n"
  by (induction n) (simp_all add: sample_schedule_def sample_round_def eval_nat_numeral)

lemma sample_schedule_tasks:
  "set (sample_schedule n) \<subseteq> {PollUpload 0, TurnViewing 0}"
  "CloseUpload 0 \<notin> set (sample_schedule n)" "CloseViewing 0 \<notin> set (sample_schedule n)"
  by (auto simp: sample_schedule_def sample_round_def)

lemma upload_begun_viewing:
  "in_service 0 (upload_begun bdy)" "view_channel (viewings (upload_begun bdy) ! 0) = 1"
  "tuned (view_state (viewings (upload_begun bdy) ! 0)) = 0"
  "due (channel_runs (upload_begun bdy) ! 1) 0 = []" "viewing_waiting items 0 (upload_begun bdy) = 0"
  by (simp_all add: in_service_def registered_def viewing_waiting_def waiting_def upload_begun_eq viewer_joined_eq run_join_def
      run_start_def channel_new_def listener_new_def reference_mpsc_def viewer_new_def due_def Let_def)

lemma sample_small:
  "length (source_bytes sample_input) < BUFFER_LIMIT" "length (written_bytes sample_elements) < BUFFER_LIMIT"
  unfolding sample_source_bytes
  by (simp_all only: sample_elements_def written_bytes_simps length_append length_fixed_bytes
    length_Cluster_bytes sample_block_writable(2) length_sample_tracks) (simp_all add: BUFFER_LIMIT_def)

lemma sample_within:
  "all_patient (webm_from_ebml (reference_rt oc)) BUFFER_LIMIT (source_bytes sample_input)"
  "below_limit BUFFER_LIMIT (InHeader []) sample_elements"
  using reference.all_patient_small [OF sample_small(1)] reference.below_limit_small [of "InHeader []"] sample_small(2)
  by simp_all

lemma sample_relayed:
  assumes "\<And>e. SourceErr e \<notin> set body" "source_bytes body = source_bytes (sample_input :: unit source)"
  shows "all_chunks (reference_rt oc) (WarpError :: unit \<Rightarrow> unit webmetro_error) (relay_chunker body) =
    ([realize header_group, realize cluster_group], Ok ())"
proof -
  have "whole_events (webm_from_ebml (reference_rt oc)) (source_bytes body) = (sample_elements, Ok ())"
    "all_patient (webm_from_ebml (reference_rt oc)) BUFFER_LIMIT (source_bytes body)"
    unfolding assms(2) by (rule sample_parsed sample_within)+
  from reference.relay_chunks [OF assms(1) this(1) sample_well_timed sample_size this(2) sample_within(2),
      where cv = "WarpError :: unit \<Rightarrow> unit webmetro_error"]
  show ?thesis by (simp add: sample_groups cluster_group_def)
qed

lemma sample_schedule_ok:
  fixes n and body :: "unit source"
  defines "s \<equiv> upload_begun body"
  assumes body: "\<And>e. SourceErr e \<notin> set body" "source_bytes body = source_bytes (sample_input :: unit source)"
  shows "feasible (reference_rt False) reference_mpsc reference_map (sample_schedule n) s"
    "sole_sender (reference_rt False) reference_mpsc reference_map 1 0 (sample_schedule n) s"
    "load (reference_rt False) reference_mpsc reference_map 0 0 (sample_schedule n) s = Some 0"
proof -
  have s: "0 < length (uploads s)" "up_open (uploads s ! 0)" "1 = up_channel (uploads s ! 0)"
    "snd (all_chunks (reference_rt False) WarpError (up_chunker (uploads s ! 0))) = Ok ()"
    "0 < length (viewings s)" "view_open (viewings s ! 0)" "view_channel (viewings s ! 0) = 1"
    using upload_begun_viewing [of body] upload_begun_upload [of body] sample_relayed [OF body]
    by (simp_all add: s_def in_service_def)
  from reference_relay.pair_schedule [OF reference.big_endian_axioms _ upload_begun_serving [of _ body, folded s_def]
      s sample_schedule_tasks(1), of n 0]
  show "feasible (reference_rt False) reference_mpsc reference_map (sample_schedule n) s"
    "sole_sender (reference_rt False) reference_mpsc reference_map 1 0 (sample_schedule n) s"
    "load (reference_rt False) reference_mpsc reference_map 0 0 (sample_schedule n) s = Some 0"
    by (simp_all add: sample_schedule_load)
qed

lemmas sample_input_schedule = sample_schedule_ok [OF sample_no_error refl]

lemma sample_from_start:
  "from_start False False [header_group, cluster_group] = [header_group, cluster_group]"
  by (simp add: header_group_def cluster_group_def sample_block_def)

lemma sample_group_events:
  "group_events header_group = [EbmlHead, Segment, Tracks [7]]"
  "group_events cluster_group = [Cluster, Timecode 5, SimpleBlock sample_block]"
  using sample_bytes_nonempty
  by (simp_all add: header_group_def cluster_group_def group_start_def kept_simps)

section \<open>An upload that has sent a cluster\<close>

definition cluster_sent :: "nat \<Rightarrow> sample_server" where
  "cluster_sent n = (poll_upload (reference_rt True) reference_mpsc 0 ^^ n) (upload_begun sample_input)"

lemma cluster_is_sent:
  "\<exists>n. serving (reference_rt True) reference_mpsc reference_map (cluster_sent n) \<and>
    realize cluster_group \<in> set (sent (channel_runs (cluster_sent n) ! 1)) \<and> 1 < length (channel_runs (cluster_sent n))"
proof -
  let ?s = "upload_begun sample_input"
  have s: "0 < length (uploads ?s)" by (simp add: upload_begun_upload)
  obtain n where n: "serving (reference_rt True) reference_mpsc reference_map (cluster_sent n)"
    "0 < length (uploads (cluster_sent n))" "up_channel (uploads (cluster_sent n) ! 0) = 1"
    "sent (channel_runs (cluster_sent n) ! 1) = [realize header_group, realize cluster_group]"
    using reference_relay.upload_runs_out [OF upload_begun_serving s upload_begun_upload(2)
        upload_begun_upload(3) [symmetric], of "reference_rt True"]
    by (auto simp: Let_def cluster_sent_def upload_begun_upload sample_relayed [OF sample_no_error refl]
        simp del: One_nat_def)
  from reference_relay.server_okD(3) [OF reference_relay.serving_ok [OF n(1)] nth_mem [OF n(2)]]
  have "1 < length (channel_runs (cluster_sent n))" by (simp add: reference_relay.upload_ok_def n(3))
  with n(1,4) show ?thesis by auto
qed

section \<open>What send uploads\<close>

text \<open>The sample stream on the standard input of \<open>send\<close>, and the request in one piece.\<close>

definition sample_send :: send_args where
  "sample_send = \<lparr>throttled = False, skip_secs = None, take_secs = None, url = ''http://localhost:8080/live/a''\<rparr>"

definition sent_input :: "unit source" where
  "sent_input = [SourceData sample_output]"

lemma sent_input_no_error: "SourceErr e \<notin> set sent_input"
  by (simp add: sent_input_def)

lemma sent_input_bytes: "source_bytes sent_input = source_bytes (sample_input :: unit source)"
proof -
  have "sample_output = written_bytes (concat (map group_events [header_group, cluster_group]))"
    by (simp only: sample_output_def written_groups_events)
  also have "concat (map group_events [header_group, cluster_group]) = sample_elements"
    by (simp add: sample_group_events sample_elements_def)
  finally show ?thesis by (simp add: sent_input_def sample_source_bytes)
qed

lemma sent_input_body:
  fixes cv :: "'e \<Rightarrow> 'x webmetro_error"
  shows "source_bytes sent_input = fst (received_bytes (send_body (reference_rt oc) cv T sample_send sample_input))"
  by (simp add: send_body_filter filter_command_unthrottled sample_send_def stream_args.defs sample_filtered sent_input_def)

lemmas sent_input_schedule = sample_schedule_ok [OF sent_input_no_error sent_input_bytes]

lemma sample_groups_within: "list_all (within BUFFER_LIMIT) [header_group, cluster_group]"
  by (simp add: header_group_def cluster_group_def BUFFER_LIMIT_def length_fixed_bytes length_Cluster_bytes
      length_sample_tracks sample_block_writable(2) del: webm_bytes.simps)

section \<open>Pieces of input that are small\<close>

lemma small_requests:
  "list_all (obeys (piece_limited 5)) [Request get_request, Request (put_request [SourceData cluster_header]), PollUpload 0]"
  by (simp add: get_request_def put_request_def piece_limited_def cluster_header_def)

lemma small_schedule:
  "feasible (reference_rt oc) reference_mpsc reference_map
     [Request get_request, Request (put_request [SourceData cluster_header]), PollUpload 0] (server_start reference_map)"
  "run_actions (reference_rt oc) reference_mpsc reference_map
     [Request get_request, Request (put_request [SourceData cluster_header]), PollUpload 0] (server_start reference_map) =
   header_sent oc"
  using upload_begun_upload [of "[SourceData cluster_header]"]
  by (simp_all add: header_sent_def upload_begun_def viewer_joined_def)

lemma header_sent_connections: "connections (header_sent oc) = 2"
proof -
  have "length (filter up_open (uploads (header_sent oc))) = length (filter (\<lambda>b. b) (map up_open (uploads (header_sent oc))))"
    by (simp add: filter_map comp_def)
  then show ?thesis by (simp only: connections_def header_sent_simps) simp
qed

end
