(* ===== verification/Unit_Tests.thy ===== *)
theory Unit_Tests
  imports Chunk_Bounds
begin

text \<open>
  The unit tests of the repository, run on the model: each test function is a proposition,
  the conjunction of its assertions, and holds. The writers of the crate \<open>bytes\<close> that the
  tests of \<open>encode_varint\<close> write into are stood for by the two cursors, and the contents of
  \<open>encode_webm_test.webm\<close> are written out. Of \<open>test1.webm\<close> only the first element is used here.
\<close>

section \<open>src/ebml.rs\<close>

abbreviation test_rt :: rt where
  "test_rt \<equiv> reference_rt True"

definition fail_corrupted_varints :: bool where
  "fail_corrupted_varints \<longleftrightarrow>
    decode_varint [0] = Err CorruptVarint \<and>
    decode_varint [0, 0, 0] = Err CorruptVarint"

definition incomplete_varints :: bool where
  "incomplete_varints \<longleftrightarrow>
    decode_varint [] = Ok None \<and>
    decode_varint [0x40] = Ok None \<and>
    decode_varint [0x01, 0, 0] = Ok None"

definition parse_varints :: bool where
  "parse_varints \<longleftrightarrow>
    decode_varint [0xFF] = Ok (Some (Unknown, 1)) \<and>
    decode_varint [0x7F, 0xFF] = Ok (Some (Unknown, 2)) \<and>
    decode_varint [0x80] = Ok (Some (Value 0, 1)) \<and>
    decode_varint [0x81] = Ok (Some (Value 1, 1)) \<and>
    decode_varint [0x40, 52] = Ok (Some (Value 52, 2)) \<and>
    decode_varint [0x83, 0x11] = Ok (Some (Value 3, 1))"

text \<open>Written into a growing buffer, from which the test splits the bytes off again.\<close>

definition encodes :: "varint \<Rightarrow> bytes \<Rightarrow> bool" where
  "encodes v out \<longleftrightarrow>
    (encode_varint test_rt vec_writer v (cursor_new []) :: cursor \<times> (write_error io_error, unit) outcome) =
      (filled out, Ok ())"

definition fails_with :: "(cursor, write_error) writer \<Rightarrow> nat \<Rightarrow> error_kind \<Rightarrow> varint \<Rightarrow> bool" where
  "fails_with W space k v \<longleftrightarrow>
    (case snd (encode_varint test_rt W v (cursor_new (replicate space 0))) of
       Err e \<Rightarrow> kind e = k
     | _ \<Rightarrow> False)"

abbreviation no_space :: "varint \<Rightarrow> bool" where
  "no_space \<equiv> fails_with slice_writer 0 WriteZero"

definition encode_varints :: bool where
  "encode_varints \<longleftrightarrow>
    encodes Unknown [0xFF] \<and> no_space Unknown \<and>
    encodes (Value 0) [0x80] \<and> no_space (Value 0) \<and>
    encodes (Value 1) [0x81] \<and> no_space (Value 1) \<and>
    encodes (Value 126) [0xF0 OR 126] \<and> no_space (Value 126) \<and>
    encodes (Value 127) [0x40, 127] \<and> no_space (Value 127) \<and>
    encodes (Value 128) [0x40, 128] \<and> no_space (Value 128) \<and>
    encode_varint test_rt slice_writer (Value 0x03FFFFFFFFFE) (cursor_new (replicate 6 0)) =
      (filled [0x07, 0xFF, 0xFF, 0xFF, 0xFF, 0xFE], (Ok () :: (write_error io_error, unit) outcome)) \<and>
    encodes (Value 0x03FFFFFFFFFF) [0x02, 0x03, 0xFF, 0xFF, 0xFF, 0xFF, 0xFF] \<and>
    encodes (Value 0x01000000000000) [0x03, 0x00, 0x00, 0x00, 0x00, 0x00, 0x00] \<and>
    encodes (Value 0x01FFFFFFFFFFFE) [0x03, 0xFF, 0xFF, 0xFF, 0xFF, 0xFF, 0xFE] \<and>
    no_space (Value 0x01FFFFFFFFFFFE) \<and>
    fails_with slice_writer 6 WriteZero (Value 0x01FFFFFFFFFFFE) \<and>
    encodes (Value 0x01FFFFFFFFFFFF) [0x01, 0x01, 0xFF, 0xFF, 0xFF, 0xFF, 0xFF, 0xFF] \<and>
    encodes (Value 0xFFFFFFFFFFFFFE) [0x01, 0xFF, 0xFF, 0xFF, 0xFF, 0xFF, 0xFF, 0xFE] \<and>
    fails_with vec_writer 0 InvalidInput (Value 0xFFFFFFFFFFFFFF) \<and>
    fails_with vec_writer 0 InvalidInput (Value (- 1))"

definition fail_corrupted_tags :: bool where
  "fail_corrupted_tags \<longleftrightarrow>
    decode_tag [0] = Err CorruptVarint \<and>
    decode_tag [0x80, 0] = Err CorruptVarint \<and>
    decode_tag [0xFF, 0x80] = Err UnknownElementId \<and>
    decode_tag [0x7F, 0xFF, 0x40, 0] = Err UnknownElementId"

definition incomplete_tags :: bool where
  "incomplete_tags \<longleftrightarrow>
    decode_tag [] = Ok None \<and>
    decode_tag [0x80] = Ok None \<and>
    decode_tag [0x40, 0, 0x40] = Ok None"

definition parse_tags :: bool where
  "parse_tags \<longleftrightarrow>
    decode_tag [0x80, 0x80] = Ok (Some (0, Value 0, 2)) \<and>
    decode_tag [0x81, 0x85] = Ok (Some (1, Value 5, 2)) \<and>
    decode_tag [0x80, 0xFF] = Ok (Some (0, Unknown, 2)) \<and>
    decode_tag [0x80, 0x7F, 0xFF] = Ok (Some (0, Unknown, 3)) \<and>
    decode_tag [0x85, 0x40, 52] = Ok (Some (5, Value 52, 3))"

definition bad_uints :: bool where
  "bad_uints \<longleftrightarrow>
    decode_uint test_rt [] = Err CorruptPayload \<and>
    decode_uint test_rt (replicate 9 0) = Err CorruptPayload"

definition parse_uints :: bool where
  "parse_uints \<longleftrightarrow>
    decode_uint test_rt [0] = Ok 0 \<and>
    decode_uint test_rt (replicate 8 0) = Ok 0 \<and>
    decode_uint test_rt [1] = Ok 1 \<and>
    decode_uint test_rt [0, 0, 0, 0, 0, 0, 0, 1] = Ok 1 \<and>
    decode_uint test_rt [38] = Ok 38 \<and>
    decode_uint test_rt [0, 0, 0, 0, 0, 0, 0, 38] = Ok 38 \<and>
    decode_uint test_rt [0x7F, 0xFF, 0xFF, 0xFF, 0xFF, 0xFF, 0xFF, 0xFF] = Ok 9223372036854775807 \<and>
    decode_uint test_rt [0x80, 0, 0, 0, 0, 0, 0, 0] = Ok 9223372036854775808 \<and>
    decode_uint test_rt [0x80, 0, 0, 0, 0, 0, 0, 1] = Ok 9223372036854775809"

lemma decode_varint_tests: fail_corrupted_varints incomplete_varints parse_varints
  by code_simp+

lemma decode_tag_tests: fail_corrupted_tags incomplete_tags parse_tags
  by code_simp+

lemma decode_uint_tests: bad_uints parse_uints
proof -
  have "replicate 8 (0 :: u8) = [0, 0, 0, 0, 0, 0, 0, 0]" by (simp add: eval_nat_numeral)
  then show bad_uints parse_uints
    by (simp_all add: bad_uints_def parse_uints_def reference.decode_uint_eq be_val_def)
qed

lemma vec_write_filled: "write_all vec_writer out (filled bs) = (filled (bs @ out), Ok ())"
  by (simp add: vec_writer_def vec_write_all_def filled_def overwrite_def)

lemma encodes_iff:
  "v \<le> EIGHT_MAX \<Longrightarrow> encodes (Value v) out \<longleftrightarrow> sized_varint (varint_size (unat v)) (unat v) = out"
  by (simp add: encodes_def reference.encode_varint_eq encodable.simps varint_bytes.simps vec_write_filled)
    (auto simp: filled_def)

lemma slice_write_fails:
  "length bs < length out \<Longrightarrow>
    snd (write_all slice_writer out (cursor_new bs)) = Err (MkIoError WriteZero None)"
  by (simp add: slice_writer_def slice_write_all_def cursor_new_def Let_def)

lemma fails_with_WriteZero:
  "v \<le> EIGHT_MAX \<Longrightarrow> n < varint_size (unat v) \<Longrightarrow> fails_with slice_writer n WriteZero (Value v)"
  by (simp add: fails_with_def reference.encode_varint_eq encodable.simps varint_bytes.simps slice_write_fails)

lemma encode_varint_tests: encode_varints
proof -
  have unknown: "encodes Unknown [0xFF]" "no_space Unknown"
    by (simp_all add: encodes_def fails_with_def reference.encode_varint_eq encodable.simps varint_bytes.simps
        vec_write_filled slice_write_fails [of "[]", simplified])
  have six: "encode_varint test_rt slice_writer (Value 0x03FFFFFFFFFE) (cursor_new (replicate 6 0)) =
      (filled [0x07, 0xFF, 0xFF, 0xFF, 0xFF, 0xFE], (Ok () :: (write_error io_error, unit) outcome))"
    by (simp add: reference.encode_varint_eq encodable.simps varint_bytes.simps EIGHT_MAX_eq varint_size_def
        sized_varint_def be_list_numeral slice_writer_def slice_write_all_def cursor_new_def filled_def overwrite_def Let_def)
  have large: "fails_with vec_writer 0 InvalidInput (Value v)" if "EIGHT_MAX < v" for v
    using that by (simp add: fails_with_def encode_varint_Err encodable.simps out_of_range_def)
  show ?thesis
    unfolding encode_varints_def
    by (intro conjI unknown six large; simp add: encodes_iff fails_with_WriteZero EIGHT_MAX_eq varint_size_def
        sized_varint_def be_list_numeral)
qed

text \<open>The generic element of the last test; \<open>rest\<close> is what follows in the file.\<close>

definition generic_element :: "(u64 \<times> nat) from_ebml" where
  "generic_element =
    \<lparr>should_unwrap = (\<lambda>_. False), decode = (\<lambda>element_id bytes. Ok (element_id, length bytes))\<rparr>"

definition test_file_start :: bytes where
  "test_file_start =
    [0x1A, 0x45, 0xDF, 0xA3, 0x01, 0x00, 0x00, 0x00, 0x00, 0x00, 0x00, 0x1F, 0x42, 0x86, 0x81, 0x01,
     0x42, 0xF7, 0x81, 0x01, 0x42, 0xF2, 0x81, 0x04, 0x42, 0xF3, 0x81, 0x08, 0x42, 0x82, 0x84, 0x77,
     0x65, 0x62, 0x6D, 0x42, 0x87, 0x81, 0x02, 0x42, 0x85, 0x81, 0x02]"

definition decode_sanity_test :: "bytes \<Rightarrow> bool" where
  "decode_sanity_test rest \<longleftrightarrow>
    decode_element generic_element (test_file_start @ rest) = Ok (Some ((0x0A45DFA3, 31), 43))"

lemma decode_sanity: "decode_sanity_test rest"
proof -
  have start: "decode_element generic_element test_file_start = Ok (Some ((0x0A45DFA3, 31), 43))"
    by code_simp
  then show ?thesis
    using decode_element_append [of generic_element test_file_start rest]
    unfolding decode_sanity_test_def by simp
qed

section \<open>src/webm.rs\<close>

definition encode_webm_test_file :: bytes where
  "encode_webm_test_file =
    [0x1A, 0x45, 0xDF, 0xA3, 0x10, 0x00, 0x00, 0x07, 0x42, 0x82, 0x84, 0x77, 0x65, 0x62, 0x6D,
     0x18, 0x53, 0x80, 0x67, 0xFF, 0x16, 0x54, 0xAE, 0x6B, 0x80,
     0x1F, 0x43, 0xB6, 0x75, 0xFF, 0xE7, 0x88, 0x00, 0x00, 0x00, 0x00, 0x00, 0x00, 0x00, 0x00,
     0xA3, 0x90, 0x83, 0x00, 0x7B, 0x00, 0x48, 0x65, 0x6C, 0x6C, 0x6F, 0x2C, 0x20, 0x57, 0x6F, 0x72,
     0x6C, 0x64,
     0x1F, 0x43, 0xB6, 0x75, 0xFF, 0xE7, 0x88, 0x00, 0x00, 0x00, 0x00, 0x00, 0x00, 0x03, 0xE8]"

definition hello_block :: simple_block where
  "hello_block = \<lparr>track = 3, timecode = 123, flags = 0,
    data = [0x48, 0x65, 0x6C, 0x6C, 0x6F, 0x2C, 0x20, 0x57, 0x6F, 0x72, 0x6C, 0x64]\<rparr>"

definition test_elements :: "webm_element list" where
  "test_elements = [EbmlHead, Segment, Tracks [], Cluster, Timecode 0, SimpleBlock hello_block,
    Cluster, Timecode 1000]"

text \<open>The calls of the test one after the other, each unwrapped.\<close>

fun encode_sequence :: "rt \<Rightarrow> webm_element list \<Rightarrow> cursor \<Rightarrow> cursor option" where
  "encode_sequence E [] c = Some c"
| "encode_sequence E (el # els) c =
    (case encode_webm_element E vec_writer el c of
       (c, Ok _) \<Rightarrow> encode_sequence E els c
     | _ \<Rightarrow> None)"

definition encode_webm_test :: bool where
  "encode_webm_test \<longleftrightarrow>
    map_option get_ref (encode_sequence test_rt test_elements (cursor_new [])) = Some encode_webm_test_file"

lemma test_elements_forwardable: "well_timed test_elements"
  by (simp add: test_elements_def well_timed_def hello_block_def word_le_nat_alt)

lemmas element_eval = hello_block_def element_bytes_def tag_header_bytes_def block_bytes_def
  patched_element_bytes_def webm_doc_type_def varint_bytes.simps varint_size_def sized_varint_def
  be_list_numeral varint_4_bytes.simps id_defs

lemma test_elements_bytes: "written_bytes test_elements = encode_webm_test_file"
  by (simp add: test_elements_def element_eval encode_webm_test_file_def)

lemma test_elements_kept: "kept test_elements = test_elements"
  by (simp add: test_elements_def element_eval)

context big_endian
begin

lemma encode_sequence_filled:
  assumes "\<And>el. el \<in> set els \<Longrightarrow> writable el" "length bs + length (written_bytes els) < 2 ^ 64"
  shows "encode_sequence E els (filled bs) = Some (filled (bs @ written_bytes els))"
  using assms
proof (induction els arbitrary: bs)
  case (Cons el els)
  then have "encode_webm_element E vec_writer el (filled bs) =
      (filled (bs @ webm_bytes el), Ok () :: (write_error io_error, unit) outcome)"
    by (intro encode_vec) simp_all
  with Cons show ?case by simp
qed simp

end

lemma encode_webm: encode_webm_test
proof -
  have "writable el" if "el \<in> set test_elements" for el
    using that by (auto simp: test_elements_def hello_block_def word_le_nat_alt)
  moreover have "length [] + length (written_bytes test_elements) < 2 ^ 64"
    by (subst test_elements_bytes) (simp add: encode_webm_test_file_def)
  ultimately have "encode_sequence test_rt test_elements (filled []) =
      Some (filled ([] @ written_bytes test_elements))"
    by (rule reference.encode_sequence_filled)
  then show ?thesis
    by (simp add: encode_webm_test_def test_elements_bytes)
qed

section \<open>src/stream_parser.rs\<close>

definition test_pieces :: "'e source" where
  "test_pieces =
    [SourceData (take 20 encode_webm_test_file), SourceData (take 20 (drop 20 encode_webm_test_file)),
     SourceData (drop 40 encode_webm_test_file)]"

definition test_parser :: "unit webmetro_error parser" where
  "test_parser = parse_ebml test_pieces"

fun poll_results :: "nat \<Rightarrow> 'e webmetro_error parser \<Rightarrow> ('e webmetro_error, webm_element) outcome option poll list" where
  "poll_results 0 p = []"
| "poll_results (Suc n) p =
    (case poll_event (webm_from_ebml test_rt) (\<lambda>e. e) p of (p, r) \<Rightarrow> r # poll_results n p)"

fun next_results :: "nat \<Rightarrow> 'e webmetro_error parser \<Rightarrow> ('e webmetro_error, webm_element option) outcome list" where
  "next_results 0 p = []"
| "next_results (Suc n) p =
    (case next_event (webm_from_ebml test_rt) (\<lambda>e. e) p of (p, r) \<Rightarrow> r # next_results n p)"

text \<open>The patterns both tests match the results against.\<close>

definition expected_events :: "(webm_element \<Rightarrow> bool) list" where
  "expected_events =
    [(=) EbmlHead, (=) Segment, \<lambda>el. \<exists>bs. el = Tracks bs, (=) Cluster, (=) (Timecode 0),
     \<lambda>el. \<exists>b. el = SimpleBlock b, (=) Cluster, (=) (Timecode 1000)]"

definition stream_webm_test :: bool where
  "stream_webm_test \<longleftrightarrow>
    list_all2 (\<lambda>p r. \<exists>el. r = Ready (Some (Ok el)) \<and> p el) expected_events (poll_results 8 test_parser)"

definition async_webm_test :: bool where
  "async_webm_test \<longleftrightarrow>
    list_all2 (\<lambda>p r. \<exists>el. r = Ok (Some el) \<and> p el) expected_events (next_results 8 test_parser)"

lemma poll_event_ready:
  "set (stream p) \<subseteq> range SourceData \<Longrightarrow> poll_event F cv p = (p', r) \<Longrightarrow> r \<noteq> Pending"
proof (induction F cv p arbitrary: p' r rule: poll_event.induct)
  case (1 F cv p)
  show ?case
  proof (cases "check_space F (buffer p) = Ok None \<and> \<not> limit_reached p")
    case False
    with "1.prems"(2) show ?thesis
      by (subst (asm) poll_event.simps)
        (auto simp: take_element_eq split: outcome.splits option.splits if_splits prod.splits)
  next
    case True
    show ?thesis
    proof (cases "stream p" rule: poll_source_cases)
      case (data d s')
      with True "1.prems"(2) have "poll_event F cv (p\<lparr>stream := s', buffer := buffer p @ d\<rparr>) = (p', r)"
        by (simp add: poll_event.simps [of F cv p])
      with "1.IH" True data "1.prems"(1) show ?thesis by auto
    qed (use True "1.prems" in \<open>auto simp: poll_event.simps [of F cv p]\<close>)
  qed
qed

text \<open>What a number of polls returns, where nothing is pending.\<close>

lemma poll_results_whole:
  fixes p :: "'e webmetro_error parser"
  assumes "buffer_size_limit p = None" "set (stream p) \<subseteq> range SourceData"
    and "whole_events (webm_from_ebml test_rt) (input p) = (els @ rest, r)" "n = length els"
  shows "poll_results n p = map (\<lambda>el. Ready (Some (Ok el))) els \<and>
    next_results n p = map (\<lambda>el. Ok (Some el)) els"
  using assms
proof (induction els arbitrary: p n)
  case (Cons el els)
  let ?F = "webm_from_ebml test_rt"
  obtain p' x where poll: "poll_event ?F (\<lambda>e. e) p = (p', x)"
    by (cases "poll_event ?F (\<lambda>e. e) p")
  obtain k where k: "decode_element ?F (input p) = Ok (Some (el, k))"
    "whole_events ?F (drop k (input p)) = (els @ rest, r)"
    using Cons.prems(3) by (subst (asm) whole_events.simps)
      (auto split: outcome.splits option.splits prod.splits)
  have "x \<noteq> Pending" using poll_event_ready [OF Cons.prems(2) poll] .
  then have x: "x = Ready (Some (Ok el))" "input p' = drop k (input p)"
    using poll_event_sound [OF poll] k(1) Cons.prems(1,2)
    by (auto simp: event_sound_def split: poll.splits option.splits outcome.splits)
  have frame: "buffer_size_limit p' = None" "set (stream p') \<subseteq> range SourceData"
    using poll_event_frame [OF poll] Cons.prems(1,2) by auto
  have "next_event ?F (\<lambda>e. e) p = (p', Ok (Some el))"
    using next_event_poll [of ?F "\<lambda>e. e" p] poll x(1) by simp
  with Cons.IH [OF frame, of "length els"] k(2) x poll Cons.prems(4) show ?case by simp
qed simp

lemma test_pieces_input: "input test_parser = encode_webm_test_file"
  unfolding test_parser_def test_pieces_def parse_ebml_def input_def
  by (simp add: encode_webm_test_file_def)

lemma stream_tests: stream_webm_test async_webm_test
proof -
  let ?p = "test_parser"
  have "whole_events (webm_from_ebml test_rt) (input ?p) = (test_elements @ [], Ok ())"
    using reference.whole_events_written [OF test_elements_forwardable, of True "[]"]
    by (simp add: test_pieces_input test_elements_bytes test_elements_kept)
  moreover have "set (stream ?p) \<subseteq> range SourceData" "buffer_size_limit ?p = None"
    by (simp_all add: test_parser_def test_pieces_def parse_ebml_def)
  ultimately have "poll_results 8 ?p = map (\<lambda>el. Ready (Some (Ok el))) test_elements \<and>
      next_results 8 ?p = map (\<lambda>el. Ok (Some el)) test_elements"
    by (intro poll_results_whole [where rest = "[]" and r = "Ok ()"]) (simp_all add: test_elements_def)
  then show stream_webm_test async_webm_test
    by (simp_all add: stream_webm_test_def async_webm_test_def expected_events_def test_elements_def)
qed

section \<open>src/chunk.rs\<close>

definition enough_space_for_header :: bool where
  "enough_space_for_header \<longleftrightarrow> (cluster_head_new test_rt (- 1) :: (unit, cluster_head) outcome) \<noteq> Panic"

lemma header_space: enough_space_for_header
  by (simp add: enough_space_for_header_def reference.cluster_head_new_eq)

end
