(* ===== verification/Test_File.thy ===== *)
theory Test_File
  imports Unit_Tests Iterator
begin

text \<open>
  The test \<open>decode_webm_test1\<close>, which walks through the file \<open>test1.webm\<close> of 56179 bytes.
  Of the file only the bytes the decoder looks at are written out; the others, the contents
  of frames and of skipped elements, are given by a function of their position. The test
  holds whatever they are.
\<close>

section \<open>The file\<close>

text \<open>A part of a file: bytes that are written out, and the number of bytes that follow.\<close>

type_synonym part = "bytes \<times> nat"

definition filler :: "(nat \<Rightarrow> u8) \<Rightarrow> nat \<Rightarrow> nat \<Rightarrow> bytes" where
  "filler content pos n = map content [pos ..< pos + n]"

fun assemble :: "(nat \<Rightarrow> u8) \<Rightarrow> nat \<Rightarrow> part list \<Rightarrow> bytes" where
  "assemble content pos [] = []"
| "assemble content pos ((h, n) # ps) =
    h @ filler content (pos + length h) n @ assemble content (pos + length h + n) ps"

definition parts_size :: "part list \<Rightarrow> nat" where
  "parts_size ps = sum_list (map (\<lambda>(h, n). length h + n) ps)"

text \<open>A block of so many bytes, on track 1.\<close>

definition block_part :: "nat \<times> u8 \<times> nat \<Rightarrow> part" where
  "block_part = (\<lambda>(tc, fl, n).
    ([0xA3] @ (if n < 127 then [of_nat (0x80 + n)] else [of_nat (0x40 + n div 256), of_nat (n mod 256)]) @
     [0x81, of_nat (tc div 256), of_nat (tc mod 256), fl], n - 4))"

text \<open>The clusters have blocks at the same times, of which the first is a keyframe.\<close>

definition test1_times :: "nat list" where
  "test1_times =
    [0, 33, 67, 100, 133, 167, 200, 233, 267, 300, 333, 367, 400, 433, 467, 500, 533, 567, 600,
     633, 667, 700, 733, 767, 800, 833, 867, 900, 933, 967]"

definition blocks_of_sizes :: "nat list \<Rightarrow> part list" where
  "blocks_of_sizes ns = map block_part (zip test1_times (zip (0x80 # replicate 29 0) ns))"

text \<open>The sizes of the blocks in each cluster.\<close>

definition first_blocks :: "nat list" where
  "first_blocks =
    [3244, 1049, 64, 131, 115, 120, 127, 103, 117, 121, 23, 945, 169, 159, 176, 162, 172, 168,
     197, 261, 25, 2589, 280, 320, 370, 384, 345, 408, 447, 430]"

definition second_blocks :: "nat list" where
  "second_blocks =
    [4310, 1487, 481, 316, 524, 382, 529, 362, 475, 425, 58, 2239, 473, 338, 521, 343, 423, 254,
     391, 520, 27, 2456, 388, 573, 386, 536, 447, 498, 418, 391]"

definition third_blocks :: "nat list" where
  "third_blocks =
    [5044, 1639, 470, 359, 553, 419, 497, 459, 502, 488, 89, 2506, 478, 327, 538, 353, 460, 251,
     397, 503, 23, 654, 484, 717, 480, 580, 428, 487, 455, 556]"

definition test1_parts :: "part list" where
  "test1_parts =
    [([0x1A, 0x45, 0xDF, 0xA3, 0x01, 0, 0, 0, 0, 0, 0, 0x1F], 31),
     ([0x18, 0x53, 0x80, 0x67, 0x01, 0, 0, 0, 0, 0, 0xDB, 0x3C], 0),
     ([0x11, 0x4D, 0x9B, 0x74, 0x40, 0x2C], 44),
     ([0xEC, 0x01, 0, 0, 0, 0, 0, 0, 0xAA], 170),
     ([0x15, 0x49, 0xA9, 0x66, 0x01, 0, 0, 0, 0, 0, 0, 0x32], 50),
     ([0x16, 0x54, 0xAE, 0x6B, 0x01, 0, 0, 0, 0, 0, 0, 0x3F], 63),
     ([0x1F, 0x43, 0xB6, 0x75, 0x01, 0, 0, 0, 0, 0, 0x33, 0xFA], 0),
     ([0xE7, 0x81, 0x00], 0)] @
    blocks_of_sizes first_blocks @
    [([0x1F, 0x43, 0xB6, 0x75, 0x01, 0, 0, 0, 0, 0, 0x52, 0x47], 0),
     ([0xE7, 0x82, 0x03, 0xE8], 0)] @
    blocks_of_sizes second_blocks @
    [([0x1F, 0x43, 0xB6, 0x75, 0x01, 0, 0, 0, 0, 0, 0x53, 0x28], 0),
     ([0xE7, 0x82, 0x07, 0xD0], 0)] @
    blocks_of_sizes third_blocks @
    [([0x1C, 0x53, 0xBB, 0x6B, 0x01, 0, 0, 0, 0, 0, 0, 0x35], 53)]"

definition test1_webm :: "(nat \<Rightarrow> u8) \<Rightarrow> bytes" where
  "test1_webm content = assemble content 0 test1_parts"

section \<open>The test\<close>

text \<open>What the first calls of \<open>next\<close> return.\<close>

fun iter_results :: "'a from_ebml \<Rightarrow> nat \<Rightarrow> bytes \<Rightarrow> 'a option list" where
  "iter_results F 0 src = []"
| "iter_results F (Suc n) src =
    (case ebml_next F src of
       Ok (rest, r) \<Rightarrow> r # iter_results F n rest
     | _ \<Rightarrow> [])"

text \<open>The assertions of the test; between them it skips events.\<close>

definition file_slice :: "bytes \<Rightarrow> nat \<Rightarrow> nat \<Rightarrow> bytes" where
  "file_slice file lo hi = take (hi - lo) (drop lo file)"

definition decode_webm_test1 :: "bytes \<Rightarrow> bool" where
  "decode_webm_test1 file \<longleftrightarrow>
    (let results = iter_results (webm_from_ebml test_rt) 104 file in
     take 11 results =
       [Some EbmlHead, Some Segment, Some SeekHead, Some Void, Some Info,
        Some (Tracks (file_slice file 358 421)), Some Cluster, Some (Timecode 0),
        Some (SimpleBlock \<lparr>track = 1, timecode = 0, flags = 0x80, data = file_slice file 443 3683\<rparr>),
        Some (SimpleBlock \<lparr>track = 1, timecode = 33, flags = 0, data = file_slice file 3690 4735\<rparr>),
        Some (SimpleBlock \<lparr>track = 1, timecode = 67, flags = 0, data = file_slice file 4741 4801\<rparr>)] \<and>
     take 2 (drop 38 results) = [Some Cluster, Some (Timecode 1000)] \<and>
     take 2 (drop 70 results) = [Some Cluster, Some (Timecode 2000)] \<and>
     drop 102 results = [Some Cues, None])"

section \<open>It holds\<close>

lemma length_filler [simp]: "length (filler content pos n) = n"
  by (simp add: filler_def)

lemma parts_size_simps [simp]:
  "parts_size [] = 0" "parts_size ((h, n) # ps) = length h + n + parts_size ps"
  by (simp_all add: parts_size_def)

lemma length_assemble: "length (assemble content pos ps) = parts_size ps"
  by (induction content pos ps rule: assemble.induct) simp_all

lemma assemble_append:
  "assemble content pos (ps @ qs) = assemble content pos ps @ assemble content (pos + parts_size ps) qs"
  by (induction content pos ps rule: assemble.induct) (simp_all add: add.assoc)

text \<open>The bytes that follow the head of a part.\<close>

lemma assemble_slice:
  assumes "ps ! i = (h, n)" "i < length ps" "lo = parts_size (take i ps) + length h" "hi = lo + n"
  shows "file_slice (assemble content 0 ps) lo hi = filler content lo n"
proof -
  have "ps = take i ps @ (h, n) # drop (Suc i) ps"
    using id_take_nth_drop [OF assms(2)] assms(1) by simp
  then have "assemble content 0 ps = assemble content 0 (take i ps @ (h, n) # drop (Suc i) ps)"
    by simp
  then show ?thesis
    by (simp add: file_slice_def assemble_append length_assemble assms(3,4))
qed

text \<open>A part that is one element, the bytes that follow being data only.\<close>

fun part_ok :: "part \<Rightarrow> bool" where
  "part_ok (h, n) \<longleftrightarrow>
    (case decode_tag h of
       Ok (Some (eid, len, k)) \<Rightarrow>
         k \<le> length h \<and>
         (if webm_should_unwrap eid then n = 0 \<and> k = length h
          else (case len of Value v \<Rightarrow> k + unat v = length h + n | Unknown \<Rightarrow> False)) \<and>
         (eid = TIMECODE_ID \<longrightarrow> n = 0 \<and> k < length h \<and> length h \<le> k + 8) \<and>
         (eid = SIMPLE_BLOCK_ID \<longrightarrow> length h = k + 4 \<and> h ! k = 0x81)
     | _ \<Rightarrow> False)"

definition part_event :: "part \<Rightarrow> bytes \<Rightarrow> (ebml_error, webm_element) outcome" where
  "part_event p d =
    (case decode_tag (fst p) of
       Ok (Some (eid, _, k)) \<Rightarrow> webm_decode test_rt eid (drop k (fst p) @ d)
     | _ \<Rightarrow> Panic)"

lemma decode_block_head:
  "decode_simple_block test_rt (0x81 # a # b # f # d) =
    Ok (SimpleBlock \<lparr>track = 1, timecode = of_nat (be_val [a, b]), flags = f, data = d\<rparr>)"
proof -
  have "decode_varint ([0x81] @ a # b # f # d) = Ok (Some (Value 1, 1))"
    by (rule decode_varint_append) code_simp
  then show ?thesis
    by (simp add: decode_simple_block_def Let_def slice_from_def index_def reference.read_i16)
qed

lemma part_decoded:
  assumes "part_ok (h, n)" "length d = n"
  shows "\<exists>el. part_event (h, n) d = Ok el \<and>
    decode_element (webm_from_ebml test_rt) (h @ d @ rest) = Ok (Some (el, length h + n))"
proof -
  let ?F = "webm_from_ebml test_rt"
  obtain eid len k where tag: "decode_tag h = Ok (Some (eid, len, k))" "k \<le> length h"
    using assms(1) by (auto split: outcome.splits option.splits)
  have "payload_size (webm_should_unwrap eid) len = Ok (length h + n - k)"
    using assms(1) tag by (cases len) (auto split: if_splits)
  then have space: "check_space ?F (h @ d @ rest) =
      Ok (Some \<lparr>element_id = eid, body_offset = k, element_len = length h + n\<rparr>)"
    using decode_tag_append_Some [OF tag(1), of "d @ rest"] tag(2) assms(2)
    by (simp add: check_space_Some_iff webm_from_ebml_def)
  have body: "take (length h + n - k) (drop k (h @ d @ rest)) = drop k h @ d"
    using tag(2) assms(2) by simp
  have "\<exists>el. webm_decode test_rt eid (drop k h @ d) = Ok el"
  proof (cases "eid = SIMPLE_BLOCK_ID")
    case True
    with assms(1) tag have "length (drop k h) = 4" "drop k h ! 0 = 0x81" by auto
    moreover have "\<exists>a b f. xs = [x, a, b, f]" if "length xs = 4" "xs ! 0 = x" for xs and x :: u8
      using that by (auto simp: numeral_eq_Suc length_Suc_conv)
    ultimately obtain a b f where "drop k h = [0x81, a, b, f]" by blast
    with True show ?thesis by (simp add: webm_decode_def decode_block_head id_defs)
  next
    case False
    with assms tag show ?thesis
      by (auto simp: webm_decode_def reference.decode_uint_eq)
  qed
  with tag(1) space body show ?thesis
    by (auto simp: part_event_def decode_element_eq webm_from_ebml_def)
qed

text \<open>The events of a file, and what iterating over it returns.\<close>

fun parts_events :: "(nat \<Rightarrow> u8) \<Rightarrow> nat \<Rightarrow> part list \<Rightarrow> (ebml_error, webm_element) outcome list" where
  "parts_events content pos [] = []"
| "parts_events content pos ((h, n) # ps) =
    part_event (h, n) (filler content (pos + length h) n) # parts_events content (pos + length h + n) ps"

fun event_option :: "(ebml_error, webm_element) outcome \<Rightarrow> webm_element option" where
  "event_option (Ok el) = Some el"
| "event_option _ = None"

lemma iter_results_parts:
  "list_all part_ok ps \<Longrightarrow>
    iter_results (webm_from_ebml test_rt) (length ps + m) (assemble content pos ps) =
    map event_option (parts_events content pos ps) @ iter_results (webm_from_ebml test_rt) m []"
proof (induction content pos ps rule: parts_events.induct)
  case (2 content pos h n ps)
  let ?d = "filler content (pos + length h) n" and ?rest = "assemble content (pos + length h + n) ps"
  obtain el where el: "part_event (h, n) ?d = Ok el"
    "decode_element (webm_from_ebml test_rt) (h @ ?d @ ?rest) = Ok (Some (el, length h + n))"
    using part_decoded [of h n ?d ?rest] "2.prems" by auto
  then have "ebml_next (webm_from_ebml test_rt) (h @ ?d @ ?rest) = Ok (?rest, Some el)"
    by (simp add: ebml_next_Some_iff)
  with 2 el(1) show ?case by simp
qed simp

lemma parts_events_append:
  "parts_events content pos (ps @ qs) =
    parts_events content pos ps @ parts_events content (pos + parts_size ps) qs"
  by (induction content pos ps rule: parts_events.induct) (simp_all add: add.assoc)

lemma length_parts_events [simp]: "length (parts_events content pos ps) = length ps"
  by (induction content pos ps rule: parts_events.induct) simp_all

lemma parts_events_nth:
  assumes "i < length ps" "ps ! i = (h, n)"
  shows "parts_events content 0 ps ! i =
    part_event (h, n) (filler content (parts_size (take i ps) + length h) n)"
proof -
  have "parts_events content 0 ps = parts_events content 0 (take i ps @ (h, n) # drop (Suc i) ps)"
    using id_take_nth_drop [OF assms(1)] assms(2) by simp
  with assms(1) show ?thesis by (simp add: parts_events_append nth_append)
qed

text \<open>Blocks are parts of this kind.\<close>

lemma sized_varint_2: "sized_varint 2 n = [of_nat (0x40 + n div 256), of_nat (n mod 256)]"
proof -
  have "(2 ^ (7 * 2) + n) div 256 = 0x40 + n div 256" by simp
  moreover have "(of_nat (2 ^ (7 * 2) + n) :: u8) = of_nat (n mod 256)"
    by (subst word_unat_eq_iff) (simp add: unat_of_nat mod_add_eq [symmetric] del: of_nat_add)
  ultimately show ?thesis
    by (simp only: sized_varint_def be_list_2)
qed

lemma block_part_tag:
  assumes "4 \<le> n" "n < 0x3FFF"
  shows "decode_tag (fst (block_part (tc, fl, n))) =
    Ok (Some (SIMPLE_BLOCK_ID, Value (of_nat n), if n < 127 then 2 else 3))"
proof -
  define size where "size = (if n < 127 then [of_nat (0x80 + n)] else [of_nat (0x40 + n div 256), of_nat (n mod 256)] :: bytes)"
  define k :: nat where "k = (if n < 127 then 1 else 2)"
  have "size = sized_varint k n"
    using sized_varint_2 [of n] by (simp add: size_def k_def sized_varint_def)
  then have len: "decode_varint (size @ xs) = Ok (Some (Value (of_nat n), k))" for xs
    using decode_sized_varint [of k n xs] assms by (auto simp: k_def)
  have "decode_varint ([0xA3] @ xs) = Ok (Some (Value SIMPLE_BLOCK_ID, 1))" for xs
    by (rule decode_varint_append) code_simp
  then have "decode_tag ([0xA3] @ size @ xs) = Ok (Some (SIMPLE_BLOCK_ID, Value (of_nat n), 1 + k))" for xs
    using len by (auto simp: decode_tag_Some_iff)
  from this [of "[0x81, of_nat (tc div 256), of_nat (tc mod 256), fl]"] show ?thesis
    by (simp add: block_part_def size_def k_def split: if_splits)
qed

lemma block_part_ok:
  assumes "4 \<le> n" "n < 0x3FFF"
  shows "part_ok (block_part (tc, fl, n))"
  using block_part_tag [OF assms, of tc fl] assms
  by (simp add: block_part_def unat_of_nat webm_should_unwrap_def id_defs) arith

lemma blocks_of_sizes_ok:
  "list_all (\<lambda>n. 4 \<le> n \<and> n < 0x3FFF) ns \<Longrightarrow> list_all part_ok (blocks_of_sizes ns)"
  by (auto simp: blocks_of_sizes_def list_all_iff dest!: set_zip_rightD intro: block_part_ok)


lemmas read_heads = decode_tag_def decode_varint_spec varint_spec_def be_val_def varint_length_def
  word_le_nat_alt slice_from_def webm_should_unwrap_def id_defs

lemma blocks_ok [simp]:
  "list_all part_ok (blocks_of_sizes first_blocks)"
  "list_all part_ok (blocks_of_sizes second_blocks)"
  "list_all part_ok (blocks_of_sizes third_blocks)"
  by (rule blocks_of_sizes_ok; simp add: first_blocks_def second_blocks_def third_blocks_def)+

lemma length_blocks [simp]:
  "length (blocks_of_sizes first_blocks) = 30"
  "length (blocks_of_sizes second_blocks) = 30"
  "length (blocks_of_sizes third_blocks) = 30"
  by (simp_all add: blocks_of_sizes_def test1_times_def first_blocks_def second_blocks_def third_blocks_def)

lemma test1_parts_ok: "list_all part_ok test1_parts"
  by (simp add: test1_parts_def read_heads)

lemma length_test1_parts: "length test1_parts = 103"
  by (simp add: test1_parts_def)

text \<open>What the parts are read as.\<close>

lemma take_parts_events: "take k (parts_events content pos ps) = parts_events content pos (take k ps)"
proof (induction content pos ps arbitrary: k rule: parts_events.induct)
  case (2 content pos h n ps)
  then show ?case by (cases k) simp_all
qed simp

lemma block_part_event:
  assumes "4 \<le> n" "n < 0x3FFF"
  shows "part_event (block_part (tc, fl, n)) d =
    Ok (SimpleBlock \<lparr>track = 1, timecode = of_nat (be_val [of_nat (tc div 256), of_nat (tc mod 256)]),
      flags = fl, data = d\<rparr>)"
  using block_part_tag [OF assms, of tc fl]
  by (simp add: part_event_def block_part_def webm_decode_def decode_block_head id_defs)

lemma first_blocks_parts:
  "take 3 (blocks_of_sizes first_blocks) =
    [block_part (0, 0x80, 3244), block_part (33, 0, 1049), block_part (67, 0, 64)]"
  by (simp add: blocks_of_sizes_def test1_times_def first_blocks_def eval_nat_numeral)


lemma filler_0 [simp]: "filler content pos 0 = []"
  by (simp add: filler_def)

definition test1_events :: "(nat \<Rightarrow> u8) \<Rightarrow> webm_element option list" where
  "test1_events content = map event_option (parts_events content 0 test1_parts)"

lemma test1_results:
  "iter_results (webm_from_ebml test_rt) 104 (test1_webm content) = test1_events content @ [None]"
proof -
  have "ebml_next (webm_from_ebml test_rt) [] = Ok ([], None)" by code_simp
  then show ?thesis
    using iter_results_parts [OF test1_parts_ok, of 1 content 0]
    by (simp add: test1_webm_def test1_events_def length_test1_parts)
qed

lemma test1_starts:
  "take 11 (test1_events content) =
    [Some EbmlHead, Some Segment, Some SeekHead, Some Void, Some Info,
     Some (Tracks (filler content 358 63)), Some Cluster, Some (Timecode 0),
     Some (SimpleBlock \<lparr>track = 1, timecode = 0, flags = 0x80, data = filler content 443 3240\<rparr>),
     Some (SimpleBlock \<lparr>track = 1, timecode = 33, flags = 0, data = filler content 3690 1045\<rparr>),
     Some (SimpleBlock \<lparr>track = 1, timecode = 67, flags = 0, data = filler content 4741 60\<rparr>)]"
  by (simp add: test1_events_def test1_parts_def parts_events_append take_map take_parts_events
      first_blocks_parts part_event_def read_heads webm_decode_def decode_block_head block_part_def
      reference.decode_uint_eq)

lemma test1_clusters:
  "take 2 (drop 38 (test1_events content)) = [Some Cluster, Some (Timecode 1000)]"
  "take 2 (drop 70 (test1_events content)) = [Some Cluster, Some (Timecode 2000)]"
  "drop 102 (test1_events content) = [Some Cues]"
  by (simp_all add: test1_events_def test1_parts_def parts_events_append take_map drop_map
      part_event_def read_heads webm_decode_def reference.decode_uint_eq)

lemma test1_slices:
  "file_slice (test1_webm content) 358 421 = filler content 358 63"
  "file_slice (test1_webm content) 443 3683 = filler content 443 3240"
  "file_slice (test1_webm content) 3690 4735 = filler content 3690 1045"
  "file_slice (test1_webm content) 4741 4801 = filler content 4741 60"
proof -
  have nth: "test1_parts ! 5 = ([0x16, 0x54, 0xAE, 0x6B, 0x01, 0, 0, 0, 0, 0, 0, 0x3F], 63)"
    by (simp add: test1_parts_def)
  have blocks: "test1_parts ! (8 + i) = blocks_of_sizes first_blocks ! i" if "i < 30" for i
    using that by (simp add: test1_parts_def nth_append)
  have first: "blocks_of_sizes first_blocks ! i = take 3 (blocks_of_sizes first_blocks) ! i" if "i < 3" for i
    using that by simp
  have size: "parts_size (take (8 + i) test1_parts) =
      436 + parts_size (take i (take 3 (blocks_of_sizes first_blocks)))" if "i \<le> 3" for i
    using that by (simp add: take_add test1_parts_def parts_size_def)
  show "file_slice (test1_webm content) 358 421 = filler content 358 63"
    unfolding test1_webm_def by (rule assemble_slice [OF nth]) (simp_all add: length_test1_parts, simp_all add: test1_parts_def)
  show "file_slice (test1_webm content) 443 3683 = filler content 443 3240"
    unfolding test1_webm_def
    using size [of 0] blocks [of 0] first [of 0]
    by (intro assemble_slice [of _ 8]) (simp add: length_test1_parts first_blocks_parts block_part_def)+
  show "file_slice (test1_webm content) 3690 4735 = filler content 3690 1045"
    unfolding test1_webm_def
    using size [of 1] blocks [of 1] first [of 1]
    by (intro assemble_slice [of _ 9]) (simp add: length_test1_parts first_blocks_parts block_part_def)+
  show "file_slice (test1_webm content) 4741 4801 = filler content 4741 60"
    unfolding test1_webm_def
    using size [of 2] blocks [of 2] first [of 2]
    by (intro assemble_slice [of _ 10]) (simp add: length_test1_parts first_blocks_parts block_part_def)+
qed

lemma decode_webm_test1_holds: "decode_webm_test1 (test1_webm content)"
proof -
  have "length (test1_events content) = 103"
    by (simp add: test1_events_def length_test1_parts)
  then show ?thesis
    using test1_clusters [of content]
    by (simp add: decode_webm_test1_def Let_def test1_results test1_starts test1_slices)
qed

lemma length_block_part [simp]:
  "length (fst (block_part (tc, fl, n))) + snd (block_part (tc, fl, n)) =
    (if n < 127 then 2 else 3) + max 4 n"
  by (simp add: block_part_def max_def; arith)

lemma length_test1_webm: "length (test1_webm content) = 56179"
proof -
  have "replicate 29 (0 :: u8) = [0,0,0,0,0,0,0,0,0,0,0,0,0,0,0,0,0,0,0,0,0,0,0,0,0,0,0,0,0]"
    by (simp add: eval_nat_numeral)
  then show ?thesis
    by (simp add: test1_webm_def length_assemble parts_size_def case_prod_beta' test1_parts_def
        blocks_of_sizes_def test1_times_def first_blocks_def second_blocks_def third_blocks_def)
qed

end
