(* ===== verification/Messages.thy ===== *)
theory Messages
  imports Program
begin

text \<open>
  What the program prints and logs: the lines of \<open>dump\<close>, with the texts the standard library
  gives numbers and derived \<open>Debug\<close> implementations, and the messages of the error types. The
  lines can be told apart: the output determines what \<open>dump\<close> saw.
\<close>

section \<open>Numbers\<close>

text \<open>\<open>Display\<close> of unsigned and of signed integers.\<close>

fun nat_digits :: "nat \<Rightarrow> nat list" where
  "nat_digits n = (if n < 10 then [n] else nat_digits (n div 10) @ [n mod 10])"

definition display_nat :: "nat \<Rightarrow> string" where
  "display_nat n = map digit_char (nat_digits n)"

definition display_int :: "int \<Rightarrow> string" where
  "display_int i = (if i < 0 then CHR ''-'' # display_nat (nat (- i)) else display_nat (nat i))"

section \<open>Elements\<close>

fun separated :: "string list \<Rightarrow> string" where
  "separated [] = []"
| "separated [t] = t"
| "separated (t # ts) = t @ '', '' @ separated ts"

definition debug_slice :: "bytes \<Rightarrow> string" where
  "debug_slice bs = ''['' @ separated (map (\<lambda>b. display_nat (unat b)) bs) @ '']''"

text \<open>The derived \<open>Debug\<close> of \<open>SimpleBlock\<close> and of \<open>WebmElement\<close>.\<close>

definition debug_block :: "simple_block \<Rightarrow> string" where
  "debug_block b =
    ''SimpleBlock { track: '' @ display_nat (unat (track b)) @ '', timecode: '' @ display_int (sint (timecode b)) @
    '', flags: '' @ display_nat (unat (flags b)) @ '', data: '' @ debug_slice (data b) @ '' }''"

fun debug_element :: "webm_element \<Rightarrow> string" where
  "debug_element EbmlHead = ''EbmlHead''"
| "debug_element Void = ''Void''"
| "debug_element Segment = ''Segment''"
| "debug_element SeekHead = ''SeekHead''"
| "debug_element Info = ''Info''"
| "debug_element Cues = ''Cues''"
| "debug_element (Tracks bs) = ''Tracks('' @ debug_slice bs @ '')''"
| "debug_element Cluster = ''Cluster''"
| "debug_element (Timecode t) = ''Timecode('' @ display_nat (unat t) @ '')''"
| "debug_element (SimpleBlock b) = ''SimpleBlock('' @ debug_block b @ '')''"
| "debug_element (UnknownElement eid) = ''Unknown('' @ display_nat (unat eid) @ '')''"

section \<open>The output of dump\<close>

fun line_text :: "dump_line \<Rightarrow> string" where
  "line_text (TracksLine n) = ''Tracks['' @ display_nat n @ '']''"
| "line_text (SimpleBlockLine t) = ''SimpleBlock@'' @ display_int (sint t)"
| "line_text (DebugLine el) = debug_element el"

definition println :: "string \<Rightarrow> string" where
  "println t = t @ [CHR 0x0A]"

definition dump_text :: "dump_line list \<Rightarrow> string" where
  "dump_text ls = concat (map (\<lambda>l. println (line_text l)) ls)"

section \<open>Errors\<close>

fun ebml_error_text :: "ebml_error \<Rightarrow> string" where
  "ebml_error_text CorruptVarint = ''EBML Varint could not be parsed''"
| "ebml_error_text UnknownElementId = ''EBML element ID was '' @ [CHR 0x22] @ ''unknown''"
| "ebml_error_text UnknownElementLength =
    ''EBML element length was '' @ [CHR 0x22] @ ''unknown'' @ [CHR 0x22] @ '' for an element not allowing that''"
| "ebml_error_text CorruptPayload = ''EBML element payload could not be parsed''"

fun write_error_text :: "write_error \<Rightarrow> string" where
  "write_error_text OutOfRange = ''EBML Varint out of range''"

text \<open>
  An I/O error shows the error it wraps. The texts of its kinds and of the errors of other
  crates are parameters.
\<close>

fun webmetro_error_text :: "('x \<Rightarrow> string) \<Rightarrow> (error_kind \<Rightarrow> string) \<Rightarrow> 'x webmetro_error \<Rightarrow> string" where
  "webmetro_error_text other kind_text ResourcesExceeded = ''resources exceeded''"
| "webmetro_error_text other kind_text (EbmlError e) = ''EBML error: '' @ ebml_error_text e"
| "webmetro_error_text other kind_text (HttpError x) = ''HTTP error: '' @ other x"
| "webmetro_error_text other kind_text (HyperError x) = ''Hyper error: '' @ other x"
| "webmetro_error_text other kind_text (IoError e) =
    ''IO error: '' @ (case payload e of Some w \<Rightarrow> write_error_text w | None \<Rightarrow> kind_text (kind e))"
| "webmetro_error_text other kind_text (WarpError x) = ''Warp error: '' @ other x"
| "webmetro_error_text other kind_text (ApplicationError message) = message"

text \<open>The message \<open>main\<close> logs.\<close>

definition main_log ::
    "('x \<Rightarrow> string) \<Rightarrow> (error_kind \<Rightarrow> string) \<Rightarrow> rt \<Rightarrow> ('x, 'a) surroundings \<Rightarrow> string option" where
  "main_log other kind_text E w =
    (case snd (main_run E w) of
       Some (Ok err) \<Rightarrow> map_option (webmetro_error_text other kind_text) err
     | _ \<Rightarrow> None)"

section \<open>Numbers can be read back\<close>

declare nat_digits.simps [simp del]

lemma nat_digits_small: "d \<in> set (nat_digits n) \<Longrightarrow> d < 10"
proof (induction n rule: nat_digits.induct)
  case (1 n)
  then show ?case by (subst (asm) (2) nat_digits.simps) (auto split: if_splits)
qed

lemma decimal_digits: "decimal (nat_digits n) = n"
proof (induction n rule: nat_digits.induct)
  case (1 n)
  show ?case
  proof (cases "n < 10")
    case False
    with 1 have "decimal (nat_digits n) = n div 10 * 10 + n mod 10"
      by (simp add: nat_digits.simps [of n] decimal_def)
    then show ?thesis by simp
  qed (simp add: nat_digits.simps [of n] decimal_def)
qed

lemma nat_digits_not_Nil: "nat_digits n \<noteq> []"
  by (subst nat_digits.simps) simp

text \<open>\<open>parse_time\<close> reads what \<open>Display\<close> writes.\<close>

lemma parse_time_display: "n < 2 ^ 64 \<Longrightarrow> parse_time (display_nat n) = Ok n"
  using parse_time_decimal [OF nat_digits_not_Nil, of n] nat_digits_small [of _ n]
  by (simp add: display_nat_def decimal_digits)

lemma display_nat_eq [simp]: "display_nat n = display_nat m \<longleftrightarrow> n = m"
proof
  have read: "map (the \<circ> digit_value) (display_nat k) = nat_digits k" for k
    using nat_digits_small [of _ k] digit_value_char by (simp add: display_nat_def map_idI)
  assume "display_nat n = display_nat m"
  then have "nat_digits n = nat_digits m" by (metis read)
  then show "n = m" by (metis decimal_digits)
qed simp

lemma display_nat_digits:
  assumes "c \<in> set (display_nat n)"
  shows "digit_value c \<noteq> None"
  using assms nat_digits_small [of _ n] digit_value_char by (auto simp: display_nat_def)

lemma display_int_eq [simp]: "display_int i = display_int j \<longleftrightarrow> i = j"
proof -
  have "display_nat n \<noteq> CHR ''-'' # t" for n t
    using display_nat_digits [of "CHR ''-''" n] by (auto simp: digit_value_def)
  then show ?thesis by (auto simp: display_int_def dest: sym)
qed

section \<open>Lines can be told apart\<close>

lemma no_newline: "CHR 0x0A \<notin> set (display_nat n)" "CHR 0x0A \<notin> set (display_int i)"
  using display_nat_digits [of "CHR 0x0A"] by (auto simp: display_int_def digit_value_def)

lemma line_text_no_newline: "CHR 0x0A \<notin> set (line_text (dump_line_of el))"
  by (cases el) (simp_all add: no_newline)

lemma line_text_inj: "line_text (dump_line_of el) = line_text (dump_line_of el') \<Longrightarrow> dump_line_of el = dump_line_of el'"
  by (cases el; cases el') (simp_all flip: word_eq_iff_unsigned word_eq_iff_signed)

lemma println_eq:
  assumes "println t @ r = println t' @ r'" "CHR 0x0A \<notin> set t" "CHR 0x0A \<notin> set t'"
  shows "t = t' \<and> r = r'"
proof -
  have line: "takeWhile ((\<noteq>) (CHR 0x0A)) (println u @ s) = u" if "CHR 0x0A \<notin> set u" for u s
    using that by (induction u) (auto simp: println_def)
  then have "t = t'" using assms by metis
  with assms(1) show ?thesis by simp
qed

lemma dump_text_simps [simp]:
  "dump_text [] = []" "dump_text (l # ls) = println (line_text l) @ dump_text ls"
  by (simp_all add: dump_text_def)

lemma println_not_Nil [simp]: "println t \<noteq> []"
  by (simp add: println_def)

lemma dump_text_inj:
  "dump_text (map dump_line_of els) = dump_text (map dump_line_of els') \<Longrightarrow>
    map dump_line_of els = map dump_line_of els'"
proof (induction els arbitrary: els')
  case Nil
  then show ?case by (cases els') simp_all
next
  case (Cons el els)
  then obtain el' rest where els': "els' = el' # rest" by (cases els') simp_all
  have "println (line_text (dump_line_of el)) @ dump_text (map dump_line_of els) =
      println (line_text (dump_line_of el')) @ dump_text (map dump_line_of rest)"
    using Cons.prems unfolding els' by (simp only: list.map dump_text_simps)
  from println_eq [OF this line_text_no_newline line_text_no_newline]
  have "dump_line_of el = dump_line_of el'" "map dump_line_of els = map dump_line_of rest"
    by (blast intro: line_text_inj Cons.IH)+
  then show ?case by (simp add: els')
qed

end
