(* ===== verification/Spec2Isabelle.thy ===== *)
theory Spec2Isabelle
  imports Relay_Samples Test_File Messages
begin

text \<open>
  A verification library for webmetro, a relay for live WebM streams (\<open>src/src/*.rs\<close>).

  THE PROGRAM. Bytes of a WebM stream are parsed into events (\<open>ebml.rs\<close>, \<open>webm.rs\<close>,
  \<open>iterator.rs\<close> for a complete buffer, \<open>stream_parser.rs\<close> for a stream of pieces). The
  chunker (\<open>chunk.rs\<close>) regroups and re-encodes the events into an initialization segment
  and clusters. Adapters (\<open>fixers.rs\<close>) shift timecodes, wait for a keyframe, or slow a
  stream down. A channel (\<open>channel.rs\<close>) hands chunks from transmitters to listeners. The
  commands \<open>filter\<close>, \<open>send\<close> and \<open>dump\<close> (\<open>commands/*.rs\<close>) are pipelines of these stages;
  \<open>relay\<close> is a server that keeps a channel for each name and connects uploads and viewers to it.

  THE THEORIES, each on those before it.
    \<^item> Prelude: machine integers, the type of outcomes (value, error, panic), slices that
      panic out of range, big-endian byte lists.
    \<^item> Rust_Std: the build profile and the third-party number codecs (record \<open>rt\<close>, locale
      \<open>big_endian\<close>), checked and wrapping arithmetic, \<open>std::io\<close> actions, the two cursors,
      and the contract \<open>byte_sink\<close> of a seekable writer with its two instances.
    \<^item> Ebml: the definitions of \<open>ebml.rs\<close>. Ebml_Decode: varints against their specification,
      totality, bounds and prefix stability of decoding. Ebml_Encode: what the writers emit,
      over any writer that keeps the contract, and that it is read back.
    \<^item> Iterator: \<open>iterator.rs\<close>. Webm: \<open>webm.rs\<close>, with the round trip of every element.
      Errors: \<open>error.rs\<close>.
    \<^item> Stream_Parser: \<open>stream_parser.rs\<close>. A byte stream is the script of what polling it
      returns (data, error, \<open>Pending\<close>). The facts are stated over the input still to come,
      so that the cuts between pieces disappear: streaming equals parsing the whole.
    \<^item> Chunk: \<open>chunk.rs\<close>; the loop of \<open>poll_next\<close> is split into the turns of its two states
      (\<open>header_turn\<close>, \<open>cluster_turn\<close>, \<open>flush_turn\<close>). Chunk_Stream: the specification, which
      groups a list of events with no buffers or arithmetic, the simulation, and how a block the
      writers refuse ends the stream.
      Chunk_Bounds: the heads of clusters, re-encoding, and the effect of soft limits.
    \<^item> Fixers, Starting_Point and Throttle: the three adapters of \<open>fixers.rs\<close>.
    \<^item> Channel: \<open>channel.rs\<close>, with the bounded queues of the crate \<open>futures\<close> as a parameter
      (record \<open>mpsc\<close>, locale \<open>bounded_mpsc\<close>), and runs as a step relation whose invariant
      says what each listener has received, and what one that joins after a disconnect does.
    \<^item> Upload and Viewer: the two streams of \<open>relay.rs\<close>. \<open>post_stream\<close> is modelled poll by
      poll (\<open>post_poll\<close>), with the bound on its chunks; \<open>get_stream\<close> turn by turn
      (\<open>viewer_turn\<close>), for other tasks use the channel in between, and as a pass over the
      chunks received, which is its specification.
    \<^item> Relay: the server of \<open>relay.rs\<close>: the registry, whose weak map is a parameter (record
      \<open>weak_map\<close>, locale \<open>weak_registry\<close>), the routes and handlers, and every interleaving of
      requests, polls and disconnections as a step relation (\<open>server_step\<close>). Relay_Runs: its
      invariant, in the locale \<open>relay\<close> that joins the contracts of queues and registry.
      Relay_Progress: what the invariant says of names and viewers, and that viewers and
      uploads get on.
    \<^item> Relay_Schedules: the steps of the server as actions, the schedules of all its tasks, and
      how far a viewer may fall behind under one (\<open>load\<close>). Relay_Delivery: what a schedule adds
      to the histories of channels; a viewer that keeps up stays registered, and an upload
      alone on its channel sends its chunks. Relay_Service: both together, from the body of
      an upload to the events a viewer reads.
    \<^item> Relay_Invariants: what every poll of a chunker keeps holds of all uploads of the server
      (locale \<open>upload_law\<close>). Relay_Types: the chunks in the server are well formed.
      Relay_Memory: the bytes the server holds are bounded by its connections.
    \<^item> Commands and Program: \<open>parse_time\<close>, the pipelines of \<open>filter\<close>, \<open>send\<close> and \<open>dump\<close> (those of
      \<open>filter\<close> and \<open>send\<close> are separate definitions, as in the sources, and proved equal;
      \<open>filter_run\<close> is what \<open>filter_command\<close> is without throttle, for the proofs only), the
      servers of \<open>relay\<close> until the last has ended (\<open>relay_run\<close>), and \<open>main.rs\<close> from the command
      line on. Regroup: grouping the events of grouped output again
      changes nothing, so filtering twice is filtering once. Within_Limits: on inputs that
      stay below the limits of the relay these limits change nothing. Distribution: from the
      standard input of \<open>send\<close> to a viewer of the relay.
    \<^item> Messages: what \<open>dump\<close> prints and \<open>main\<close> logs, the texts of numbers, elements and errors.
    \<^item> Unit_Tests and Test_File: the tests of the repository as propositions on the model. The
      file \<open>test1.webm\<close> is put together from the bytes the decoder looks at, written out, and
      the others, given by a function.
    \<^item> Samples and Relay_Samples: concrete inputs and a small relay, to which the theorems
      below are applied.

  CONVENTIONS. \<open>Ok\<close> and \<open>Err\<close> are the constructors of \<open>Result\<close>; \<open>Panic\<close> is an evaluation
  without a value. Constructors and fields whose names are taken carry a suffix
  (\<open>ClusterChunk\<close> for \<open>Chunk::Cluster\<close>, \<open>UnknownElement\<close> for \<open>WebmElement::Unknown\<close>,
  \<open>end_time\<close> for \<open>end\<close>); \<open>usize\<close> is 64 bits wide, and lengths and positions are natural numbers.
  \<open>E\<close> is the build profile with the codecs, \<open>cv\<close> the conversion of a stream's errors.
  A channel is alive while an open connection refers to it (\<open>has_handle\<close>), and a connection that
  ends drops its stream (\<open>close_upload\<close>, \<open>close_viewing\<close>): reference counts and drops are
  implicit in the sources. \<open>hyper\<close> drops a body whose stream fails (\<open>poll_upload\<close>, \<open>turn_viewing\<close>).
  Every loop is total: \<open>size_loop\<close> is the only one that could run forever and returns an
  option; the others have measures, so no fuel is used.

  BOUNDS. A viewer waits for at most 27 turns: up to six chunks in its queue at four turns
  each, and three for the chunk in hand. A schedule is fine for a viewer as long as it owes
  less than 24 turns when a chunk may come, which leaves room in the queue. An upload is
  polled at most twice as often as its body has bytes and pieces, and once more (\<open>work_left\<close>).
  A chunk has at most \<open>2 * BUFFER_LIMIT + m + 15\<close> bytes for pieces of input of \<open>m\<close>, and a
  connection holds at most eight times that: six chunks in a queue, one in hand and a header,
  or three buffers and a header.

  NOT MODELLED. The HTTP protocol, sockets and the parser of the command line are crates and
  enter as parameters (\<open>surroundings\<close>): a response of the client, the order in
  which servers end, the command that is read. A server that is bound is the machine of
  Relay; the two are not joined, for the requests come from outside. Standard input is a
  script, standard output does not fail, and of the log only the message of
  \<open>main\<close> is kept; log lines between (\<open>Drop\<close> of
  \<open>Channel\<close>, the handlers) and the setup of the logger carry no state. Wakers
  and \<open>Pin\<close> carry no data: which task runs next is the choice of a schedule,
  and progress is stated for the schedules that give a viewer its turns and an upload its
  polls. Instants are integers, so a clock too close to its origin for
  \<open>Throttle\<close> to subtract an offset is left out. The combinators of
  \<open>futures\<close> have their documented meaning. A turn of a viewer and a poll of an
  upload are steps of their own; a task is dropped between steps only. What is left of the
  sources are imports, trait and impl headers, and wrappers that only call what is modelled
  (\<open>Transmitter::new\<close>, \<open>ebml_iter\<close>,
  \<open>ChunkStream::throttle\<close>).
\<close>

section \<open>Properties\<close>

text \<open>
  C1. From end to end, for an upload the relay forwards as it is: its body has no read
  errors and parses to its end, without a parse error, into well-timed events (no block
  earlier than its cluster, timecodes below 2 to the 63, tracks up to 31, payloads whose
  size can be encoded) that take less than 2 to the 64 bytes; no incomplete element and no
  chunk under construction reaches the limit of 2 MiB; and its clusters are in order, so
  that the fixer moves none. Let a viewer be registered on the channel of the upload, owed
  nothing yet. Under any schedule of the server in which no other upload of that channel is
  polled, the upload is not closed and is polled at least as often as its body has work, the
  viewer is not disconnected and its turns keep pace, the viewer has been sent, after at
  most the turns it still owes, bytes that read back as exactly the events of the upload as
  the chunker regroups them (each cluster as its tag, its last timecode and its blocks,
  without the elements that are never written and without a header that no cluster follows),
  from what the starting point finder lets through: the first header, and no cluster before
  a first keyframe or, behind another header, before the next one.
\<close>

theorem upload_reaches_viewer:
  fixes s :: "('q, 'm, 'e) server"
  assumes "relay M queued receiving capacity W entry" "big_endian E"
    and "serving E M W s" "feasible E M W acts s"
    and "j < length (uploads s)" "up_open (uploads s ! j)" "up_chunker (uploads s ! j) = relay_chunker body"
      "a = up_channel (uploads s ! j)"
    and "sole_sender E M W a j acts s" "CloseUpload j \<notin> set acts"
    and "work_left (relay_chunker body) \<le> length (filter ((=) (PollUpload j)) acts)"
    and "\<And>e. SourceErr e \<notin> set body" "whole_events (webm_from_ebml E) (source_bytes body) = (els, Ok ())"
    and "well_timed els" "length (written_bytes els) < 2 ^ 64" "groups (InHeader []) els = (gs, b)"
    and "all_patient (webm_from_ebml E) BUFFER_LIMIT (source_bytes body)"
    and "below_limit BUFFER_LIMIT (InHeader []) els"
    and "in_order 0 (cluster_heads (map realize (gs @ last_group b)))"
    and "in_service k s" "view_channel (viewings s ! k) = a"
    and "due (channel_runs s ! a) (tuned (view_state (viewings s ! k))) = []"
    and "CloseViewing k \<notin> set acts" "viewing_waiting queued k s \<le> w" "load E M W k w acts s = Some w'"
  shows "\<exists>n \<le> w'. whole_events (webm_from_ebml E)
      (concat (view_out (viewings ((turn_viewing E M k ^^ n) (run_actions E M W acts s)) ! k))) =
    (concat (map group_events (from_start False False (gs @ last_group b))), Ok ())"
  using assms by (rule relay.relay_end_to_end)

theorem upload_reaches_viewer_witness:
  "whole_events (webm_from_ebml (reference_rt False))
    (concat (view_out (viewings (run_actions (reference_rt False) reference_mpsc reference_map
       (sample_schedule (work_left (relay_chunker (sample_input :: unit source)))) (upload_begun sample_input)) ! 0))) =
   ([EbmlHead, Segment, Tracks [7], Cluster, Timecode 5, SimpleBlock sample_block], Ok ())"
proof -
  let ?acts = "sample_schedule (work_left (relay_chunker (sample_input :: unit source)))"
  have "0 < length (uploads (upload_begun sample_input))" by (simp add: upload_begun_upload)
  from upload_reaches_viewer [OF reference_relay.relay_axioms reference.big_endian_axioms upload_begun_serving
      sample_input_schedule(1) [of "work_left (relay_chunker (sample_input :: unit source))"] this
      upload_begun_upload(2,4) upload_begun_upload(3) [symmetric] sample_input_schedule(2)
      sample_schedule_tasks(2) _ sample_no_error sample_parsed sample_well_timed sample_size sample_groups
      sample_within _ upload_begun_viewing(1,2) _ sample_schedule_tasks(3) _ sample_input_schedule(3)]
  show ?thesis
    using sample_in_order
    by (simp add: sample_schedule_polls upload_begun_viewing sample_last sample_from_start sample_group_events del: last_group.simps One_nat_def)
qed

text \<open>
  C2. From the standard input of send to a viewer, for a stream that passes as it is:
  standard input has no read errors and parses to its end into well-timed events (no block
  earlier than its cluster, timecodes below 2 to the 63, tracks up to 31, payloads whose
  size can be encoded) that take less than 2 to the 64 bytes, its clusters are in order, and
  each of its chunks is smaller than the limit of 2 MiB; send runs without throttling, skip
  and take. If the body of an upload to the relay consists of the bytes send puts into its
  request, in pieces of any size, without a read error and below 2 to the 64 bytes, no other
  upload of that channel is polled, the upload is not closed and is polled at least as often
  as its body has work, then a viewer that was registered on the channel and owed nothing,
  keeps pace and is not disconnected has been sent, after at most the turns it still owes,
  bytes that read back as exactly the events of the standard input as the chunker regroups
  them (each cluster as its tag, its last timecode and its blocks, without the elements that
  are never written and without a header that no cluster follows), from what the starting
  point finder lets through: the first header, and no cluster before a first keyframe or,
  behind another header, before the next one.
\<close>

theorem sent_stream_reaches_viewer:
  fixes s :: "('q, 'm, 'e) server" and cv :: "'f \<Rightarrow> 'x webmetro_error"
  assumes "relay M queued receiving capacity W entry" "big_endian E"
    and "\<And>e. SourceErr e \<notin> set stdin" "whole_events (webm_from_ebml E) (source_bytes stdin) = (els, Ok ())"
    and "well_timed els" "length (written_bytes els) < 2 ^ 64" "groups (InHeader []) els = (gs, b)"
    and "in_order 0 (cluster_heads (map realize (gs @ last_group b)))"
    and "list_all (within BUFFER_LIMIT) (gs @ last_group b)"
    and "\<not> throttled args" "skip_secs args = None" "take_secs args = None"
    and "\<And>e. SourceErr e \<notin> set body" "length (source_bytes body) < 2 ^ 64"
    and "source_bytes body = fst (received_bytes (send_body E cv T args stdin))"
    and "serving E M W s" "feasible E M W acts s"
    and "j < length (uploads s)" "up_open (uploads s ! j)" "up_chunker (uploads s ! j) = relay_chunker body"
      "a = up_channel (uploads s ! j)"
    and "sole_sender E M W a j acts s" "CloseUpload j \<notin> set acts"
    and "work_left (relay_chunker body) \<le> length (filter ((=) (PollUpload j)) acts)"
    and "in_service k s" "view_channel (viewings s ! k) = a"
    and "due (channel_runs s ! a) (tuned (view_state (viewings s ! k))) = []"
    and "CloseViewing k \<notin> set acts" "viewing_waiting queued k s \<le> w" "load E M W k w acts s = Some w'"
  shows "\<exists>n \<le> w'. whole_events (webm_from_ebml E)
      (concat (view_out (viewings ((turn_viewing E M k ^^ n) (run_actions E M W acts s)) ! k))) =
    (concat (map group_events (from_start False False (gs @ last_group b))), Ok ())"
  using assms by (rule relay.sent_stream_arrives)

theorem sent_stream_reaches_viewer_witness:
  "whole_events (webm_from_ebml (reference_rt False))
    (concat (view_out (viewings (run_actions (reference_rt False) reference_mpsc reference_map
       (sample_schedule (work_left (relay_chunker sent_input))) (upload_begun sent_input)) ! 0))) =
   ([EbmlHead, Segment, Tracks [7], Cluster, Timecode 5, SimpleBlock sample_block], Ok ())"
proof -
  let ?cv = "IoError :: write_error io_error \<Rightarrow> unit webmetro_error"
  have "0 < length (uploads (upload_begun sent_input))" by (simp add: upload_begun_upload)
  from sent_stream_reaches_viewer [OF reference_relay.relay_axioms reference.big_endian_axioms sample_no_error
      sample_parsed sample_well_timed sample_size sample_groups _ _ _ _ _ sent_input_no_error _
      sent_input_body [where cv = ?cv] upload_begun_serving
      sent_input_schedule(1) [of "work_left (relay_chunker sent_input)"] this
      upload_begun_upload(2,4) upload_begun_upload(3) [symmetric] sent_input_schedule(2)
      sample_schedule_tasks(2) _ upload_begun_viewing(1,2) _ sample_schedule_tasks(3) _ sent_input_schedule(3)]
  show ?thesis
    using sample_in_order sample_groups_within sample_output_size
    by (simp add: sample_schedule_polls upload_begun_viewing sample_last sample_from_start sample_group_events
        sample_send_def sent_input_def stream_args.defs del: last_group.simps One_nat_def within_simps)
qed

text \<open>
  C3. The memory of the relay is bounded by its open connections: as long as the pieces of
  input are of at most m bytes, whatever requests come and in whatever order the tasks run,
  the buffers of the uploads, the queues and unread pieces of the viewers and the headers
  kept for late listeners together hold at most eight times twice the limit plus m + 15
  bytes for each connection, and no chunk sent is longer than that one bound.
\<close>

theorem relay_memory_is_bounded:
  fixes s :: "('q, 'm, 'e) server"
  assumes "relay M queued receiving capacity W entry" "big_endian E" "m < 2 ^ 60"
    and "feasible E M W acts (server_start W)" "list_all (obeys (piece_limited m)) acts"
    and "s = run_actions E M W acts (server_start W)"
  shows "server_bytes queued s \<le> connections s * (8 * (2 * BUFFER_LIMIT + m + 15)) \<and>
    (\<forall>r \<in> set (channel_runs s). \<forall>c \<in> set (sent r). chunk_length c \<le> 2 * BUFFER_LIMIT + m + 15)"
  using relay.relay_memory [OF assms] by (simp add: chunk_bound_def)

theorem relay_memory_is_bounded_witness: "server_bytes items (header_sent True) \<le> 2 * (8 * (2 * BUFFER_LIMIT + 20))"
  using relay_memory_is_bounded [OF reference_relay.relay_axioms reference.big_endian_axioms _ small_schedule(1)
      small_requests small_schedule(2) [symmetric], of True]
  by (simp add: header_sent_connections)

text \<open>
  C4. On an input without read errors, parsed to well-timed events of less than 2 to the 64
  bytes, the chunks the chunker emits over any split of the input are the groups of the
  events, realised; the last open cluster is flushed exactly if the input did not end in a
  parse error, which is passed on.
\<close>

theorem chunker_emits_groups:
  fixes cv :: "'e \<Rightarrow> 'x webmetro_error"
  assumes "big_endian E" "\<And>e. SourceErr e \<notin> set stdin"
    and "whole_events (webm_from_ebml E) (source_bytes stdin) = (els, r)"
    and "well_timed els" "length (written_bytes els) < 2 ^ 64"
  shows "all_chunks E cv (chunk_webm (parse_ebml stdin)) =
    (case groups (InHeader []) els of (gs, b) \<Rightarrow>
       (map realize (gs @ (if r = Ok () then last_group b else [])), map_err EbmlError r))"
  using assms by (rule big_endian.chunk_webm_groups)

theorem chunker_emits_groups_witness:
  "all_chunks (reference_rt True) (\<lambda>_. ResourcesExceeded :: unit webmetro_error)
     (chunk_webm (parse_ebml (sample_input :: unit source))) =
   ([realize header_group, realize cluster_group], Ok ())"
  by (subst chunker_emits_groups [OF reference.big_endian_axioms sample_no_error sample_parsed
        sample_well_timed sample_size]) (simp add: sample_groups cluster_group_def)

text \<open>
  C5. The bytes of the chunks emitted for an input of well-timed events read back as the
  same events: each cluster starts with its Cluster tag and its last Timecode, and only the
  events that are never written are missing.
\<close>

theorem chunks_read_back:
  fixes cv :: "'e \<Rightarrow> 'x webmetro_error"
  assumes "big_endian E" "\<And>e. SourceErr e \<notin> set stdin"
    and "whole_events (webm_from_ebml E) (source_bytes stdin) = (els, Ok ())"
    and "well_timed els" "length (written_bytes els) < 2 ^ 64" "groups (InHeader []) els = (gs, b)"
  shows "whole_events (webm_from_ebml E)
      (chunks_bytes (fst (all_chunks E cv (chunk_webm (parse_ebml stdin))))) =
    (concat (map group_events (gs @ last_group b)), Ok ())"
proof -
  have "well_timed (group_elements g)" if "g \<in> set (gs @ last_group b)" for g
    using groups_well_timed [OF assms(6) _ assms(4) that] by (simp add: well_timed_def)
  then have "whole_events (webm_from_ebml E) (chunks_bytes (map realize (gs @ last_group b))) =
      (concat (map group_events (gs @ last_group b)), Ok ())"
    by (rule big_endian.groups_read_back [OF assms(1)])
  then show ?thesis
    using big_endian.chunk_webm_groups [OF assms(1-5), where cv = cv] assms(6) by simp
qed

theorem chunks_read_back_witness:
  "whole_events (webm_from_ebml (reference_rt True))
     (chunks_bytes (fst (all_chunks (reference_rt True) (\<lambda>_. ResourcesExceeded :: unit webmetro_error)
       (chunk_webm (parse_ebml (sample_input :: unit source)))))) =
   (concat (map group_events [header_group, cluster_group]), Ok ())"
  using chunks_read_back [OF reference.big_endian_axioms sample_no_error sample_parsed sample_well_timed
      sample_size sample_groups, where cv = "\<lambda>_. ResourcesExceeded :: unit webmetro_error"]
  unfolding sample_last append_Cons append_Nil .

text \<open>
  C6. Without a limit and without read errors, the streaming parser delivers exactly the
  events of the concatenated input, with the same error at the end, however the input is cut
  into pieces.
\<close>

theorem streaming_is_whole_parse:
  assumes "buffer_size_limit p = None" "\<And>e. SourceErr e \<notin> set (stream p)"
  shows "all_events F cv p = (case whole_events F (input p) of (els, r) \<Rightarrow> (els, map_err EbmlError r))"
  using assms by (rule all_events_whole)

theorem streaming_is_whole_parse_witness:
  "all_events (webm_from_ebml (reference_rt True)) (\<lambda>_. ResourcesExceeded :: unit webmetro_error)
     (parse_ebml (sample_input :: unit source)) = (sample_elements, Ok ())"
  by (subst streaming_is_whole_parse)
    (simp_all add: parse_ebml_def input_def sample_no_error sample_parsed)

text \<open>
  C7. While a viewer is connected to the relay, the bytes it was sent are, up to what is
  left of the chunk in hand, the ones the specification of the viewer stream (fix the
  timecodes, find the starting point, flatten) gives for the chunks its listener received,
  and those are a beginning of what the channel owes it.
\<close>

theorem viewer_is_sent_its_channel:
  assumes "relay M queued receiving capacity W entry" "serving E M W s"
    and "v \<in> set (viewings s)" "view_open v"
    and "r = channel_runs s ! view_channel v" "i = tuned (view_state v)"
  shows "get_stream E (received r ! i) = Ok (view_out v @ unread_pieces (view_state v)) \<and>
    prefix (received r ! i) (due r i)"
  using relay.viewing_sent [OF assms] by blast

theorem viewer_is_sent_its_channel_witness:
  "get_stream (reference_rt True) [Headers []] = Ok [[]]"
proof -
  let ?v = "viewings (header_viewed True) ! 0"
  have v: "?v \<in> set (viewings (header_viewed True))" "view_open ?v"
    by (intro nth_mem) (simp_all add: header_viewed_simps)
  show ?thesis
    using viewer_is_sent_its_channel [OF reference_relay.relay_axioms header_viewed_serving v refl refl]
    by (simp add: header_viewed_simps unread_pieces_def del: One_nat_def)
qed

text \<open>
  C8. An upload whose body has no read errors and parses to its end, without a parse error,
  into well-timed events (no block earlier than its cluster, timecodes below 2 to the 63,
  tracks up to 31, payloads whose size can be encoded) that take less than 2 to the 64
  bytes, where no incomplete element and no chunk under construction reaches the limit of 2
  MiB, sends exactly the groups of its events, realised, on its channel, the last open
  cluster included, in at most as many polls as its body has work.
\<close>

theorem upload_is_relayed:
  fixes s :: "('q, 'm, 'e) server"
  assumes "relay M queued receiving capacity W entry" "big_endian E" "serving E M W s"
    and "j < length (uploads s)" "up_open (uploads s ! j)" "up_chunker (uploads s ! j) = relay_chunker body"
    and "\<And>e. SourceErr e \<notin> set body" "whole_events (webm_from_ebml E) (source_bytes body) = (els, Ok ())"
    and "well_timed els" "length (written_bytes els) < 2 ^ 64" "groups (InHeader []) els = (gs, b)"
    and "all_patient (webm_from_ebml E) BUFFER_LIMIT (source_bytes body)"
    and "below_limit BUFFER_LIMIT (InHeader []) els" "a = up_channel (uploads s ! j)"
  shows "\<exists>n \<le> work_left (up_chunker (uploads s ! j)).
    sent (channel_runs ((poll_upload E M j ^^ n) s) ! a) =
    sent (channel_runs s ! a) @ map realize (gs @ last_group b)"
proof -
  have "fst (all_chunks E WarpError (up_chunker (uploads s ! j))) = map realize (gs @ last_group b)"
    using big_endian.relay_chunks [OF assms(2,7-10,12,13), where cv = WarpError] assms(6,11) by simp
  with relay.upload_drains [OF assms(1,3-5,14)] show ?thesis by simp
qed

theorem upload_is_relayed_witness:
  "\<exists>n. sent (channel_runs ((poll_upload (reference_rt True) reference_mpsc 0 ^^ n) (upload_begun sample_input)) ! 1) =
    map realize [header_group, cluster_group]"
proof -
  have small: "length (source_bytes sample_input) < BUFFER_LIMIT" "length (written_bytes sample_elements) < BUFFER_LIMIT"
    unfolding sample_source_bytes
    by (simp_all only: sample_elements_def written_bytes_simps length_append length_fixed_bytes
      length_Cluster_bytes sample_block_writable(2) length_sample_tracks) (simp_all add: BUFFER_LIMIT_def)
  from small(2) have "below_limit BUFFER_LIMIT (InHeader []) sample_elements"
    by (intro reference.below_limit_small) simp
  moreover have "0 < length (uploads (upload_begun sample_input))" by (simp add: upload_begun_upload)
  ultimately show ?thesis
    using upload_is_relayed [OF reference_relay.relay_axioms reference.big_endian_axioms upload_begun_serving _
        upload_begun_upload(2,4) sample_no_error sample_parsed sample_well_timed sample_size sample_groups
        reference.all_patient_small [OF small(1)] _ refl]
    by (auto simp: upload_begun_upload sample_last simp del: last_group.simps One_nat_def)
qed

text \<open>
  C9. Under any schedule of requests, polls, turns and disconnections of all the tasks of
  the server, a viewer whose turns keep pace with the polls of the uploads to its channel
  (never more than 23 turns behind when one comes, at four turns a poll) stays registered,
  and is sent exactly its stream of all it is due once it has had the turns it still owes.
\<close>

theorem viewer_that_keeps_up_is_served:
  fixes s :: "('q, 'm, 'e) server"
  assumes "relay M queued receiving capacity W entry" "serving E M W s"
    and "feasible E M W acts s" "s' = run_actions E M W acts s"
    and "in_service k s" "view_channel (viewings s ! k) = a" "tuned (view_state (viewings s ! k)) = i"
    and "CloseViewing k \<notin> set acts" "viewing_waiting queued k s \<le> w" "load E M W k w acts s = Some w'"
    and "get_stream E (due (channel_runs s' ! a) i) = Ok out"
  shows "in_service k s' \<and> view_channel (viewings s' ! k) = a \<and> tuned (view_state (viewings s' ! k)) = i \<and>
    prefix (due (channel_runs s ! a) i) (due (channel_runs s' ! a) i) \<and>
    (\<exists>n \<le> w'. view_out (viewings ((turn_viewing E M k ^^ n) s') ! k) = out)"
  using relay.keeping_up_served [OF assms] by simp

theorem viewer_that_keeps_up_is_served_witness:
  "in_service 0 (run_actions (reference_rt False) reference_mpsc reference_map (sample_schedule 3)
    (upload_begun sample_input))"
proof -
  obtain out where "get_stream (reference_rt False) (due (channel_runs (run_actions (reference_rt False)
      reference_mpsc reference_map (sample_schedule 3) (upload_begun sample_input)) ! 1) 0) = Ok out"
    using reference.get_stream_release [of False] by fastforce
  from viewer_that_keeps_up_is_served [OF reference_relay.relay_axioms upload_begun_serving
      sample_input_schedule(1) refl upload_begun_viewing(1-3) sample_schedule_tasks(3) _ sample_input_schedule(3) this]
  show ?thesis by (simp add: upload_begun_viewing)
qed

text \<open>
  C10. An upload whose body breaks off, by a read error, bytes that are no WebM, a limit
  exceeded or a panic, sends the chunks before the failure, then is closed with its channel
  forgetting the header, in as many polls as its body has work and one.
\<close>

theorem broken_upload_is_closed:
  fixes s :: "('q, 'm, 'e) server"
  assumes "relay M queued receiving capacity W entry" "serving E M W s"
    and "j < length (uploads s)" "up_open (uploads s ! j)" "a = up_channel (uploads s ! j)"
    and "snd (all_chunks E WarpError (up_chunker (uploads s ! j))) \<noteq> Ok ()"
  shows "\<exists>n \<le> Suc (work_left (up_chunker (uploads s ! j))). let s' = (poll_upload E M j ^^ n) s in
    serving E M W s' \<and> \<not> up_open (uploads s' ! j) \<and> header_chunk (chan (channel_runs s' ! a)) = None \<and>
    sent (channel_runs s' ! a) =
      sent (channel_runs s ! a) @ fst (all_chunks E WarpError (up_chunker (uploads s ! j)))"
  by (rule relay.upload_breaks_off [OF assms])

theorem broken_upload_is_closed_witness:
  "\<exists>n. \<not> up_open (uploads ((poll_upload (reference_rt True) reference_mpsc 0 ^^ n) (upload_begun broken_input)) ! 0) \<and>
    sent (channel_runs ((poll_upload (reference_rt True) reference_mpsc 0 ^^ n) (upload_begun broken_input)) ! 1) = [Headers []]"
proof -
  have "0 < length (uploads (upload_begun broken_input))" by (simp add: upload_begun_upload)
  from broken_upload_is_closed [OF reference_relay.relay_axioms upload_begun_serving this upload_begun_upload(2)
      upload_begun_upload(3) [symmetric], of "reference_rt True"] show ?thesis
    by (auto simp: upload_begun_upload broken_chunks Let_def simp del: One_nat_def)
qed

text \<open>
  C11. An element the writers accept is appended to a growing buffer as its encoding, and
  decoding from there, whatever follows, gives the element back and the length of its
  encoding.
\<close>

theorem webm_round_trip:
  assumes "big_endian E" "writable el" "webm_bytes el \<noteq> []" "length bs + length (webm_bytes el) < 2 ^ 64"
  shows "encode_webm_element E vec_writer el (filled bs) = (filled (bs @ webm_bytes el), Ok ()) \<and>
    decode_element (webm_from_ebml E) (webm_bytes el @ ys) = Ok (Some (el, length (webm_bytes el)))"
  using assms by (auto intro: big_endian.encode_vec big_endian.decode_webm_bytes)

theorem webm_round_trip_witness:
  "encode_webm_element (reference_rt True) vec_writer (SimpleBlock sample_block) (filled [1, 2]) =
     (filled ([1, 2] @ webm_bytes (SimpleBlock sample_block)), Ok ()) \<and>
   decode_element (webm_from_ebml (reference_rt True)) (webm_bytes (SimpleBlock sample_block) @ [9]) =
     Ok (Some (SimpleBlock sample_block, length (webm_bytes (SimpleBlock sample_block))))"
  by (rule webm_round_trip [OF reference.big_endian_axioms [of True] sample_block_writable(1)])
    (simp_all only: sample_block_writable(2), simp_all)

text \<open>
  C12. The two loops of decode_varint compute the EBML varint: the leading zero bits of the
  first byte give the length, the remaining bits in big-endian order the value, all ones the
  unknown value; a zero byte is an error and a short input is incomplete.
\<close>

theorem decode_varint_correct: "decode_varint bs = varint_spec bs"
  by (rule decode_varint_spec)

text \<open>
  C13. One turn of the chunker on a well-timed event does what one step of the grouping
  does: same next state, and the chunk of the group that is completed, if one is.
\<close>

theorem chunker_turn_simulates_grouping:
  assumes "big_endian E" "well_timed (elements_of b)" "forwardable el"
    and "length (building_bytes b) + length (webm_bytes el) < 2 ^ 64"
  shows "element_turn E None (building_state b) el =
    (case feed b el of
       (b', None) \<Rightarrow> Continue (building_state b')
     | (b', Some g) \<Rightarrow> Return (building_state b') (Ok (realize g)))"
  using assms by (rule big_endian.element_turn_refines)

theorem chunker_turn_simulates_grouping_witness:
  "(element_turn (reference_rt True) None (building_state (InCluster [])) (Timecode 5) :: unit turn) =
    Continue (building_state (InCluster [Timecode 5]))"
  by (subst chunker_turn_simulates_grouping [OF reference.big_endian_axioms])
    (simp_all add: well_timed_def length_Cluster_bytes del: webm_bytes.simps)

text \<open>
  C14. Connections share a channel exactly if they were made under the same name: in every
  reachable state of the server, an open viewer and any other open connection are on one
  channel if and only if their names are equal.
\<close>

theorem one_live_channel_per_name:
  assumes "relay M queued receiving capacity W entry" "serving E M W s"
    and "v \<in> set (viewings s)" "view_open v"
  shows "(\<forall>u \<in> set (uploads s). up_open u \<longrightarrow> (up_channel u = view_channel v \<longleftrightarrow> up_name u = view_name v)) \<and>
    (\<forall>v' \<in> set (viewings s). view_open v' \<longrightarrow>
      (view_channel v' = view_channel v \<longleftrightarrow> view_name v' = view_name v))"
  using relay.connection_channels [OF assms(1,2)] assms(3,4) by (metis option.inject)

theorem one_live_channel_per_name_witness:
  "(up_channel (uploads (upload_begun ([] :: unit source)) ! 0) = 1) =
   (up_name (uploads (upload_begun ([] :: unit source)) ! 0) = ''a'')"
  using one_live_channel_per_name [OF reference_relay.relay_axioms upload_begun_serving,
      of "viewings (upload_begun []) ! 0"]
  by (simp add: upload_begun_eq viewer_joined_eq)

text \<open>
  C15. Filtering what filter wrote changes nothing: on the output of the command filter
  without throttle and window for an input without read errors that parses to its end into
  well-timed events (no block earlier than its cluster, timecodes below 2 to the 63, tracks
  up to 31, payloads whose size can be encoded) of less than 2 to the 64 bytes whose
  clusters are in order, fed back in pieces of any size, the command returns the same bytes
  and succeeds again.
\<close>

theorem filter_is_idempotent:
  fixes cv :: "'e \<Rightarrow> 'x webmetro_error"
  assumes "big_endian E" "\<And>e. SourceErr e \<notin> set stdin"
    and "whole_events (webm_from_ebml E) (source_bytes stdin) = (els, Ok ())"
    and "well_timed els" "length (written_bytes els) < 2 ^ 64" "groups (InHeader []) els = (gs, b)"
    and "in_order 0 (cluster_heads (map realize (gs @ last_group b)))"
    and "\<not> throttled args" "skip_secs args = None" "take_secs args = None"
    and "\<And>e. SourceErr e \<notin> set again"
    and "source_bytes again = fst (filter_command E cv T args stdin)" "length (source_bytes again) < 2 ^ 64"
  shows "filter_command E cv T args again = filter_command E cv T args stdin"
proof -
  have plain: "filter_command E cv T args x = filter_run E cv None None x" for x
    using assms(8-10) by (simp add: filter_command_unthrottled)
  show ?thesis
    using big_endian.filter_run_again [OF assms(1-7,11) assms(12) [unfolded plain] assms(13)] by (simp only: plain)
qed

theorem filter_is_idempotent_witness:
  "filter_command (reference_rt True) (\<lambda>_. ResourcesExceeded :: unit webmetro_error) sample_clocks plain_args
     ([SourceData sample_output] :: unit source) =
   filter_command (reference_rt True) (\<lambda>_. ResourcesExceeded :: unit webmetro_error) sample_clocks plain_args
     (sample_input :: unit source)"
proof (rule filter_is_idempotent [OF reference.big_endian_axioms sample_no_error sample_parsed sample_well_timed
      sample_size sample_groups])
  show "in_order 0 (cluster_heads (map realize ([header_group] @
      last_group (InCluster [Timecode 5, SimpleBlock sample_block]))))"
    using sample_in_order by (simp add: cluster_group_def)
qed (use sample_output_size in \<open>simp_all add: sample_filter_command\<close>)

text \<open>
  C16. In every reachable state of the server, each cluster sent on a channel has the 15
  head bytes of its start and, where arithmetic is checked, does not end before it starts;
  and what an open viewer has been and will be sent of the chunks it received is the pieces
  of exactly the chunks fixer and starting point finder make of them, each cluster again
  with the head bytes of its shifted start.
\<close>

theorem relay_chunks_are_well_formed:
  assumes "relay M queued receiving capacity W entry" "big_endian E" "serving E M W s"
  shows "(\<forall>r \<in> set (channel_runs s). \<forall>c \<in> set (sent r). chunk_head_ok E c) \<and>
    (\<forall>v \<in> set (viewings s). view_open v \<longrightarrow>
      (\<exists>found. adapt_all E fresh_adapters (received (channel_runs s ! view_channel v) ! tuned (view_state v)) =
          Ok (adapters_of (view_state v), found) \<and>
        pieces found = view_out v @ unread_pieces (view_state v) \<and> (\<forall>c \<in> set found. chunk_head_ok E c)))"
  using upload_law.serving_uploads_ok [OF big_endian.heads_law [OF assms(2)] assms(3)] relay.viewing_heads_ok [OF assms]
  unfolding upload_law.uploads_ok_def [OF big_endian.heads_law [OF assms(2)]] by blast

theorem relay_chunks_are_well_formed_witness:
  "chunk_head_ok (reference_rt True) (realize cluster_group) \<and>
   (\<exists>found. adapt_all (reference_rt True) fresh_adapters [Headers []] =
      Ok (adapters_of (view_state (viewings (header_viewed True) ! 0)), found) \<and>
    pieces found = view_out (viewings (header_viewed True) ! 0))"
proof
  obtain n where n: "serving (reference_rt True) reference_mpsc reference_map (cluster_sent n)"
      "realize cluster_group \<in> set (sent (channel_runs (cluster_sent n) ! 1))" "1 < length (channel_runs (cluster_sent n))"
    using cluster_is_sent by blast
  have "channel_runs (cluster_sent n) ! 1 \<in> set (channel_runs (cluster_sent n))" using n(3) by (rule nth_mem)
  with n(2) relay_chunks_are_well_formed [OF reference_relay.relay_axioms reference.big_endian_axioms n(1)]
  show "chunk_head_ok (reference_rt True) (realize cluster_group)" by blast
  let ?v = "viewings (header_viewed True) ! 0"
  have "?v \<in> set (viewings (header_viewed True))" "view_open ?v"
    by (intro nth_mem) (simp_all add: header_viewed_simps)
  with relay_chunks_are_well_formed [OF reference_relay.relay_axioms reference.big_endian_axioms
      header_viewed_serving [of True]]
  have "\<exists>found. adapt_all (reference_rt True) fresh_adapters
        (received (channel_runs (header_viewed True) ! view_channel ?v) ! tuned (view_state ?v)) =
      Ok (adapters_of (view_state ?v), found) \<and> pieces found = view_out ?v @ unread_pieces (view_state ?v)"
    by blast
  then show "\<exists>found. adapt_all (reference_rt True) fresh_adapters [Headers []] = Ok (adapters_of (view_state ?v), found) \<and>
      pieces found = view_out ?v"
    by (simp add: header_viewed_simps unread_pieces_def del: One_nat_def adapt_all.simps)
qed

text \<open>
  C17. In a release build no input, error or state makes a poll of the chunker panic.
\<close>

theorem release_chunker_never_panics:
  assumes "big_endian E" "\<not> overflow_checks E"
  shows "snd (poll_next E cv c) \<noteq> Ready (Some Panic)"
proof
  assume "snd (poll_next E cv c) = Ready (Some Panic)"
  then have "poll_next E cv c = (fst (poll_next E cv c), Ready (Some Panic))"
    by (metis prod.collapse)
  with big_endian.poll_next_release [OF assms] show False by blast
qed

theorem release_chunker_never_panics_witness:
  "snd (poll_next (reference_rt False) (\<lambda>_. ResourcesExceeded :: unit webmetro_error)
     (chunk_webm (parse_ebml ([SourceErr ()] :: unit source)))) \<noteq> Ready (Some Panic)"
  by (rule release_chunker_never_panics [OF reference.big_endian_axioms]) simp

text \<open>
  C18. Where arithmetic is checked, whatever clusters the timecode fixer is given, those it
  returns follow one another: none starts before the end of the one before.
\<close>

theorem fixer_output_in_order:
  assumes "big_endian E" "overflow_checks E" "process_all E fixer_new chs = Ok chs'"
  shows "in_order 0 (cluster_heads chs')"
  using big_endian.process_all_in_order [OF assms] by (simp add: fixer_new_def)

theorem fixer_output_in_order_witness:
  "in_order 0 (cluster_heads [sample_cluster 9000, Headers [3], sample_cluster 9083,
     sample_cluster 9166, sample_cluster 9249])"
  by (rule fixer_output_in_order [OF reference.big_endian_axioms [of True] _ restart_fixed]) simp

text \<open>
  C19. The starting point finder lets through exactly the first header, the clusters since a
  keyframe that came after the last repeated header, and everything that is not a header or
  a cluster.
\<close>

theorem finder_lets_through: "finder_items (find_starting_point s) = let_through (script_items s)"
  by (rule finder_items_let_through)

text \<open>
  C20. In every reachable state of a channel, what a listener has received is a beginning of
  what it is due: the header it was greeted with and every chunk sent since it joined, in
  order and without a gap; while it is registered, nothing of that is lost.
\<close>

theorem listener_receives_contiguously:
  assumes "bounded_mpsc M queued receiving capacity" "reachable M s" "i < length (received s)"
  shows "prefix (received s ! i) (due s i) \<and>
    (i \<in> set (listeners (chan s)) - left s \<longrightarrow>
      received s ! i @ queued (queues (chan s) ! i) = due s i)"
  using bounded_mpsc.reachable_received [OF assms] by blast

theorem listener_receives_contiguously_witness:
  "prefix [Headers [1]] [Headers [1], sample_cluster 0] \<and>
   [Headers [1]] @ [sample_cluster 0] = [Headers [1], sample_cluster 0]"
  using listener_receives_contiguously
    [OF reference_queue.bounded_mpsc_axioms sample_run_reachable, of 0]
  by (simp add: sample_run_simps)

text \<open>
  C21. The two pipelines, written out separately in the sources, agree: for the same
  arguments, clock and input, the body of the request of send (its own window, fixer,
  filter, throttle and flattening) holds exactly the bytes the command filter writes, with
  the same error or panic at the end; and with throttling it is a beginning of the body
  without.
\<close>

theorem send_uploads_what_filter_writes:
  "received_bytes (send_body E cv T args stdin) = filter_command E cv T (stream_args.truncate args) stdin \<and>
   prefix (send_body E cv T args stdin) (send_body E cv T (args\<lparr>throttled := False\<rparr>) stdin)"
  by (simp add: send_body_filter send_body_throttled)

text \<open>
  C22. In every reachable state of the server, a request for the path live/name with a name
  that is not empty is answered by its method (media headers for HEAD and GET, a stream for
  GET, POST and PUT; other methods are rejected), any other path is rejected; no handler
  panics.
\<close>

theorem requests_are_answered:
  assumes "relay M queued receiving capacity W entry" "serving E M W s"
  shows "snd (routes M W req s) =
    (case req_path req of
       [segment, nm] \<Rightarrow>
         if segment = ''live'' \<and> nm \<noteq> [] then
           (case req_method req of
              MethodHead \<Rightarrow> Reply (media_response EmptyBody)
            | MethodGet \<Rightarrow> Reply (media_response (ViewerBody (length (viewings s))))
            | OtherMethod \<Rightarrow> Rejected
            | _ \<Rightarrow> Reply \<lparr>resp_headers = [], resp_body = UploadBody (length (uploads s))\<rparr>)
         else Rejected
     | _ \<Rightarrow> Rejected)"
  by (rule relay.routes_reply [OF assms])

theorem requests_are_answered_witness:
  "snd (routes reference_mpsc reference_map get_request viewer_joined) = Reply (media_response (ViewerBody 1))"
  by (subst requests_are_answered [OF reference_relay.relay_axioms viewer_joined_serving [where E = "reference_rt True"]])
    (simp add: get_request_def viewer_joined_eq)

text \<open>
  C23. In every reachable state the mutex is not poisoned, sending succeeds, and a new
  listener can always be given the header: the expect on queuing it never fails.
\<close>

theorem channel_never_panics:
  assumes "bounded_mpsc M queued receiving capacity" "reachable M s"
  shows "\<not> poisoned (chan s) \<and> snd (transmitter_send M c (chan s)) = Ok () \<and>
    snd (listener_new M (chan s)) = Ok (length (queues (chan s)))"
  using bounded_mpsc.reachable_no_panic [OF assms] by blast

theorem channel_never_panics_witness:
  "\<not> poisoned (chan sample_run) \<and>
   snd (transmitter_send reference_mpsc (Headers [2]) (chan sample_run)) = Ok () \<and>
   snd (listener_new reference_mpsc (chan sample_run)) = Ok (length (queues (chan sample_run)))"
  by (rule channel_never_panics [OF reference_queue.bounded_mpsc_axioms sample_run_reachable])

text \<open>
  C24. Sending a chunk keeps exactly the listeners that are still receiving and have fewer
  than six messages waiting, in their order, and appends the chunk to the queues of those.
\<close>

theorem send_drops_slow_listeners:
  assumes "bounded_mpsc M queued receiving capacity" "reachable M s"
    "transmitter_send M c (chan s) = (ch, r)"
  shows "listeners ch = filter (\<lambda>i. receiving (queues (chan s) ! i) \<and>
      length (queued (queues (chan s) ! i)) < 6) (listeners (chan s)) \<and>
    (\<forall>i < length (queues (chan s)). queued (queues ch ! i) =
      queued (queues (chan s) ! i) @ (if i \<in> set (listeners ch) then [c] else []))"
  using bounded_mpsc.reachable_send_listeners [OF assms] bounded_mpsc.reachable_send(3) [OF assms] by blast

theorem send_drops_slow_listeners_witness:
  "listeners (fst (transmitter_send reference_mpsc (Headers [2]) (chan sample_run))) = [0]"
proof -
  obtain ch r where send: "transmitter_send reference_mpsc (Headers [2]) (chan sample_run) = (ch, r)"
    by (cases "transmitter_send reference_mpsc (Headers [2]) (chan sample_run)")
  have "receiver_alive (queues (chan sample_run) ! 0)"
    by (simp add: sample_run_def channel_eval sample_cluster_def)
  with send_drops_slow_listeners [OF reference_queue.bounded_mpsc_axioms sample_run_reachable send] send
  show ?thesis by (simp add: sample_run_simps)
qed

text \<open>
  C25. Dropping any transmitter of a channel, also while another is sending on it, makes the
  channel forget its initialization segment: from then on, as long as no new header is sent,
  whatever else happens on the channel, it keeps no header, and every listener that joins
  receives only an uninterrupted beginning of the clusters sent since it joined, and no
  header.
\<close>

theorem disconnect_forgets_header:
  assumes "bounded_mpsc M queued receiving capacity" "reachable M s"
    and "(run_step M)\<^sup>*\<^sup>* (s\<lparr>chan := transmitter_drop (chan s)\<rparr>) s'"
    and "\<not> list_ex is_headers (drop (length (sent s)) (sent s'))"
  shows "header_chunk (chan s') = None \<and>
    (\<forall>i. length (received s) \<le> i \<and> i < length (received s') \<longrightarrow>
      prefix (received s' ! i) (drop (joined_at s' ! i) (sent s')) \<and> length (sent s) \<le> joined_at s' ! i \<and>
      \<not> list_ex is_headers (received s' ! i))"
proof -
  note dropped = bounded_mpsc.disconnected [OF assms(1,2)]
  note since = bounded_mpsc.joined_without_header [OF assms(1) dropped(1) _ assms(3)]
  show ?thesis using since dropped(2) assms(4) by simp
qed

theorem disconnect_forgets_header_witness:
  "header_chunk (chan rejoined_run) = None \<and>
   prefix (received rejoined_run ! 1) (drop 2 (sent rejoined_run)) \<and> \<not> list_ex is_headers (received rejoined_run ! 1)"
proof -
  have "\<not> list_ex is_headers (drop (length (sent sample_run)) (sent rejoined_run))"
    by (simp add: sample_run_simps(2) rejoined_simps)
  from disconnect_forgets_header [OF reference_queue.bounded_mpsc_axioms sample_run_reachable rejoined_steps this]
  have "header_chunk (chan rejoined_run) = None"
    "length (received sample_run) \<le> 1 \<and> 1 < length (received rejoined_run) \<Longrightarrow>
      prefix (received rejoined_run ! 1) (drop (joined_at rejoined_run ! 1) (sent rejoined_run)) \<and>
      \<not> list_ex is_headers (received rejoined_run ! 1)" by blast+
  then show ?thesis by (simp add: sample_run_simps(1) rejoined_simps(2,3))
qed

text \<open>
  C26. Without throttle and window, for an input without read errors that parses to its end
  into well-timed events (no block earlier than its cluster, timecodes below 2 to the 63,
  tracks up to 31, payloads whose size can be encoded) of less than 2 to the 64 bytes whose
  clusters are in order, the command filter succeeds and writes exactly the bytes of the
  chunks the chunker makes of the input, unchanged by fixer and window, and these bytes read
  back as the events of the input as the chunker regroups them (each cluster as its tag, its
  last timecode and its blocks, without the elements that are never written and without a
  header that no cluster follows).
\<close>

theorem filter_is_transparent:
  fixes cv :: "'e \<Rightarrow> 'x webmetro_error"
  assumes "big_endian E" "\<And>e. SourceErr e \<notin> set stdin"
    and "whole_events (webm_from_ebml E) (source_bytes stdin) = (els, Ok ())"
    and "well_timed els" "length (written_bytes els) < 2 ^ 64" "groups (InHeader []) els = (gs, b)"
    and "in_order 0 (cluster_heads (map realize (gs @ last_group b)))"
    and "\<not> throttled args" "skip_secs args = None" "take_secs args = None"
  shows "filter_command E cv T args stdin =
      (chunks_bytes (fst (all_chunks E cv (chunk_webm (parse_ebml stdin)))), Ok ()) \<and>
    whole_events (webm_from_ebml E) (fst (filter_command E cv T args stdin)) =
      (concat (map group_events (gs @ last_group b)), Ok ())"
  using big_endian.filter_run_in_order [OF assms(1-7), where cv = cv] assms(8-10)
    big_endian.chunk_webm_groups [OF assms(1-5), where cv = cv] assms(6)
  by (simp add: filter_command_unthrottled)

theorem filter_is_transparent_witness:
  "filter_command (reference_rt True) (\<lambda>_. ResourcesExceeded :: unit webmetro_error) sample_clocks plain_args
     (sample_input :: unit source) = (chunks_bytes [realize header_group, realize cluster_group], Ok ()) \<and>
   whole_events (webm_from_ebml (reference_rt True))
     (fst (filter_command (reference_rt True) (\<lambda>_. ResourcesExceeded :: unit webmetro_error) sample_clocks plain_args
       (sample_input :: unit source))) =
   (concat (map group_events [header_group, cluster_group]), Ok ())"
  using filter_is_transparent [OF reference.big_endian_axioms [of True] sample_no_error sample_parsed
      sample_well_timed sample_size sample_groups, where cv = "\<lambda>_. ResourcesExceeded :: unit webmetro_error"
      and args = plain_args and T = sample_clocks,
      unfolded sample_last append_Cons append_Nil, OF sample_in_order plain_args_simps]
  by (simp only: sample_chunks fst_conv)

text \<open>
  C27. In any build, the fixer does not panic on clusters whose starts are at most S and
  lengths at most D, as long as 2 S plus 33 + D for each chunk stays below 2 to the 64; it
  changes nothing but the position in time, keeps every length, and puts the clusters in
  order.
\<close>

theorem fixer_retimes_without_panic:
  assumes "big_endian E" "\<And>h. h \<in> set (cluster_heads chs) \<Longrightarrow>
      start h \<le> end_time h \<and> unat (start h) \<le> S \<and> cluster_length h \<le> D"
    and "2 * S + length chs * (33 + D) < 2 ^ 64"
  shows "\<exists>chs'. process_all E fixer_new chs = Ok chs' \<and> list_all2 retimed chs chs' \<and>
    in_order 0 (cluster_heads chs')"
  using big_endian.process_all_retimes [OF assms(1), of chs S D fixer_new 33] assms(2,3)
  by (simp add: fixer_new_def)

theorem fixer_retimes_without_panic_witness:
  "\<exists>chs'. process_all (reference_rt False) fixer_new [sample_cluster 9000, sample_cluster 0] = Ok chs' \<and>
     list_all2 retimed [sample_cluster 9000, sample_cluster 0] chs' \<and> in_order 0 (cluster_heads chs')"
  by (rule fixer_retimes_without_panic [OF reference.big_endian_axioms, where S = 9000 and D = 50])
    (auto simp: sample_cluster_def cluster_length_def word_le_nat_alt)

text \<open>
  C28. While the clusters of a restarted stream have timecodes below the last end observed,
  the fixer puts each exactly the assumed duration behind the one before: their own
  distances are lost, because an original timecode is compared with a shifted one. This
  holds in a build with overflow checks whenever the fixer does not panic, and in any build
  for clusters that do not end before they start and are at most D long, if the last end and
  the assumed duration plus D for each chunk stay below 2 to the 64.
\<close>

theorem fixer_spaces_restarted_clusters:
  assumes "big_endian E" "\<And>h. h \<in> set (cluster_heads chs) \<Longrightarrow> start h < last_observed_timecode f"
    and "overflow_checks E \<or>
      (\<forall>h \<in> set (cluster_heads chs). start h \<le> end_time h \<and> cluster_length h \<le> D) \<and>
      unat (last_observed_timecode f) + length chs * (unat (assumed_duration f) + D) < 2 ^ 64"
    and "process_all E f chs = Ok chs'"
  shows "spaced (unat (assumed_duration f)) (last_observed_timecode f) (cluster_heads chs')"
  using assms unfolding spacing_fits_def [symmetric] by (rule big_endian.process_all_spaced)

theorem fixer_spaces_restarted_clusters_witness:
  "spaced 33 9050 (cluster_heads [sample_cluster 9083, sample_cluster 9166, sample_cluster 9249])"
  using fixer_spaces_restarted_clusters [OF reference.big_endian_axioms [of False] _ _ restart_spaced [of False],
      where D = 50]
  by (auto simp: restarted_fixer_def sample_cluster_def cluster_length_def word_le_nat_alt)

text \<open>
  C29. Every cluster chunk the chunker emits, on any input, has the 15 head bytes of its
  start, and where arithmetic is checked it does not end before it starts.
\<close>

theorem chunk_heads_are_consistent:
  fixes cv :: "'e \<Rightarrow> 'x webmetro_error"
  assumes "big_endian E" "ClusterChunk h body \<in> set (fst (all_chunks E cv (chunk_webm (parse_ebml stdin))))"
  shows "head_bytes h = head_image (start h) \<and> (overflow_checks E \<longrightarrow> start h \<le> end_time h)"
  using big_endian.all_chunks_heads_ok [OF assms(1) _ assms(2)] by (simp add: chunk_webm_def head_ok_def)

theorem chunk_heads_are_consistent_witness:
  "head_bytes (group_head [Timecode 5, SimpleBlock sample_block]) = head_image 5 \<and>
   (5::u64) \<le> end_time (group_head [Timecode 5, SimpleBlock sample_block])"
proof -
  have "ClusterChunk (group_head [Timecode 5, SimpleBlock sample_block]) (written_bytes [SimpleBlock sample_block])
      \<in> set (fst (all_chunks (reference_rt True) (\<lambda>_. ResourcesExceeded :: unit webmetro_error)
          (chunk_webm (parse_ebml (sample_input :: unit source)))))"
    by (simp add: sample_chunks cluster_group_def)
  from chunk_heads_are_consistent [OF reference.big_endian_axioms this] show ?thesis
    by (simp add: group_head_def group_start_def)
qed

text \<open>
  C30. Over any seekable writer that keeps the contract, encode_element leaves the tag, a
  four-byte size that is the length of what the content wrote, and the content, and the
  position behind it.
\<close>

theorem back_patched_element:
  assumes "ebml_writer E W contents pos room" "encodable (Value tag)"
    and "byte_sink.emits contents pos room content body" "length body < 2 ^ 28 - 1"
  shows "byte_sink.emits contents pos room (encode_element E W tag content) (patched_element_bytes tag body)"
  using assms by (rule ebml_writer.emits_encode_element)

theorem back_patched_element_witness:
  "byte_sink.emits get_ref position (\<lambda>_ _. True)
     (encode_element (reference_rt True) vec_writer EBML_HEAD_ID (io_return ()))
     (patched_element_bytes EBML_HEAD_ID [])"
  by (rule back_patched_element [OF reference_vec_writer _ vec_cursor.emits_return]) simp_all

text \<open>
  C31. Written again at the end of a growing buffer, an element that was decoded from n
  bytes appends at most n bytes, or the 15 bytes of an EBML head if that is more, and
  nothing else of the buffer changes; only a Void, Info or unknown element or a block of a
  track above 31 is refused, with an invalid-input error and nothing written.
\<close>

theorem reencoding_does_not_grow:
  assumes "big_endian E" "decode_element (webm_from_ebml E) bs = Ok (Some (el, n))" "length out + max n 15 < 2 ^ 64"
  shows "if refused el
    then encode_webm_element E vec_writer el (filled out) = (filled out, Err (MkIoError InvalidInput (Some OutOfRange)))
    else \<exists>more. encode_webm_element E vec_writer el (filled out) = (filled (out @ more), Ok ()) \<and>
      length more \<le> max n 15"
  using big_endian.reencoded [OF assms] by (simp only: out_of_range_def)

theorem reencoding_does_not_grow_witness:
  "\<exists>more. encode_webm_element (reference_rt True) vec_writer Cluster (filled [1]) = (filled ([1] @ more), Ok ()) \<and>
    length more \<le> 15"
  using reencoding_does_not_grow [OF reference.big_endian_axioms [of True] cluster_header_decoded, where out = "[1]"]
  by (simp del: encode_webm_element.simps)

text \<open>
  C32. Decoding a WebM element does not panic, whatever the bytes: no index, slice or codec
  call is out of range.
\<close>

theorem decoder_is_total:
  assumes "big_endian E"
  shows "decode_element (webm_from_ebml E) bs \<noteq> Panic"
proof -
  have "total_decoder (webm_from_ebml E)"
    using big_endian.webm_decode_no_panic [OF assms] by unfold_locales (simp add: webm_from_ebml_def)
  then show ?thesis by (rule total_decoder.decode_element_no_panic)
qed

theorem decoder_is_total_witness:
  "decode_element (webm_from_ebml (reference_rt True)) [0xA3, 0x81, 0x81] \<noteq> Panic"
  by (rule decoder_is_total [OF reference.big_endian_axioms])

text \<open>
  C33. Once a buffer decodes to an element or an error, more input behind it does not change
  the result; only an incomplete element waits for more.
\<close>

theorem decoding_is_prefix_stable:
  assumes "decode_element F bs \<noteq> Ok None"
  shows "decode_element F (bs @ ys) = decode_element F bs"
  using assms by (rule decode_element_append)

theorem decoding_is_prefix_stable_witness:
  "decode_element (webm_from_ebml (reference_rt True)) (cluster_header @ [1, 2, 3]) = Ok (Some (Cluster, 5))"
  using decoding_is_prefix_stable [of "webm_from_ebml (reference_rt True)" cluster_header "[1, 2, 3]"]
  by (simp add: cluster_header_decoded)

text \<open>
  C34. Every value up to 2 to the 56 minus 2 is written as a varint that decodes to it, in
  as few bytes as hold it without being all ones.
\<close>

theorem varint_round_trip:
  assumes "big_endian E" "w \<le> EIGHT_MAX"
  shows "\<exists>out. encode_varint E W (Value w) = write_all W out \<and>
    decode_varint (out @ ys) = Ok (Some (Value w, length out)) \<and>
    (\<forall>n \<ge> 1. unat w < 2 ^ (7 * n) - 1 \<longrightarrow> length out \<le> n)"
proof -
  have enc: "encodable (Value w)" using assms(2) by (simp add: encodable.simps)
  have "length (varint_bytes (Value w)) \<le> n" if "1 \<le> n" "unat w < 2 ^ (7 * n) - 1" for n
    using varint_size_least [of n "unat w"] that by (auto simp: varint_bytes.simps not_le [symmetric])
  with big_endian.encode_varint_eq [OF assms(1) enc] decode_varint_bytes [OF enc] show ?thesis by blast
qed

theorem varint_round_trip_witness:
  "\<exists>out. encode_varint (reference_rt True) vec_writer (Value 127) = write_all vec_writer out \<and>
    decode_varint (out @ [5]) = Ok (Some (Value 127, length out)) \<and>
    (\<forall>n \<ge> 1. unat (127 :: u64) < 2 ^ (7 * n) - 1 \<longrightarrow> length out \<le> n)"
  by (rule varint_round_trip [OF reference.big_endian_axioms]) (simp add: EIGHT_MAX_eq)

text \<open>
  C35. The asynchronous next is poll_event with the waiting left out: on Pending it polls
  again, and any other result is the same.
\<close>

theorem next_is_poll_event:
  "next_event F cv p =
    (case poll_event F cv p of
       (p', Pending) \<Rightarrow> next_event F cv p'
     | (p', Ready None) \<Rightarrow> (p', Ok None)
     | (p', Ready (Some r)) \<Rightarrow> (p', and_then r (\<lambda>el. Ok (Some el))))"
  by (rule next_event_poll)

text \<open>
  C36. Iterating over a complete buffer ends without a panic and yields the events of the
  buffer up to the first that is incomplete or corrupt.
\<close>

theorem iterator_yields_the_events:
  assumes "big_endian E"
  shows "\<exists>rest. parse_webm E bs = Ok (fst (whole_events (webm_from_ebml E) bs), rest)"
proof -
  have "total_decoder (webm_from_ebml E)"
    using big_endian.webm_decode_no_panic [OF assms] by unfold_locales (simp add: webm_from_ebml_def)
  from total_decoder.ebml_events_whole [OF this] show ?thesis by (simp add: parse_webm_def)
qed

theorem iterator_yields_the_events_witness:
  "\<exists>rest. parse_webm (reference_rt True) (written_bytes sample_elements) = Ok (sample_elements, rest)"
  using iterator_yields_the_events [OF reference.big_endian_axioms, of True "written_bytes sample_elements"]
    sample_parsed [of True] by (simp add: sample_source_bytes)

text \<open>
  C37. A block with a negative timecode relative to its cluster: if it is not before zero, a
  build with overflow checks panics and one without ignores it; if it is before zero, the
  end of the cluster becomes a value just below 2 to the 64.
\<close>

theorem early_blocks_break_the_cluster_end:
  assumes "sint tc < 0"
  shows "(if nat (- sint tc) \<le> unat (start h)
      then observe_simpleblock_timecode E tc h = (if overflow_checks E then Panic else Ok h)
      else \<exists>e. observe_simpleblock_timecode E tc h = Ok (h\<lparr>end_time := e\<rparr>) \<and>
        unat e = 2 ^ 64 - (nat (- sint tc) - unat (start h)))"
  using observe_negative [OF assms, of h E] by auto

theorem early_blocks_break_the_cluster_end_witness:
  "observe_simpleblock_timecode (reference_rt True) (- 1)
     \<lparr>keyframe = False, start = 5, end_time = 5, head_bytes = []\<rparr> = (Panic :: (unit, cluster_head) outcome)"
  using early_blocks_break_the_cluster_end
    [of "- 1" "\<lparr>keyframe = False, start = 5, end_time = 5, head_bytes = []\<rparr>" "reference_rt True"]
  by simp

text \<open>
  C38. With a timer that is not early, the first cluster of a throttled stream starts the
  clock so that its end is on time, and on that clock each later cluster is delivered no
  earlier than the end of the cluster before it.
\<close>

theorem throttle_keeps_pace:
  assumes "timer elapsed" "throttle_run elapsed clock (throttle_new now wrap) = (t', rs)"
  shows "on_time clock (delivered rs)"
  by (rule timer.throttle_run_fresh [OF assms]) (simp add: throttle_new_def)

theorem throttle_keeps_pace_witness:
  "on_time [(0, 1), (20, 20), (60, 61)]
     (delivered (snd (throttle_run exact_timer [(0, 1), (20, 20), (60, 61)]
        (throttle_new 0 ([Ready (Some (Ok (sample_cluster 0))), Ready (Some (Ok (sample_cluster 50)))] :: unit chunk_script)))))"
  by (rule throttle_keeps_pace [OF exact_timer.timer_axioms, OF prod.collapse [symmetric]])





section \<open>Further facts\<close>

text \<open>
  The unit tests of the repository hold of the model, each with the assertions it makes on
  the code; the two that read the large sample file hold whatever the bytes are that the
  decoder skips.
\<close>

theorem unit_tests_hold:
  "fail_corrupted_varints \<and> incomplete_varints \<and> parse_varints \<and> encode_varints \<and>
   fail_corrupted_tags \<and> incomplete_tags \<and> parse_tags \<and> bad_uints \<and> parse_uints \<and>
   decode_sanity_test rest \<and> encode_webm_test \<and> stream_webm_test \<and> async_webm_test \<and> enough_space_for_header \<and>
   decode_webm_test1 (test1_webm content)"
  by (simp add: decode_varint_tests decode_tag_tests decode_uint_tests encode_varint_tests decode_sanity
      encode_webm stream_tests header_space decode_webm_test1_holds)

text \<open>
  With the soft limits of the relay on parser and chunker, every chunk of an upload holds at
  most twice the limit plus the largest piece of input.
\<close>

theorem relay_upload_is_bounded:
  fixes cv :: "'e \<Rightarrow> 'x webmetro_error"
  assumes "big_endian E" "\<And>d. SourceData d \<in> set body \<Longrightarrow> length d \<le> m" "m < 2 ^ 60"
    "ch \<in> set (fst (all_chunks E cv (relay_chunker body)))"
  shows "chunk_sized (2 * BUFFER_LIMIT + m) ch"
  using assms by (rule big_endian.relay_chunks_sized)

theorem relay_upload_is_bounded_witness: "chunk_sized (2 * BUFFER_LIMIT + 5) (Headers [])"
proof (rule relay_upload_is_bounded [OF reference.big_endian_axioms [of True], where m = 5
      and body = "[SourceData cluster_header] :: unit source"
      and cv = "\<lambda>_. ResourcesExceeded :: unit webmetro_error"])
  show "Headers [] \<in> set (fst (all_chunks (reference_rt True)
      (\<lambda>_. ResourcesExceeded :: unit webmetro_error) (relay_chunker [SourceData cluster_header])))"
    by (rule relay_sample)
qed (auto simp: cluster_header_def)

text \<open>
  A viewer that is still registered at its channel has been sent everything it is due after
  at most 27 turns of its stream, if no other task uses the channel in between: always in a
  release build, and in a build with overflow checks if the fixer passes what is due without
  a panic.
\<close>

theorem registered_viewer_catches_up:
  fixes s :: "('q, 'm, 'e) server"
  assumes "relay M queued receiving capacity W entry" "big_endian E"
    and "\<not> overflow_checks E \<or> (\<exists>out. get_stream E (due r i) = Ok out)"
    and "serving E M W s" "j < length (viewings s)" "view_open (viewings s ! j)"
    and "r = channel_runs s ! view_channel (viewings s ! j)" "i = tuned (view_state (viewings s ! j))"
    and "i \<in> set (listeners (chan r))"
  shows "\<exists>n \<le> 27. get_stream E (due r i) =
    Ok (view_out (viewings ((turn_viewing E M j ^^ n) s) ! j))"
proof (rule relay.registered_viewing_served [OF assms(1,4-6) _ assms(7-9)])
  show "relay.viewing_clean E j s"
    using assms(3) relay.viewing_clean_release [OF assms(1,2)]
    by (auto simp: relay.viewing_clean_def [OF assms(1)] Let_def assms(7,8))
qed

theorem registered_viewer_catches_up_witness:
  "\<exists>n \<le> 27. get_stream (reference_rt False) [Headers []] =
    Ok (view_out (viewings ((turn_viewing (reference_rt False) reference_mpsc 0 ^^ n) (header_sent False)) ! 0))"
  using registered_viewer_catches_up [OF reference_relay.relay_axioms reference.big_endian_axioms _
      header_sent_serving _ _ refl refl, of False 0]
  by (simp add: header_sent_simps viewer_new_def del: One_nat_def)

text \<open>
  The command relay goes on until every server it started has ended: for addresses that
  resolve, it is still running exactly if they are not all, with their multiplicity, among
  those whose server ended; otherwise it returns at once.
\<close>

theorem relay_runs_on:
  "snd (relay_run resolve ended listen) = (None :: ('x webmetro_error, unit) outcome option) \<longleftrightarrow>
    (\<exists>addrs. resolve listen = Ok addrs \<and> \<not> mset addrs \<subseteq># mset ended)"
  by (rule relay_run_iff)

text \<open>
  A value above 2 to the 56 minus 2 is refused with an invalid-input error, and nothing is
  written.
\<close>

theorem large_varints_are_refused:
  assumes "EIGHT_MAX < w"
  shows "encode_varint E W (Value w) t = (t, Err (MkIoError InvalidInput (Some OutOfRange)))"
  using encode_varint_Err [of "Value w" E W t] assms by (simp add: encodable.simps out_of_range_def)

theorem large_varints_are_refused_witness:
  "encode_varint (reference_rt True) vec_writer (Value (2 ^ 56 - 1)) (filled [1]) =
   (filled [1], Err (MkIoError InvalidInput (Some OutOfRange)))"
  by (rule large_varints_are_refused) (simp add: EIGHT_MAX_eq)

text \<open>
  A value up to 2 to the 28 minus 2, and the unknown value, is written in exactly four bytes
  that decode to it.
\<close>

theorem four_byte_varint_round_trip:
  assumes "big_endian E" "encodable_4 v"
  shows "\<exists>out. encode_varint_4 E W v = write_all W out \<and> length out = 4 \<and>
    decode_varint (out @ ys) = Ok (Some (v, 4))"
  using big_endian.encode_varint_4_eq [OF assms, of W] decode_varint_4_bytes [OF assms(2), of ys]
  by (intro exI [of _ "varint_4_bytes v"]) simp

theorem four_byte_varint_round_trip_witness:
  "\<exists>out. encode_varint_4 (reference_rt True) vec_writer (Value 3) = write_all vec_writer out \<and>
    length out = 4 \<and> decode_varint (out @ [5]) = Ok (Some (Value 3, 4))"
  by (rule four_byte_varint_round_trip [OF reference.big_endian_axioms]) (simp add: encodable_4I)

text \<open>
  With a soft limit, a poll leaves the parser with a buffer no larger than it was or than
  the limit plus the largest piece of input.
\<close>

theorem parser_buffer_is_bounded:
  assumes "poll_event F cv p = (p', r)" "buffer_size_limit p = Some l"
    "\<And>d. SourceData d \<in> set (stream p) \<Longrightarrow> length d \<le> m"
  shows "length (buffer p') \<le> max (length (buffer p)) (l + m)"
  using assms by (rule poll_event_buffer)

theorem parser_buffer_is_bounded_witness:
  "length (buffer (fst (poll_event (webm_from_ebml (reference_rt True))
      (\<lambda>_. ResourcesExceeded :: unit webmetro_error)
      (with_soft_limit (parse_ebml ([SourceData [1, 2, 3], SourceData [4]] :: unit source)) 2)))) \<le> max 0 (2 + 3)"
proof -
  let ?p = "with_soft_limit (parse_ebml ([SourceData [1, 2, 3], SourceData [4]] :: unit source)) 2"
  obtain p' r where poll: "poll_event (webm_from_ebml (reference_rt True))
      (\<lambda>_. ResourcesExceeded :: unit webmetro_error) ?p = (p', r)"
    by (cases "poll_event (webm_from_ebml (reference_rt True))
      (\<lambda>_. ResourcesExceeded :: unit webmetro_error) ?p")
  have "length (buffer p') \<le> max (length (buffer ?p)) (2 + 3)"
    by (rule parser_buffer_is_bounded [OF poll]) (auto simp: with_soft_limit_def parse_ebml_def)
  with poll show ?thesis by (simp add: with_soft_limit_def parse_ebml_def)
qed

text \<open>
  Throttling changes nothing but time: what a run has delivered is a beginning of the items
  of the stream below.
\<close>

theorem throttle_changes_no_item:
  assumes "throttle_run elapsed clock (throttle_new now wrap) = (t', rs)"
  shows "prefix (run_items rs) (script_items wrap)"
  using throttle_run_items [OF assms] by (simp add: throttle_new_def)

theorem throttle_changes_no_item_witness:
  "prefix (run_items (snd (throttle_run exact_timer [(0, 1), (60, 61)]
      (throttle_new 0 ([Ready (Some (Ok (sample_cluster 0)))] :: unit chunk_script))))) [Ok (sample_cluster 0)]"
  using throttle_changes_no_item [OF prod.collapse [symmetric], of exact_timer "[(0, 1), (60, 61)]" 0
      "[Ready (Some (Ok (sample_cluster 0)))] :: unit chunk_script"] by simp

text \<open>
  A time argument of decimal digits is read as their number if it is below 2 to the 64, and
  refused as too large otherwise.
\<close>

theorem time_arguments:
  assumes "ds \<noteq> []" "\<forall>d \<in> set ds. d < 10"
  shows "parse_time (map digit_char ds) =
    (if decimal ds < 2 ^ 64 then Ok (decimal ds)
     else Err (ApplicationError ''number too large to fit in target type''))"
  using assms by (rule parse_time_decimal)

theorem time_arguments_witness:
  "(parse_time (map digit_char [4, 2]) :: (unit webmetro_error, nat) outcome) = Ok 42"
  by (subst time_arguments) (simp_all add: decimal_def)

text \<open>
  An integer payload of one to eight bytes decodes to the number it denotes in big-endian
  order, without overflow; any other length is a corrupt payload.
\<close>

theorem integers_are_big_endian:
  assumes "big_endian E"
  shows "decode_uint E bs =
      (if 1 \<le> length bs \<and> length bs \<le> 8 then Ok (of_nat (be_val bs)) else Err CorruptPayload) \<and>
    (\<forall>v. decode_uint E bs = Ok v \<longrightarrow> unat v = be_val bs)"
  using big_endian.decode_uint_eq [OF assms] big_endian.decode_uint_value [OF assms] by blast

theorem integers_are_big_endian_witness:
  "decode_uint (reference_rt True) [1, 2] = Ok 258"
  using integers_are_big_endian [OF reference.big_endian_axioms, of True "[1, 2]"] by (simp add: be_simps)

text \<open>
  A new cluster head has the timecode as start and end and the bytes of a Cluster tag and a
  Timecode element, which fit the fixed array of 15 bytes exactly: the unwraps never fail.
\<close>

theorem cluster_head_fits_its_array:
  assumes "big_endian E"
  shows "cluster_head_new E tc =
      Ok \<lparr>keyframe = False, start = tc, end_time = tc,
          head_bytes = webm_bytes Cluster @ webm_bytes (Timecode tc)\<rparr> \<and>
    length (webm_bytes Cluster @ webm_bytes (Timecode tc)) = 15"
  using big_endian.cluster_head_new_eq [OF assms] length_head_image [of tc] by (simp add: head_image_def)

theorem cluster_head_fits_its_array_witness:
  "(cluster_head_new (reference_rt True) 7 :: (unit, cluster_head) outcome) =
      Ok \<lparr>keyframe = False, start = 7, end_time = 7,
          head_bytes = webm_bytes Cluster @ webm_bytes (Timecode 7)\<rparr> \<and>
    length (webm_bytes Cluster @ webm_bytes (Timecode 7)) = 15"
  by (rule cluster_head_fits_its_array [OF reference.big_endian_axioms])

text \<open>
  A stream of chunks that is in order already passes the fixer unchanged.
\<close>

theorem fixer_leaves_ordered_streams:
  assumes "big_endian E" "in_order 0 (cluster_heads chs)"
    and "\<And>h. h \<in> set (cluster_heads chs) \<Longrightarrow> head_bytes h = head_image (start h)"
  shows "process_all E fixer_new chs = Ok chs"
  using assms by (intro big_endian.process_all_idle) (simp_all add: fixer_new_def)

theorem fixer_leaves_ordered_streams_witness:
  "process_all (reference_rt True) fixer_new [sample_cluster 0, sample_cluster 100] =
   Ok [sample_cluster 0, sample_cluster 100]"
  by (rule fixer_leaves_ordered_streams [OF reference.big_endian_axioms])
    (auto simp: sample_cluster_def word_le_nat_alt)

text \<open>
  What a listener is given on joining is an initialization segment: only header chunks are
  kept for late listeners.
\<close>

theorem greeting_is_a_header:
  assumes "reachable M s" "g \<in> set (greeting s)" "h \<in> set g"
  shows "is_headers h"
  using assms by (rule reachable_greeting)

theorem greeting_is_a_header_witness:
  "\<exists>s. reachable reference_mpsc s \<and> [Headers [1]] \<in> set (greeting s) \<and> is_headers (Headers [1])"
proof -
  obtain s where s: "reachable reference_mpsc s" "[Headers [1]] \<in> set (greeting s)"
    using late_joiner_greeted by blast
  then show ?thesis
    using greeting_is_a_header [OF s, of "Headers [1]"] by auto
qed

text \<open>
  The text dump prints determines what it saw: two inputs with the same output have the same
  events, up to the contents of tracks and of blocks, which it does not print.
\<close>

theorem dump_output_is_readable:
  "dump_text (fst (dump_run E cv stdin)) = dump_text (fst (dump_run E cv stdin')) \<longleftrightarrow>
    fst (dump_run E cv stdin) = fst (dump_run E cv stdin')"
  by (auto simp: dump_run_def split: prod.splits dest: dump_text_inj)

end
